(* ===== verification/Prelude.thy ===== *)
theory Prelude
  imports Main "HOL-Library.Word"
begin

text \<open>
  The prelude of the development: names for the machine types of the firmware, the
  collections of simplification rules the components add to, and the generic facts on
  words and lists that several components use.

  The target is a 32-bit ARM core: \<^verbatim>\<open>uint_fast8_t\<close>, \<^verbatim>\<open>uint_fast16_t\<close>, \<^verbatim>\<open>size_t\<close> and
  \<^verbatim>\<open>unsigned\<close> are 32 bits wide and \<^verbatim>\<open>char\<close> is unsigned.
\<close>

type_synonym u8 = "8 word"
type_synonym u16 = "16 word"
type_synonym u32 = "32 word"
type_synonym u64 = "64 word"

type_synonym i32 = "32 word"

text \<open>A C pointer as an address; 0 is \<^verbatim>\<open>NULL\<close>.\<close>

type_synonym ptr = nat

unbundle bit_operations_syntax

text \<open>
  The heap is not modelled beyond the one thing the code depends on: an allocation may
  fail. The outcomes of the coming \<^verbatim>\<open>malloc\<close> calls are a list, consumed one per call;
  past its end allocations succeed.
\<close>

definition malloc :: "bool list \<Rightarrow> bool \<times> bool list" where
  "malloc outcomes = (case outcomes of [] \<Rightarrow> (True, []) | ok # rest \<Rightarrow> (ok, rest))"

text \<open>Characters: the C macros \<^verbatim>\<open>CAPS\<close> and \<^verbatim>\<open>LCAPS\<close> of \<^verbatim>\<open>grbl/nuts_bolts.h\<close>, and reading a
  C string, whose terminator is the character after the last one.\<close>

definition CAPS :: "char \<Rightarrow> char" where
  "CAPS c = (if (of_char (CHR ''a'') :: nat) \<le> of_char c \<and> (of_char c :: nat) \<le> of_char (CHR ''z'')
             then char_of ((of_char c :: nat) AND 0x5F) else c)"

definition LCAPS :: "char \<Rightarrow> char" where
  "LCAPS c = (if (of_char (CHR ''A'') :: nat) \<le> of_char c \<and> (of_char c :: nat) \<le> of_char (CHR ''Z'')
              then char_of ((of_char c :: nat) OR 0x20) else c)"

definition NUL :: char where
  "NUL = CHR 0x00"

definition cstr_at :: "string \<Rightarrow> nat \<Rightarrow> char" where
  "cstr_at s i = (if i < length s then s ! i else NUL)"

text \<open>\<^verbatim>\<open>!strncmp(s, lit, strlen(lit))\<close> for a literal without a terminator inside.\<close>

definition starts_with :: "string \<Rightarrow> string \<Rightarrow> bool" where
  "starts_with s lit = (take (length lit) s = lit)"

named_theorems ring_simps \<open>index arithmetic of power-of-two ring buffers\<close>
named_theorems inv_intros \<open>every operation keeps the invariant of its component\<close>

subsection \<open>Words\<close>

lemma unat_and_mask: "unat (w AND mask k) = unat (w :: 'a::len word) mod 2 ^ k"
  by (metis take_bit_eq_mask take_bit_eq_mod unsigned_take_bit_eq)

lemma unat_eq_iff [simp]: "unat a = unat b \<longleftrightarrow> a = (b :: 'a::len word)"
  by (simp add: word_unat_eq_iff)

text \<open>Advancing an index of a buffer of \<open>2 ^ k\<close> slots with a mask, on words.\<close>

lemma unat_next_mask:
  assumes "unat (w :: 'a::len word) < 2 ^ k" and "k < LENGTH('a)"
  shows "unat ((w + 1) AND mask k) = Suc (unat w) mod 2 ^ k"
proof -
  have "(2::nat) ^ k < 2 ^ LENGTH('a)" using assms(2) by simp
  with assms(1) have "unat w + 1 < 2 ^ LENGTH('a)" by linarith
  then have "unat (w + 1) = unat w + 1" by (simp add: unat_word_ariths)
  then show ?thesis by (simp add: unat_and_mask)
qed

lemma xor_cancel_right [simp]: "a XOR c = b XOR c \<longleftrightarrow> a = (b :: 'a::len word)"
  by (metis xor.assoc xor.right_neutral xor_self_eq)

lemma xor_cancel_left [simp]: "c XOR a = c XOR b \<longleftrightarrow> a = (b :: 'a::len word)"
  by (simp add: xor.commute [of c])

lemma xor_transpose: "x XOR b = y XOR d \<Longrightarrow> x XOR y = b XOR (d :: 'a::len word)"
proof -
  assume h: "x XOR b = y XOR d"
  have "x XOR y = ((x XOR b) XOR b) XOR y" by (simp add: xor.assoc)
  also have "\<dots> = ((y XOR d) XOR b) XOR y" by (simp only: h)
  also have "\<dots> = b XOR d" by (rule bit_word_eqI) (auto simp: bit_xor_iff)
  finally show ?thesis .
qed

lemma xor_eq_0_iff [simp]: "a XOR b = 0 \<longleftrightarrow> a = (b :: 'a::len word)"
  by (metis xor_cancel_right xor_self_eq)

lemma drop_bit_0_not_bit:
  assumes "drop_bit m r = 0" and "m \<le> n"
  shows "\<not> bit (r :: 'a::len word) n"
proof -
  have "bit (drop_bit m r) (n - m) = bit r n" using assms(2) by (simp add: bit_drop_bit_eq)
  with assms(1) show ?thesis by simp
qed

lemma funpow_8: "(f ^^ 8) x = f (f (f (f (f (f (f (f x)))))))"
  by (simp add: numeral_eq_Suc)

lemma drop_bit_ucast_u8 [simp]: "drop_bit 8 (ucast (b :: u8) :: u16) = 0"
  by (rule bit_eqI) (auto simp: bit_drop_bit_eq bit_ucast_iff dest: bit_imp_le_length)

lemma ucast_u8_eq_iff [simp]: "(ucast (a :: u8) :: u16) = ucast b \<longleftrightarrow> a = b"
proof
  assume h: "(ucast a :: u16) = ucast b"
  show "a = b"
  proof (rule bit_word_eqI)
    fix n assume n: "n < LENGTH(8)"
    have "bit (ucast a :: u16) n = bit (ucast b :: u16) n" using h by simp
    with n show "bit a n = bit b n" by (simp add: bit_ucast_iff)
  qed
qed simp

lemma unat_drop_bit: "unat (drop_bit n w) = unat (w :: 'a::len word) div 2 ^ n"
  by (metis drop_bit_eq_div unat_drop_bit_eq)

lemma bit_iff_odd_unat: "n < LENGTH('a) \<Longrightarrow> bit (w :: 'a::len word) n \<longleftrightarrow> odd (unat w div 2 ^ n)"
  using bit_unsigned_iff [of w n, where 'a = nat] by (simp add: bit_iff_odd)

lemma not_bit_of_less:
  assumes "unat (w :: 'a::len word) < 2 ^ j" and "j \<le> i"
  shows "\<not> bit w i"
proof
  assume b: "bit w i"
  then have "odd (unat w div 2 ^ i)" by (metis bit_iff_odd_unat bit_imp_le_length)
  moreover have "unat w < 2 ^ i" using assms by (meson less_le_trans one_le_numeral power_increasing)
  ultimately show False by simp
qed

text \<open>Equality of bytes, bit by bit, for terms with known bits.\<close>

lemma byte_eq_iff:
  "a = b \<longleftrightarrow> bit a 0 = bit b 0 \<and> bit a 1 = bit b 1 \<and> bit a 2 = bit b 2 \<and> bit a 3 = bit b 3 \<and>
     bit a 4 = bit b 4 \<and> bit a 5 = bit b 5 \<and> bit a 6 = bit b 6 \<and> bit a 7 = bit (b :: u8) 7"
proof
  assume bits: "bit a 0 = bit b 0 \<and> bit a 1 = bit b 1 \<and> bit a 2 = bit b 2 \<and> bit a 3 = bit b 3 \<and>
     bit a 4 = bit b 4 \<and> bit a 5 = bit b 5 \<and> bit a 6 = bit b 6 \<and> bit a 7 = bit b 7"
  show "a = b"
  proof (rule bit_word_eqI)
    fix n assume "n < LENGTH(8)"
    then have "n \<in> {0, 1, 2, 3, 4, 5, 6, 7}" by auto
    with bits show "bit a n = bit b n" by auto
  qed
qed simp

subsection \<open>Lists\<close>

lemma nth_list_update_other: "i \<noteq> j \<Longrightarrow> (xs[j := x]) ! i = xs ! i"
  by simp

lemma map_upt_Suc_0: "map f [0..<Suc n] = f 0 # map (\<lambda>i. f (Suc i)) [0..<n]"
  by (induction n) auto

lemma takeWhile_dropWhile_cases:
  "dropWhile P xs = [] \<and> takeWhile P xs = xs \<or>
   (\<exists>y ys. dropWhile P xs = y # ys \<and> \<not> P y \<and> xs = takeWhile P xs @ y # ys)"
proof (cases "dropWhile P xs")
  case Nil
  then show ?thesis by (metis append_Nil2 takeWhile_dropWhile_id)
next
  case (Cons y ys)
  then have "\<not> P y" using hd_dropWhile [of P xs] by simp
  moreover have "xs = takeWhile P xs @ y # ys"
    using takeWhile_dropWhile_id [of P xs] Cons by simp
  ultimately show ?thesis using Cons by blast
qed

end
