(* ===== verification/Ring.thy ===== *)
theory Ring
  imports Prelude
begin

text \<open>
  Circular buffers. The firmware keeps every byte queue (override commands, serial
  receive and transmit buffers) as an array of a power-of-two number of slots with a
  \<open>head\<close> index that the producer advances and a \<open>tail\<close> index that the consumer
  advances; one slot stays free so that \<open>head = tail\<close> means empty.

  The first part of the theory is the index arithmetic (\<open>ring_list\<close> reads the queued
  elements off an array and two indices). The second part is the interface the users of
  such a queue rely on, the locale \<open>bounded_fifo\<close>, with its client theorem: whatever
  the interleaving of producer and consumer, what is read is what was accepted, in order.
\<close>

section \<open>Index arithmetic\<close>

definition ring_count :: "nat \<Rightarrow> nat \<Rightarrow> nat \<Rightarrow> nat" where
  "ring_count n t h = (h + n - t) mod n"

definition ring_list :: "'a list \<Rightarrow> nat \<Rightarrow> nat \<Rightarrow> 'a list" where
  "ring_list buf t h =
     map (\<lambda>i. buf ! ((t + i) mod length buf)) [0..<ring_count (length buf) t h]"

lemma ring_count_eq [ring_simps]:
  assumes "t < n" and "h < n"
  shows "ring_count n t h = (if t \<le> h then h - t else n - t + h)"
proof (cases "t \<le> h")
  case True
  then have "h + n - t = (h - t) + n" by simp
  then have "(h + n - t) mod n = (h - t) mod n" by simp
  with True assms show ?thesis by (simp add: ring_count_def)
next
  case False
  then have "h + n - t = n - t + h" "n - t + h < n" using assms by auto
  with False show ?thesis by (simp add: ring_count_def)
qed

lemma ring_next_eq:
  assumes "i < (n::nat)"
  shows "Suc i mod n = (if Suc i = n then 0 else Suc i)"
  using assms by auto

lemma ring_count_less: "t < n \<Longrightarrow> h < n \<Longrightarrow> ring_count n t h < n"
  by (auto simp: ring_count_def)

lemma ring_count_0_iff: "t < n \<Longrightarrow> h < n \<Longrightarrow> ring_count n t h = 0 \<longleftrightarrow> t = h"
  by (auto simp: ring_count_eq)

text \<open>The buffer is full when advancing the head would reach the tail.\<close>

lemma ring_full_iff:
  assumes "t < n" and "h < n"
  shows "Suc h mod n = t \<longleftrightarrow> ring_count n t h = n - 1"
  using assms by (auto simp: ring_count_eq ring_next_eq)

lemma ring_count_put:
  assumes "t < n" and "h < n" and "Suc h mod n \<noteq> t"
  shows "ring_count n t (Suc h mod n) = Suc (ring_count n t h)"
  using assms by (auto simp: ring_count_eq ring_next_eq split: if_splits)

lemma ring_count_get:
  assumes "t < n" and "h < n" and "t \<noteq> h"
  shows "ring_count n t h = Suc (ring_count n (Suc t mod n) h)"
  using assms by (auto simp: ring_count_eq ring_next_eq split: if_splits)

lemma ring_index_head:
  assumes "t < n" and "h < n"
  shows "(t + ring_count n t h) mod n = h"
  using assms by (auto simp: ring_count_eq)

lemma ring_index_inj:
  assumes "t < n" and "h < n" and "i < ring_count n t h"
  shows "h \<noteq> (t + i) mod n"
proof (cases "t + i < n")
  case True
  with assms show ?thesis by (auto simp: ring_count_eq split: if_splits)
next
  case False
  with assms have "t + i - n < n" by (auto simp: ring_count_eq split: if_splits)
  with False have "(t + i) mod n = t + i - n" by (simp add: mod_if)
  with False assms show ?thesis by (auto simp: ring_count_eq split: if_splits)
qed

lemma length_ring_list [simp]: "length (ring_list buf t h) = ring_count (length buf) t h"
  by (simp add: ring_list_def)

lemma ring_list_empty_iff:
  "t < length buf \<Longrightarrow> h < length buf \<Longrightarrow> ring_list buf t h = [] \<longleftrightarrow> t = h"
  by (metis length_0_conv length_ring_list ring_count_0_iff)

lemma ring_list_same [simp]: "0 < length buf \<Longrightarrow> ring_list buf i i = []"
  by (simp add: ring_list_def ring_count_def)

text \<open>Writing at the head and advancing it appends one element.\<close>

lemma ring_list_put:
  assumes "t < length buf" and "h < length buf" and "Suc h mod length buf \<noteq> t"
  shows "ring_list (buf[h := x]) t (Suc h mod length buf) = ring_list buf t h @ [x]"
proof -
  let ?n = "length buf" and ?c = "ring_count (length buf) t h"
  have "map (\<lambda>i. (buf[h := x]) ! ((t + i) mod ?n)) [0..<?c] =
        map (\<lambda>i. buf ! ((t + i) mod ?n)) [0..<?c]"
    using ring_index_inj [OF assms(1,2)] by (intro map_cong) auto
  moreover have "(buf[h := x]) ! ((t + ?c) mod ?n) = x"
    using ring_index_head [OF assms(1,2)] assms(2) by simp
  ultimately show ?thesis
    by (simp add: ring_list_def ring_count_put [OF assms])
qed

text \<open>Reading at the tail and advancing it removes the first element.\<close>

lemma ring_list_get:
  assumes "t < length buf" and "h < length buf" and "t \<noteq> h"
  shows "ring_list buf t h = buf ! t # ring_list buf (Suc t mod length buf) h"
proof -
  have "(t + Suc i) mod length buf = (Suc t mod length buf + i) mod length buf" for i
    by (simp add: mod_add_left_eq)
  then show ?thesis
    using assms(1)
    by (simp add: ring_list_def ring_count_get [OF assms] map_upt_Suc_0 del: upt_Suc)
qed

section \<open>The interface of a bounded queue\<close>

datatype 'a fifo_op = Put 'a | Get

text \<open>Running producer and consumer operations in any order: the results of the reads
  and the final state.\<close>

fun fifo_run :: "('a \<Rightarrow> 's \<Rightarrow> 's) \<Rightarrow> ('s \<Rightarrow> 'b \<times> 's) \<Rightarrow> 'a fifo_op list \<Rightarrow> 's \<Rightarrow> 'b list \<times> 's" where
  "fifo_run put get [] s = ([], s)"
| "fifo_run put get (Put x # ops) s = fifo_run put get ops (put x s)"
| "fifo_run put get (Get # ops) s =
     (let (r, s') = get s; (rs, s'') = fifo_run put get ops s' in (r # rs, s''))"

text \<open>The abstract queue of capacity \<open>cap\<close>: a list, puts beyond the capacity dropped.\<close>

fun fifo_spec :: "nat \<Rightarrow> 'a fifo_op list \<Rightarrow> 'a list \<Rightarrow> 'a option list \<times> 'a list" where
  "fifo_spec cap [] xs = ([], xs)"
| "fifo_spec cap (Put x # ops) xs =
     fifo_spec cap ops (if length xs < cap then xs @ [x] else xs)"
| "fifo_spec cap (Get # ops) xs =
     (case xs of
        [] \<Rightarrow> (let (rs, ys) = fifo_spec cap ops [] in (None # rs, ys))
      | x # xs' \<Rightarrow> (let (rs, ys) = fifo_spec cap ops xs' in (Some x # rs, ys)))"

text \<open>The elements put, and those read, in order.\<close>

definition puts_of :: "'a fifo_op list \<Rightarrow> 'a list" where
  "puts_of ops = concat (map (\<lambda>op. case op of Put x \<Rightarrow> [x] | Get \<Rightarrow> []) ops)"

definition somes :: "'a option list \<Rightarrow> 'a list" where
  "somes rs = concat (map (\<lambda>r. case r of None \<Rightarrow> [] | Some x \<Rightarrow> [x]) rs)"

lemma puts_of_simps [simp]:
  "puts_of [] = []" "puts_of (Put x # ops) = x # puts_of ops" "puts_of (Get # ops) = puts_of ops"
  by (simp_all add: puts_of_def)

lemma somes_simps [simp]:
  "somes [] = []" "somes (None # rs) = somes rs" "somes (Some x # rs) = x # somes rs"
  by (simp_all add: somes_def)

text \<open>The abstract queue never reorders and never invents: with enough room nothing is lost.\<close>

lemma fifo_spec_order:
  "length xs + length (puts_of ops) \<le> cap \<Longrightarrow>
   somes (fst (fifo_spec cap ops xs)) @ snd (fifo_spec cap ops xs) = xs @ puts_of ops"
proof (induction cap ops xs rule: fifo_spec.induct)
  case (3 cap ops xs)
  then show ?case by (cases xs) (auto simp: Let_def split: prod.splits)
qed auto

lemma fifo_spec_capacity:
  "length xs \<le> cap \<Longrightarrow> length (snd (fifo_spec cap ops xs)) \<le> cap"
proof (induction cap ops xs rule: fifo_spec.induct)
  case (3 cap ops xs)
  then show ?case by (cases xs) (auto simp: Let_def split: prod.splits)
qed auto

text \<open>
  What a user of a queue relies on: \<open>content\<close> is the list of queued elements, \<open>put\<close>
  appends unless the capacity is reached, \<open>get\<close> takes the first element and returns it
  as \<open>ret (Some x)\<close>, or \<open>ret None\<close> when the queue is empty.
\<close>

locale bounded_fifo =
  fixes inv :: "'s \<Rightarrow> bool"
    and content :: "'s \<Rightarrow> 'a list"
    and cap :: nat
    and put :: "'a \<Rightarrow> 's \<Rightarrow> 's"
    and get :: "'s \<Rightarrow> 'b \<times> 's"
    and ret :: "'a option \<Rightarrow> 'b"
  assumes inv_put: "inv s \<Longrightarrow> inv (put x s)"
    and content_put:
      "inv s \<Longrightarrow> content (put x s) = (if length (content s) < cap then content s @ [x] else content s)"
    and inv_get: "inv s \<Longrightarrow> inv (snd (get s))"
    and get_empty: "inv s \<Longrightarrow> content s = [] \<Longrightarrow> fst (get s) = ret None \<and> content (snd (get s)) = []"
    and get_cons:
      "inv s \<Longrightarrow> content s = x # xs \<Longrightarrow> fst (get s) = ret (Some x) \<and> content (snd (get s)) = xs"
begin

text \<open>Every interleaving of puts and gets behaves like the abstract queue.\<close>

theorem run_refines:
  "inv s \<Longrightarrow>
   inv (snd (fifo_run put get ops s)) \<and>
   fst (fifo_run put get ops s) = map ret (fst (fifo_spec cap ops (content s))) \<and>
   content (snd (fifo_run put get ops s)) = snd (fifo_spec cap ops (content s))"
proof (induction ops arbitrary: s)
  case Nil
  then show ?case by simp
next
  case (Cons op ops)
  show ?case
  proof (cases op)
    case (Put x)
    with Cons.IH [OF inv_put [OF Cons.prems]] show ?thesis
      by (simp add: content_put [OF Cons.prems])
  next
    case Get
    note IH = Cons.IH [OF inv_get [OF Cons.prems]]
    show ?thesis
    proof (cases "content s")
      case Nil
      with get_empty [OF Cons.prems Nil] IH Get show ?thesis
        by (auto simp: Let_def split: prod.splits)
    next
      case (Cons y ys)
      with get_cons [OF Cons.prems Cons] IH Get show ?thesis
        by (auto simp: Let_def split: prod.splits)
    qed
  qed
qed

lemma run_capacity:
  assumes "inv s" and "length (content s) \<le> cap"
  shows "length (content (snd (fifo_run put get ops s))) \<le> cap"
  using run_refines [OF assms(1), of ops] fifo_spec_capacity [OF assms(2), of ops] by simp

end

end
