(* ===== verification/Override.thy ===== *)
theory Override
  imports Ring
begin

text \<open>
  The real-time override queues, \<^verbatim>\<open>grbl/override.c\<close>: three ring buffers (feed, spindle,
  coolant) filled from interrupt context and drained by the foreground. The state record
  mirrors the three static \<^verbatim>\<open>override_queue_t\<close> variables; each operation is the C
  function of the same name.
\<close>

section \<open>Data and operations\<close>

definition OVERRIDE_BUFSIZE :: u32 where
  "OVERRIDE_BUFSIZE = 16"

record override_queue =
  head :: u32
  tail :: u32
  buf :: "u8 list"

record override_queues =
  feed :: override_queue
  spindle :: override_queue
  coolant :: override_queue

text \<open>The body shared by the three enqueue functions and by the three get functions, on
  the queue each of them works on.\<close>

definition enqueue :: "u8 \<Rightarrow> override_queue \<Rightarrow> override_queue" where
  "enqueue cmd q =
     (let bptr = (head q + 1) AND (OVERRIDE_BUFSIZE - 1)
      in if bptr \<noteq> tail q
         then q\<lparr>buf := (buf q)[unat (head q) := cmd], head := bptr\<rparr>
         else q)"

definition dequeue :: "override_queue \<Rightarrow> u8 \<times> override_queue" where
  "dequeue q =
     (let bptr = tail q
      in if bptr \<noteq> head q
         then (buf q ! unat bptr, q\<lparr>tail := (bptr + 1) AND (OVERRIDE_BUFSIZE - 1)\<rparr>)
         else (0, q))"

definition enqueue_feed_override :: "u8 \<Rightarrow> override_queues \<Rightarrow> override_queues" where
  "enqueue_feed_override cmd s = s\<lparr>feed := enqueue cmd (feed s)\<rparr>"

definition get_feed_override :: "override_queues \<Rightarrow> u8 \<times> override_queues" where
  "get_feed_override s = (let (data, q) = dequeue (feed s) in (data, s\<lparr>feed := q\<rparr>))"

definition enqueue_spindle_override :: "u8 \<Rightarrow> override_queues \<Rightarrow> override_queues" where
  "enqueue_spindle_override cmd s = s\<lparr>spindle := enqueue cmd (spindle s)\<rparr>"

definition get_spindle_override :: "override_queues \<Rightarrow> u8 \<times> override_queues" where
  "get_spindle_override s = (let (data, q) = dequeue (spindle s) in (data, s\<lparr>spindle := q\<rparr>))"

definition enqueue_coolant_override :: "u8 \<Rightarrow> override_queues \<Rightarrow> override_queues" where
  "enqueue_coolant_override cmd s = s\<lparr>coolant := enqueue cmd (coolant s)\<rparr>"

definition get_coolant_override :: "override_queues \<Rightarrow> u8 \<times> override_queues" where
  "get_coolant_override s = (let (data, q) = dequeue (coolant s) in (data, s\<lparr>coolant := q\<rparr>))"

definition flush_override_buffers :: "override_queues \<Rightarrow> override_queues" where
  "flush_override_buffers s =
     s\<lparr>feed := (feed s)\<lparr>head := 0, tail := 0\<rparr>,
       spindle := (spindle s)\<lparr>head := 0, tail := 0\<rparr>,
       coolant := (coolant s)\<lparr>head := 0, tail := 0\<rparr>\<rparr>"

definition empty_queue :: override_queue where
  "empty_queue = \<lparr>head = 0, tail = 0, buf = replicate 16 0\<rparr>"

definition init_queues :: override_queues where
  "init_queues = \<lparr>feed = empty_queue, spindle = empty_queue, coolant = empty_queue\<rparr>"

section \<open>Invariant and content\<close>

definition queue_ok :: "override_queue \<Rightarrow> bool" where
  "queue_ok q \<longleftrightarrow> length (buf q) = 16 \<and> unat (head q) < 16 \<and> unat (tail q) < 16"

definition queue_content :: "override_queue \<Rightarrow> u8 list" where
  "queue_content q = ring_list (buf q) (unat (tail q)) (unat (head q))"

definition override_ret :: "u8 option \<Rightarrow> u8" where
  "override_ret r = (case r of None \<Rightarrow> 0 | Some c \<Rightarrow> c)"

lemma next_ptr [ring_simps]:
  "unat (i :: u32) < 16 \<Longrightarrow> unat ((i + 1) AND (OVERRIDE_BUFSIZE - 1)) = Suc (unat i) mod 16"
  using unat_next_mask [of i 4] by (simp add: OVERRIDE_BUFSIZE_def mask_eq_exp_minus_1)

lemma queue_ok_enqueue [inv_intros]: "queue_ok q \<Longrightarrow> queue_ok (enqueue c q)"
  by (auto simp: enqueue_def queue_ok_def Let_def next_ptr)

lemma queue_ok_dequeue [inv_intros]: "queue_ok q \<Longrightarrow> queue_ok (snd (dequeue q))"
  by (auto simp: dequeue_def queue_ok_def Let_def next_ptr)

lemma queue_content_enqueue:
  assumes "queue_ok q"
  shows "queue_content (enqueue c q) =
         (if length (queue_content q) < 15 then queue_content q @ [c] else queue_content q)"
proof -
  let ?h = "unat (head q)" and ?t = "unat (tail q)"
  from assms have b: "?h < length (buf q)" "?t < length (buf q)" "length (buf q) = 16"
    by (simp_all add: queue_ok_def)
  have next': "unat ((head q + 1) AND (OVERRIDE_BUFSIZE - 1)) = Suc ?h mod 16"
    using b by (simp add: next_ptr)
  have full: "(head q + 1) AND (OVERRIDE_BUFSIZE - 1) = tail q \<longleftrightarrow> Suc ?h mod 16 = ?t"
    by (metis next' unsigned_word_eqI)
  have lt: "length (queue_content q) < 15 \<longleftrightarrow> Suc ?h mod 16 \<noteq> ?t"
    using ring_full_iff [of ?t 16 ?h] ring_count_less [of ?t 16 ?h] b
    by (auto simp: queue_content_def)
  show ?thesis
    using ring_list_put [of ?t "buf q" ?h c] b lt full next'
    by (auto simp: queue_content_def enqueue_def Let_def)
qed

lemma queue_empty_iff: "queue_ok q \<Longrightarrow> queue_content q = [] \<longleftrightarrow> tail q = head q"
  by (simp add: queue_ok_def queue_content_def ring_list_empty_iff)

lemma dequeue_empty:
  assumes "queue_ok q" and "queue_content q = []"
  shows "dequeue q = (0, q)"
  using assms by (simp add: queue_empty_iff dequeue_def Let_def)

lemma dequeue_cons:
  assumes "queue_ok q" and "queue_content q = x # xs"
  shows "fst (dequeue q) = x" and "queue_content (snd (dequeue q)) = xs"
proof -
  let ?h = "unat (head q)" and ?t = "unat (tail q)"
  from assms(1) have b: "?t < length (buf q)" "?h < length (buf q)" "length (buf q) = 16"
    by (simp_all add: queue_ok_def)
  have ne: "?t \<noteq> ?h" using assms(2) b by (auto simp: queue_content_def)
  then have "tail q \<noteq> head q" by auto
  then have d: "dequeue q =
      (buf q ! ?t, q\<lparr>tail := (tail q + 1) AND (OVERRIDE_BUFSIZE - 1)\<rparr>)"
    by (simp add: dequeue_def Let_def)
  have "x # xs = buf q ! ?t # ring_list (buf q) (Suc ?t mod 16) ?h"
    using ring_list_get [OF b(1,2) ne] assms(2) b(3) by (simp add: queue_content_def)
  with b show "fst (dequeue q) = x" and "queue_content (snd (dequeue q)) = xs"
    by (simp_all add: d queue_content_def next_ptr)
qed

text \<open>Each override queue is a bounded queue of 15 commands.\<close>

interpretation ovr: bounded_fifo queue_ok queue_content 15 enqueue dequeue override_ret
proof (unfold_locales, goal_cases)
  case (1 s x)
  then show ?case by (rule queue_ok_enqueue)
next
  case (2 s x)
  then show ?case by (rule queue_content_enqueue)
next
  case (3 s)
  then show ?case by (rule queue_ok_dequeue)
next
  case (4 s)
  then show ?case by (simp add: dequeue_empty override_ret_def)
next
  case (5 s x xs)
  then show ?case by (simp add: dequeue_cons override_ret_def)
qed


section \<open>All three queues\<close>

text \<open>A run of the override system: the producers (interrupt context), the consumers
  (foreground) and a flush, in any order. A get outputs one byte.\<close>

datatype override_op =
    Enq_feed u8 | Get_feed
  | Enq_spindle u8 | Get_spindle
  | Enq_coolant u8 | Get_coolant
  | Flush

fun override_step :: "override_op \<Rightarrow> override_queues \<Rightarrow> u8 list \<times> override_queues" where
  "override_step (Enq_feed c) s = ([], enqueue_feed_override c s)"
| "override_step Get_feed s = (let (d, s') = get_feed_override s in ([d], s'))"
| "override_step (Enq_spindle c) s = ([], enqueue_spindle_override c s)"
| "override_step Get_spindle s = (let (d, s') = get_spindle_override s in ([d], s'))"
| "override_step (Enq_coolant c) s = ([], enqueue_coolant_override c s)"
| "override_step Get_coolant s = (let (d, s') = get_coolant_override s in ([d], s'))"
| "override_step Flush s = ([], flush_override_buffers s)"

fun override_run :: "override_op list \<Rightarrow> override_queues \<Rightarrow> u8 list \<times> override_queues" where
  "override_run [] s = ([], s)"
| "override_run (op # ops) s =
     (let (out, s') = override_step op s; (outs, s'') = override_run ops s' in (out @ outs, s''))"

text \<open>The abstract system: three independent lists of at most 15 commands.\<close>

definition push15 :: "u8 \<Rightarrow> u8 list \<Rightarrow> u8 list" where
  "push15 c xs = (if length xs < 15 then xs @ [c] else xs)"

definition pop0 :: "u8 list \<Rightarrow> u8" where
  "pop0 xs = (case xs of [] \<Rightarrow> 0 | x # _ \<Rightarrow> x)"

fun abs_step :: "override_op \<Rightarrow> u8 list \<times> u8 list \<times> u8 list \<Rightarrow>
    u8 list \<times> u8 list \<times> u8 list \<times> u8 list" where
  "abs_step (Enq_feed c) (f, s, k) = ([], push15 c f, s, k)"
| "abs_step Get_feed (f, s, k) = ([pop0 f], drop 1 f, s, k)"
| "abs_step (Enq_spindle c) (f, s, k) = ([], f, push15 c s, k)"
| "abs_step Get_spindle (f, s, k) = ([pop0 s], f, drop 1 s, k)"
| "abs_step (Enq_coolant c) (f, s, k) = ([], f, s, push15 c k)"
| "abs_step Get_coolant (f, s, k) = ([pop0 k], f, s, drop 1 k)"
| "abs_step Flush (f, s, k) = ([], [], [], [])"

fun abs_run :: "override_op list \<Rightarrow> u8 list \<times> u8 list \<times> u8 list \<Rightarrow>
    u8 list \<times> u8 list \<times> u8 list \<times> u8 list" where
  "abs_run [] qs = ([], qs)"
| "abs_run (op # ops) qs =
     (let (out, qs') = abs_step op qs; (outs, qs'') = abs_run ops qs' in (out @ outs, qs''))"

definition queues_ok :: "override_queues \<Rightarrow> bool" where
  "queues_ok s \<longleftrightarrow> queue_ok (feed s) \<and> queue_ok (spindle s) \<and> queue_ok (coolant s)"

definition queues_abs :: "override_queues \<Rightarrow> u8 list \<times> u8 list \<times> u8 list" where
  "queues_abs s = (queue_content (feed s), queue_content (spindle s), queue_content (coolant s))"

lemma pop0_append: "pop0 (xs @ ys) = (if xs = [] then pop0 ys else pop0 xs)"
  by (cases xs) (simp_all add: pop0_def)

lemma queue_content_push: "queue_ok q \<Longrightarrow> queue_content (enqueue c q) = push15 c (queue_content q)"
  by (simp add: ovr.content_put push15_def)

lemma dequeue_pop:
  assumes "queue_ok q"
  shows "fst (dequeue q) = pop0 (queue_content q) \<and>
         queue_content (snd (dequeue q)) = drop 1 (queue_content q)"
proof (cases "queue_content q")
  case Nil
  with dequeue_empty [OF assms] show ?thesis by (simp add: pop0_def)
next
  case (Cons x xs)
  with dequeue_cons [OF assms Cons] show ?thesis by (simp add: pop0_def)
qed

lemma queue_reset: "queue_ok q \<Longrightarrow> queue_ok (q\<lparr>head := 0, tail := 0\<rparr>) \<and>
    queue_content (q\<lparr>head := 0, tail := 0\<rparr>) = []"
  by (auto simp: queue_ok_def queue_content_def)

lemmas override_op_defs =
  enqueue_feed_override_def enqueue_spindle_override_def enqueue_coolant_override_def
  get_feed_override_def get_spindle_override_def get_coolant_override_def
  flush_override_buffers_def

lemma override_step_refines:
  assumes "queues_ok s"
  shows "queues_ok (snd (override_step op s)) \<and>
         abs_step op (queues_abs s) =
           (fst (override_step op s), queues_abs (snd (override_step op s)))"
  using assms
  by (cases op)
    (auto simp: queues_ok_def queues_abs_def override_op_defs queue_content_push
       dequeue_pop queue_ok_enqueue queue_ok_dequeue queue_reset split: prod.split
       dest: dequeue_pop queue_ok_dequeue)

text \<open>
  C13. For every sequence of enqueue, get and flush calls on the three override queues,
  in any order, the bytes returned by the gets and the queued commands afterwards are
  those of three independent first-in first-out lists that hold at most 15 commands: no
  command is lost below the capacity, reordered, duplicated or moved to another queue;
  an enqueue into a full queue drops the new command; a get from an empty queue returns
  0; a flush empties all three. The index invariant holds throughout.
\<close>

theorem override_run_refines:
  assumes "queues_ok s"
  shows "queues_ok (snd (override_run ops s)) \<and>
         abs_run ops (queues_abs s) =
           (fst (override_run ops s), queues_abs (snd (override_run ops s)))"
  using assms
proof (induction ops arbitrary: s)
  case Nil
  then show ?case by simp
next
  case (Cons op ops)
  obtain out s' where st: "override_step op s = (out, s')" by fastforce
  with override_step_refines [OF Cons.prems, of op]
  have ok: "queues_ok s'" and ab: "abs_step op (queues_abs s) = (out, queues_abs s')"
    by simp_all
  from Cons.IH [OF ok] show ?case by (simp add: st ab case_prod_unfold Let_def)
qed

theorem override_run_refines_witness:
  "queues_ok init_queues \<and>
   abs_run [Enq_feed 1, Enq_spindle 7, Enq_feed 2, Get_feed, Get_coolant] (queues_abs init_queues) =
     ([1, 0], [2], [7], [])"
proof -
  have ok: "queues_ok init_queues"
    by (simp add: queues_ok_def init_queues_def empty_queue_def queue_ok_def)
  show ?thesis
    using ok override_run_refines
      [OF ok, of "[Enq_feed 1, Enq_spindle 7, Enq_feed 2, Get_feed, Get_coolant]"]
    by (simp add: queues_abs_def init_queues_def empty_queue_def queue_content_def
        push15_def pop0_def)
qed

section \<open>A get interrupted by enqueues\<close>

text \<open>
  \<^verbatim>\<open>get_feed_override\<close> runs in the foreground and can be preempted by the interrupt
  that enqueues, between any two of its memory accesses: after reading the tail
  (\<open>xs0\<close>), after comparing with the head (\<open>xs1\<close>) and after reading the slot, before
  the tail is written back (\<open>xs2\<close>). The interrupt handler itself is not preempted by
  the foreground.
\<close>

definition dequeue_preempted ::
    "u8 list \<Rightarrow> u8 list \<Rightarrow> u8 list \<Rightarrow> override_queue \<Rightarrow> u8 \<times> override_queue" where
  "dequeue_preempted xs0 xs1 xs2 q =
     (let bptr = tail q;
          q0 = fold enqueue xs0 q
      in if bptr \<noteq> head q0
         then (let q1 = fold enqueue xs1 q0;
                   data = buf q1 ! unat bptr;
                   q2 = fold enqueue xs2 q1
               in (data, q2\<lparr>tail := (bptr + 1) AND (OVERRIDE_BUFSIZE - 1)\<rparr>))
         else (0, fold enqueue (xs1 @ xs2) q0))"

definition get_feed_override_preempted ::
    "u8 list \<Rightarrow> u8 list \<Rightarrow> u8 list \<Rightarrow> override_queues \<Rightarrow> u8 \<times> override_queues" where
  "get_feed_override_preempted xs0 xs1 xs2 s =
     (let (data, q) = dequeue_preempted xs0 xs1 xs2 (feed s) in (data, s\<lparr>feed := q\<rparr>))"

lemma tail_enqueue [simp]: "tail (enqueue c q) = tail q"
  by (simp add: enqueue_def Let_def)

lemma tail_fold_enqueue [simp]: "tail (fold enqueue xs q) = tail q"
  by (induction xs arbitrary: q) simp_all

lemma queue_ok_fold_enqueue: "queue_ok q \<Longrightarrow> queue_ok (fold enqueue xs q)"
  by (induction xs arbitrary: q) (simp_all add: queue_ok_enqueue)

lemma queue_content_fold_enqueue:
  "queue_ok q \<Longrightarrow> \<exists>ys. queue_content (fold enqueue xs q) = queue_content q @ ys"
proof (induction xs arbitrary: q)
  case (Cons x xs)
  from Cons.IH [OF queue_ok_enqueue [OF Cons.prems, of x]]
  show ?case by (auto simp: queue_content_push [OF Cons.prems] push15_def)
qed simp

lemma dequeue_nonempty:
  assumes "queue_ok q" and "queue_content q \<noteq> []"
  shows "tail q \<noteq> head q" and "buf q ! unat (tail q) = pop0 (queue_content q)"
proof -
  show ne: "tail q \<noteq> head q"
    using assms by (simp add: queue_empty_iff)
  show "buf q ! unat (tail q) = pop0 (queue_content q)"
    using dequeue_pop [OF assms(1)] ne by (simp add: dequeue_def Let_def)
qed

lemma dequeue_preempted_eq:
  assumes ok: "queue_ok q" and ne: "queue_content (fold enqueue xs0 q) \<noteq> []"
  shows "dequeue_preempted xs0 xs1 xs2 q = dequeue (fold enqueue (xs0 @ xs1 @ xs2) q)"
proof -
  let ?q0 = "fold enqueue xs0 q" let ?q1 = "fold enqueue xs1 ?q0" let ?q2 = "fold enqueue xs2 ?q1"
  have ok0: "queue_ok ?q0" by (rule queue_ok_fold_enqueue [OF ok])
  then have ok1: "queue_ok ?q1" by (rule queue_ok_fold_enqueue)
  then have ok2: "queue_ok ?q2" by (rule queue_ok_fold_enqueue)
  obtain ys where y: "queue_content ?q1 = queue_content ?q0 @ ys"
    using queue_content_fold_enqueue [OF ok0] by blast
  obtain zs where z: "queue_content ?q2 = queue_content ?q1 @ zs"
    using queue_content_fold_enqueue [OF ok1] by blast
  have pop: "pop0 (queue_content ?q2) = pop0 (queue_content ?q1)"
    using ne y z by (simp add: pop0_append)
  have "queue_content ?q1 \<noteq> []" "queue_content ?q2 \<noteq> []" using ne y z by auto
  then show ?thesis
    using dequeue_nonempty [OF ok0 ne] dequeue_nonempty [OF ok1] dequeue_nonempty [OF ok2] pop
    by (simp add: dequeue_preempted_def dequeue_def Let_def)
qed

text \<open>
  C27. A get preempted by the enqueueing interrupt at any of its steps is linearizable:
  if a command was queued when the get compared head and tail, it behaves exactly like a
  get that runs after all the enqueues that interrupted it, so every interrupting command
  is accepted or dropped as usual and none overwrites the command being returned; if the
  queue was empty at the comparison, it returns 0 and the enqueues take effect.
\<close>

theorem get_feed_override_linearizable:
  assumes "queue_ok (feed s)"
  shows "get_feed_override_preempted xs0 xs1 xs2 s =
    (if queue_content (fold enqueue xs0 (feed s)) \<noteq> []
     then get_feed_override (fold enqueue_feed_override (xs0 @ xs1 @ xs2) s)
     else (0, fold enqueue_feed_override (xs0 @ xs1 @ xs2) s))"
proof -
  have f: "fold enqueue_feed_override xs s = s\<lparr>feed := fold enqueue xs (feed s)\<rparr>" for xs s
    by (induction xs arbitrary: s) (simp_all add: enqueue_feed_override_def)
  have ok: "queue_ok (fold enqueue xs0 (feed s))"
    by (rule queue_ok_fold_enqueue [OF assms])
  show ?thesis
  proof (cases "queue_content (fold enqueue xs0 (feed s)) = []")
    case True
    with ok have "tail (feed s) = head (fold enqueue xs0 (feed s))"
      by (simp add: queue_empty_iff)
    with True show ?thesis
      by (simp add: f get_feed_override_preempted_def dequeue_preempted_def Let_def)
  next
    case False
    with dequeue_preempted_eq [OF assms False] show ?thesis
      by (simp add: f get_feed_override_preempted_def get_feed_override_def split: prod.splits)
  qed
qed

theorem get_feed_override_linearizable_witness:
  "fst (get_feed_override_preempted [5] [6] [7] init_queues) = 5"
proof -
  have ok: "queue_ok (feed init_queues)"
    by (simp add: init_queues_def empty_queue_def queue_ok_def)
  have c: "queue_content (fold enqueue [5] (feed init_queues)) = [5]"
    using queue_content_push [OF ok, of 5]
    by (simp add: init_queues_def empty_queue_def queue_content_def push15_def)
  show ?thesis
    using get_feed_override_linearizable [OF ok, of "[5]" "[6]" "[7]"] c
    by (simp add: get_feed_override_def enqueue_feed_override_def init_queues_def
        empty_queue_def enqueue_def dequeue_def Let_def OVERRIDE_BUFSIZE_def)
qed

end
