(* ===== verification/Crc.thy ===== *)
theory Crc
  imports Prelude
begin

text \<open>
  The checksums of \<^verbatim>\<open>grbl/crc.c\<close>: the rotating 8-bit sum that guards settings in
  non-volatile storage, the CRC-16 of the Modbus link and the table-free CCITT CRC-16.
  A C buffer and its length are a list of bytes. Each loop over the buffer is a fold of
  the loop body; the bit loop of the Modbus CRC is its eight iterations.

  The lemmas compare the two CRC routines with reference definitions that divide bit by
  bit (the CCITT routine is an optimised closed form of eight such steps), and show what
  the checks detect.
\<close>

section \<open>Operations\<close>

definition grbl_crc8_step :: "u8 \<Rightarrow> u8 \<Rightarrow> u8" where
  "grbl_crc8_step b checksum = (push_bit 1 checksum OR drop_bit 7 checksum) + b"

definition grbl_crc8 :: "u8 list \<Rightarrow> u16" where
  "grbl_crc8 buf = ucast (fold grbl_crc8_step buf 0)"

definition modbus_bit_step :: "u16 \<Rightarrow> u16" where
  "modbus_bit_step crc =
     (if crc AND 1 \<noteq> 0 then drop_bit 1 crc XOR 0xA001 else drop_bit 1 crc)"

definition modbus_byte_step :: "u8 \<Rightarrow> u16 \<Rightarrow> u16" where
  "modbus_byte_step b crc = (modbus_bit_step ^^ 8) (crc XOR ucast b)"

definition modbus_crc16x :: "u8 list \<Rightarrow> u16" where
  "modbus_crc16x buf = fold modbus_byte_step buf 0xFFFF"

text \<open>The shifts of the C code are on \<^verbatim>\<open>int\<close> (32 bits) and truncated to 16 bits by the
  assignment, which is what the 16-bit shifts compute.\<close>

definition ccitt_step :: "u8 \<Rightarrow> u16 \<Rightarrow> u16" where
  "ccitt_step b crc =
     (let x0 = drop_bit 8 crc XOR ucast b;
          x = x0 XOR drop_bit 4 x0
      in push_bit 8 crc XOR push_bit 12 x XOR push_bit 5 x XOR x)"

definition ccitt_crc16 :: "u8 list \<Rightarrow> u16" where
  "ccitt_crc16 buf = fold ccitt_step buf 0"

section \<open>The CCITT routine is the polynomial division\<close>

text \<open>Reference: shift the register left by one bit and subtract the polynomial
  \<open>x ^ 16 + x ^ 12 + x ^ 5 + 1\<close> (\<open>0x1021\<close>) when a one falls out, eight times per byte.\<close>

definition ccitt_ref_bit :: "u16 \<Rightarrow> u16" where
  "ccitt_ref_bit r = (if bit r 15 then push_bit 1 r XOR 0x1021 else push_bit 1 r)"

definition ccitt_ref_step :: "u8 \<Rightarrow> u16 \<Rightarrow> u16" where
  "ccitt_ref_step b r = (ccitt_ref_bit ^^ 8) (r XOR push_bit 8 (ucast b))"

definition ccitt_ref :: "u8 list \<Rightarrow> u16" where
  "ccitt_ref buf = fold ccitt_ref_step buf 0"

text \<open>The contribution of the high byte, as the routine computes it.\<close>

definition ccitt_high :: "u16 \<Rightarrow> u16" where
  "ccitt_high x0 = (let x = x0 XOR drop_bit 4 x0 in push_bit 12 x XOR push_bit 5 x XOR x)"

section \<open>Lemmas\<close>

lemma ccitt_ref_bit_xor: "ccitt_ref_bit (a XOR b) = ccitt_ref_bit a XOR ccitt_ref_bit b"
  by (auto simp: ccitt_ref_bit_def push_bit_xor bit_xor_iff ac_simps)



lemma ccitt_ref_bit_pow_xor: "(ccitt_ref_bit ^^ k) (a XOR b) = (ccitt_ref_bit ^^ k) a XOR (ccitt_ref_bit ^^ k) b"
  by (induction k) (simp_all add: ccitt_ref_bit_xor)

lemma ccitt_ref_low: "k \<le> 8 \<Longrightarrow> drop_bit 8 r = 0 \<Longrightarrow> (ccitt_ref_bit ^^ k) r = push_bit k r"
proof (induction k)
  case (Suc k)
  have "\<not> bit r (15 - k)" using Suc.prems by (intro drop_bit_0_not_bit) auto
  then have "\<not> bit (push_bit k r) 15" using Suc.prems by (simp add: bit_push_bit_iff)
  with Suc show ?case by (simp add: ccitt_ref_bit_def)
qed simp

lemma take_bit_Suc_xor:
  "take_bit (Suc n) (x :: u16) = take_bit n x XOR (if bit x n then 2 ^ n else 0)"
  by (rule bit_eqI) (auto simp: bit_take_bit_iff bit_xor_iff bit_exp_iff less_Suc_eq)

lemma xor_linear_eq:
  fixes F G :: "u16 \<Rightarrow> u16"
  assumes F: "\<And>a b. F (a XOR b) = F a XOR F b" and G: "\<And>a b. G (a XOR b) = G a XOR G b"
    and basis: "\<And>i. i < m \<Longrightarrow> F (2 ^ i) = G (2 ^ i)" and x: "drop_bit m x = 0"
  shows "F x = G x"
proof -
  have z: "F 0 = 0" "G 0 = 0" using F [of 0 0] G [of 0 0] by simp_all
  have "n \<le> m \<Longrightarrow> F (take_bit n x) = G (take_bit n x)" for n
    by (induction n) (simp_all add: z take_bit_Suc_xor F G basis)
  moreover have "take_bit m x = x"
    using x bits_ident [of m x] by simp
  ultimately show ?thesis by (metis order_refl)
qed

lemma ccitt_high_xor: "ccitt_high (a XOR b) = ccitt_high a XOR ccitt_high b"
  by (simp add: ccitt_high_def Let_def drop_bit_xor push_bit_xor ac_simps)

lemma lt8: "i < 8 \<longleftrightarrow> i \<in> {0::nat, 1, 2, 3, 4, 5, 6, 7}"
  by auto

lemma ccitt_ref_bit_carry: "bit r 15 \<Longrightarrow> ccitt_ref_bit r = push_bit 1 r XOR 0x1021"
  and ccitt_ref_bit_nocarry: "\<not> bit r 15 \<Longrightarrow> ccitt_ref_bit r = push_bit 1 r"
  by (simp_all add: ccitt_ref_bit_def)

lemma ccitt_basis: "i < 8 \<Longrightarrow> (ccitt_ref_bit ^^ 8) (push_bit 8 (2 ^ i)) = ccitt_high (2 ^ i)"
  unfolding lt8 funpow_8
  by (elim insertE emptyE; simp add: ccitt_ref_bit_carry ccitt_ref_bit_nocarry ccitt_high_def Let_def)

lemma ccitt_high_eq: "drop_bit 8 x = 0 \<Longrightarrow> (ccitt_ref_bit ^^ 8) (push_bit 8 x) = ccitt_high x"
  by (rule xor_linear_eq [where m = 8 and F = "\<lambda>x. (ccitt_ref_bit ^^ 8) (push_bit 8 x)"])
    (simp_all add: push_bit_xor ccitt_ref_bit_pow_xor ccitt_high_xor ccitt_basis)

subsection \<open>The bit loop of the Modbus CRC\<close>

lemma bit_modbus_bit_step:
  "bit (modbus_bit_step r) n \<longleftrightarrow> bit r (Suc n) \<noteq> (bit r 0 \<and> bit (0xA001 :: u16) n)"
  by (auto simp: modbus_bit_step_def and_one_eq odd_iff_mod_2_eq_one bit_0 bit_xor_iff bit_drop_bit_eq)


lemma modbus_bit_step_inj: "inj modbus_bit_step"
proof (rule injI, rule bit_eqI)
  fix r r' :: u16 and n
  assume eq: "modbus_bit_step r = modbus_bit_step r'"
  have b: "bit (modbus_bit_step r) n = bit (modbus_bit_step r') n" for n using eq by simp
  have "\<not> bit r 16" "\<not> bit r' 16"
    using bit_imp_le_length [of r 16] bit_imp_le_length [of r' 16] by auto
  with b [of 15] have b0: "bit r 0 = bit r' 0" by (auto simp: bit_modbus_bit_step)
  show "bit r n = bit r' n"
  proof (cases n)
    case 0
    with b0 show ?thesis by simp
  next
    case (Suc m)
    with b [of m] b0 show ?thesis by (auto simp: bit_modbus_bit_step)
  qed
qed

text \<open>Undoing bit steps: a register whose high byte is zero came from a shift.\<close>

lemma modbus_bit_step_back:
  assumes "\<not> bit (modbus_bit_step r) 15"
  shows "r = push_bit 1 (modbus_bit_step r)"
proof (rule bit_word_eqI)
  fix n
  assume n: "n < LENGTH(16)"
  have "\<not> bit r 16" using bit_imp_le_length [of r 16] by auto
  with assms have "\<not> bit r 0" by (auto simp: bit_modbus_bit_step)
  then show "bit r n = bit (push_bit 1 (modbus_bit_step r)) n"
    unfolding bit_push_bit_iff
    by (cases n) (use n in \<open>auto simp: bit_modbus_bit_step\<close>)
qed

lemma modbus_bit_steps_back:
  "k \<le> 8 \<Longrightarrow> drop_bit 8 ((modbus_bit_step ^^ k) r) = 0 \<Longrightarrow> r = push_bit k ((modbus_bit_step ^^ k) r)"
proof (induction k arbitrary: r)
  case (Suc k)
  let ?e = "(modbus_bit_step ^^ k) (modbus_bit_step r)"
  from Suc.prems have low: "drop_bit 8 ?e = 0" by (simp add: funpow_swap1)
  with Suc.IH [of "modbus_bit_step r"] Suc.prems
  have bk: "modbus_bit_step r = push_bit k ?e" by simp
  have "\<not> bit ?e (15 - k)" using low Suc.prems by (intro drop_bit_0_not_bit) auto
  then have "\<not> bit (push_bit k ?e) 15" using Suc.prems by (simp add: bit_push_bit_iff)
  with bk have "r = push_bit 1 (push_bit k ?e)" using modbus_bit_step_back [of r] by simp
  also have "\<dots> = push_bit (Suc k) ?e" by (simp only: push_bit_push_bit plus_1_eq_Suc)
  finally show ?case by (simp only: funpow.simps comp_apply funpow_swap1)
qed simp

lemma modbus_bit_step_xor: "modbus_bit_step (a XOR b) = modbus_bit_step a XOR modbus_bit_step b"
  by (rule bit_eqI) (auto simp: bit_modbus_bit_step bit_xor_iff)

lemma modbus_bit_steps_xor:
  "(modbus_bit_step ^^ k) (a XOR b) = (modbus_bit_step ^^ k) a XOR (modbus_bit_step ^^ k) b"
  by (induction k) (simp_all add: modbus_bit_step_xor)

lemma modbus_bit_steps_eq_iff [simp]:
  "(modbus_bit_step ^^ k) a = (modbus_bit_step ^^ k) b \<longleftrightarrow> a = b"
  by (induction k) (simp_all add: inj_eq [OF modbus_bit_step_inj])

lemma fold_modbus_eq_iff [simp]:
  "fold modbus_byte_step ys c = fold modbus_byte_step ys d \<longleftrightarrow> c = d"
  by (induction ys arbitrary: c d) (simp_all add: modbus_byte_step_def)

lemma low_byte_push_zero:
  assumes "drop_bit 8 e = 0" and "drop_bit 8 (push_bit 8 e) = 0"
  shows "e = (0 :: u16)"
proof (rule bit_word_eqI)
  fix n assume "n < LENGTH(16)"
  show "bit e n = bit (0 :: u16) n"
  proof (cases "n < 8")
    case True
    with drop_bit_0_not_bit [OF assms(2), of "n + 8"] show ?thesis by (simp add: bit_push_bit_iff)
  next
    case False
    with drop_bit_0_not_bit [OF assms(1), of n] show ?thesis by simp
  qed
qed

lemma modbus_bit_steps_0 [simp]: "(modbus_bit_step ^^ k) 0 = 0"
  by (induction k) (simp_all add: modbus_bit_step_def)

lemma modbus_bit_steps_shift:
  "k \<le> 8 \<Longrightarrow> drop_bit 8 h = 0 \<Longrightarrow> (modbus_bit_step ^^ k) (push_bit 8 h) = push_bit (8 - k) h"
proof (induction k)
  case (Suc k)
  define m where "m = 7 - k"
  have m: "8 - k = Suc m" "8 - Suc k = m" "m \<le> 7" using Suc.prems by (auto simp: m_def)
  have "\<not> bit h (15 - m)" using m Suc.prems(2) by (intro drop_bit_0_not_bit) auto
  then have "n < 15" if "n < 16" "bit h (n - m)" for n
    using that by (cases "n = 15") auto
  then have "modbus_bit_step (push_bit (Suc m) h) = push_bit m h"
    unfolding bit_eq_iff bit_modbus_bit_step bit_push_bit_iff
    by (auto simp: Suc_diff_le less_Suc_eq)
  with Suc m show ?case by simp
qed simp

lemma split_bytes: "c XOR ucast (ucast c :: u8) = push_bit 8 (ucast (ucast (drop_bit 8 c) :: u8) :: u16)"
  by (rule bit_word_eqI)
    (auto simp: bit_xor_iff bit_ucast_iff bit_push_bit_iff bit_drop_bit_eq)

text \<open>
  C31. The Modbus CRC of any message followed by its own CRC bytes, low byte first as
  \<^verbatim>\<open>modbus_send_rtu\<close> stores them, is zero; and any corruption confined to two adjacent
  bytes of a frame, CRC bytes included, changes the CRC.
\<close>

theorem modbus_crc16x_detects:
  "modbus_crc16x (m @ [ucast (modbus_crc16x m), ucast (drop_bit 8 (modbus_crc16x m))]) = 0 \<and>
   ((a, b) \<noteq> (a', b') \<longrightarrow>
     modbus_crc16x (xs @ [a, b] @ ys) \<noteq> modbus_crc16x (xs @ [a', b'] @ ys))"
proof (intro conjI impI notI)
  show "modbus_crc16x (m @ [ucast (modbus_crc16x m), ucast (drop_bit 8 (modbus_crc16x m))]) = 0"
    using modbus_bit_steps_shift [of 8]
    by (simp add: modbus_crc16x_def modbus_byte_step_def split_bytes)
next
  let ?L = "modbus_bit_step ^^ 8" let ?c = "fold modbus_byte_step xs 0xFFFF"
  let ?d = "ucast a XOR ucast a' :: u16" let ?e = "ucast b XOR ucast b' :: u16"
  assume ne: "(a, b) \<noteq> (a', b')"
  assume "modbus_crc16x (xs @ [a, b] @ ys) = modbus_crc16x (xs @ [a', b'] @ ys)"
  then have "?L (?c XOR ucast a) XOR ucast b = ?L (?c XOR ucast a') XOR ucast b'"
    by (simp add: modbus_crc16x_def modbus_byte_step_def)
  then have "?L (?c XOR ucast a) XOR ?L (?c XOR ucast a') = ?e" by (rule xor_transpose)
  moreover have "(?c XOR ucast a) XOR (?c XOR ucast a') = ?d"
    by (rule bit_eqI) (auto simp: bit_xor_iff)
  ultimately have e: "?L ?d = ?e" by (metis modbus_bit_steps_xor)
  then have "?d = push_bit 8 ?e"
    using modbus_bit_steps_back [of 8 ?d] by (simp add: drop_bit_xor)
  moreover have "drop_bit 8 ?d = 0" "drop_bit 8 ?e = 0" by (simp_all add: drop_bit_xor)
  ultimately have "?e = 0" "?d = 0" using low_byte_push_zero [of ?e] by simp_all
  with ne show False by simp
qed

theorem modbus_crc16x_detects_witness:
  "modbus_crc16x ([1] @ [2, 3] @ []) \<noteq> modbus_crc16x ([1] @ [2, 4] @ [])"
  using modbus_crc16x_detects [of "[]" 2 3 2 4 "[1]" "[]"] by simp

lemma ccitt_step_eq: "ccitt_step b crc = ccitt_ref_step b crc"
proof -
  let ?x = "drop_bit 8 crc XOR ucast b" let ?l = "take_bit 8 crc"
  have sp: "crc XOR push_bit 8 (ucast b) = push_bit 8 ?x XOR ?l"
    by (rule bit_word_eqI)
      (auto simp: bit_xor_iff bit_push_bit_iff bit_drop_bit_eq bit_take_bit_iff bit_ucast_iff)
  have x: "drop_bit 8 ?x = 0"
    by (rule bit_word_eqI) (auto simp: bit_drop_bit_eq bit_xor_iff bit_ucast_iff dest: bit_imp_le_length)
  have l: "drop_bit 8 ?l = 0" by (rule bit_word_eqI) (auto simp: bit_drop_bit_eq bit_take_bit_iff)
  have "push_bit 8 ?l = push_bit 8 crc"
    by (rule bit_word_eqI) (auto simp: bit_push_bit_iff bit_take_bit_iff)
  then have "ccitt_ref_step b crc = ccitt_high ?x XOR push_bit 8 crc"
    unfolding ccitt_ref_step_def sp ccitt_ref_bit_pow_xor ccitt_high_eq [OF x]
    by (simp only: ccitt_ref_low [OF order_refl l])
  then show ?thesis
    by (simp add: ccitt_step_def ccitt_high_def Let_def xor.commute xor.left_commute)
qed

text \<open>
  C32. The table-free CCITT routine computes, for every buffer, the remainder that the
  bit-by-bit division by \<open>x ^ 16 + x ^ 12 + x ^ 5 + 1\<close> computes.
\<close>

theorem ccitt_crc16_eq_ref: "ccitt_crc16 buf = ccitt_ref buf"
proof -
  have "ccitt_step = ccitt_ref_step" by (intro ext) (rule ccitt_step_eq)
  then show ?thesis by (simp add: ccitt_crc16_def ccitt_ref_def)
qed

lemma rotl1_inj: "push_bit 1 a OR drop_bit 7 a = push_bit 1 b OR drop_bit 7 (b :: u8) \<Longrightarrow> a = b"
proof (rule bit_word_eqI)
  fix n
  assume h: "push_bit 1 a OR drop_bit 7 a = push_bit 1 b OR drop_bit 7 b" and n: "n < LENGTH(8)"
  have "bit (push_bit 1 a OR drop_bit 7 a) (Suc n mod 8) = bit (push_bit 1 b OR drop_bit 7 b) (Suc n mod 8)"
    using h by simp
  then show "bit a n = bit b n"
    unfolding bit_or_iff bit_push_bit_iff
    using n bit_imp_le_length [of a 8] bit_imp_le_length [of b 8]
    by (cases "n = 7") (auto simp: bit_drop_bit_eq dest: bit_imp_le_length)
qed

lemma fold_crc8_eq_iff [simp]:
  "fold grbl_crc8_step ys c = fold grbl_crc8_step ys d \<longleftrightarrow> c = d"
proof (induction ys arbitrary: c d)
  case (Cons y ys)
  have "grbl_crc8_step y c = grbl_crc8_step y d \<longleftrightarrow> c = d"
    by (metis grbl_crc8_step_def add_right_cancel rotl1_inj)
  with Cons show ?case by simp
qed simp

text \<open>
  C33. Changing any single byte of a settings record always changes its 8-bit checksum.
\<close>

theorem grbl_crc8_detects_byte:
  assumes "a \<noteq> b"
  shows "grbl_crc8 (xs @ a # ys) \<noteq> grbl_crc8 (xs @ b # ys)"
  using assms by (simp add: grbl_crc8_def) (simp add: grbl_crc8_step_def)

theorem grbl_crc8_detects_byte_witness: "grbl_crc8 ([1, 2] @ 3 # [4]) \<noteq> grbl_crc8 ([1, 2] @ 5 # [4])"
  by (rule grbl_crc8_detects_byte) simp


end
