(* ===== verification/Utf8.thy ===== *)
theory Utf8
  imports Prelude
begin

text \<open>
  The UTF-8 encoder of \<^verbatim>\<open>grbl/utf8.c\<close>. The output buffer is a list of bytes that the
  function updates by index; the result is the returned length and the updated buffer.
  The sizing loop is a recursive function whose first argument is the shrinking
  remainder of the code point.

  The lemmas relate the bytes written to a decoder that follows the definition of UTF-8
  (RFC 3629), and record what the encoder does with code points below 128.
\<close>

section \<open>Operations\<close>

text \<open>The \<^verbatim>\<open>do ... while(first_byte > mask)\<close> loop, entered with a code point above 127.\<close>

function utf8_size_loop :: "u16 \<Rightarrow> u32 \<Rightarrow> u32 \<Rightarrow> u16 \<times> u32 \<times> u32" where
  "utf8_size_loop len first_byte msk =
     (let len = len + 1;
          first_byte = drop_bit 6 first_byte;
          msk = drop_bit 1 msk
      in if first_byte > msk then utf8_size_loop len first_byte msk
         else (len, first_byte, msk))"
  by pat_completeness auto
termination
proof (relation "measure (\<lambda>(l, f, m). unat f)", goal_cases)
  case (2 len first_byte msk x xa xb)
  then have "drop_bit 6 first_byte \<noteq> 0" by auto
  then have "unat (drop_bit 6 first_byte) \<noteq> 0" by (simp only: unat_eq_zero not_False_eq_True)
  then have "unat first_byte div 64 \<noteq> 0" by (simp add: unat_drop_bit del: drop_bit_eq_div)
  then have "unat first_byte div 64 < unat first_byte" by simp
  with 2 show ?case by (simp add: unat_drop_bit)
qed simp

text \<open>The loop that stores the continuation bytes from the last one down to index 1.\<close>

fun utf8_tail_loop :: "nat \<Rightarrow> u32 \<Rightarrow> u8 list \<Rightarrow> u8 list" where
  "utf8_tail_loop 0 code_point buffer = buffer"
| "utf8_tail_loop (Suc idx) code_point buffer =
     utf8_tail_loop idx (drop_bit 6 code_point)
       (buffer[Suc idx := ucast ((code_point AND 0x3F) OR 0x80)])"

definition utf32_to_utf8 :: "u8 list \<Rightarrow> u32 \<Rightarrow> u16 \<times> u8 list" where
  "utf32_to_utf8 buffer code_point =
     (if code_point > 0x10FFFF then (0, buffer)
      else
        let (len, first_byte, msk) =
              (if code_point \<le> 0x7F then (1, code_point, 0x3F)
               else utf8_size_loop 1 code_point 0x3F)
        in if len \<le> 4
           then (len,
                 utf8_tail_loop (unat len - 1) code_point
                   (buffer[0 := ucast (first_byte + push_bit 1 (NOT msk))]))
           else (len, buffer))"

section \<open>Reference decoder\<close>









section \<open>Lemmas\<close>

declare utf8_size_loop.simps [simp del]


























text \<open>
  A code point above 0x10FFFF is refused: length 0, the buffer untouched. A code point
  below 0x80 is written as one byte, but with bit 7 set: the byte is the code point plus
  0x80, which is not its UTF-8 form and is not the start of any UTF-8 sequence of one byte.
\<close>

theorem utf8_ascii_and_refused:
  "(0x10FFFF < cp \<longrightarrow> utf32_to_utf8 buf cp = (0, buf)) \<and>
   (cp \<le> 0x7F \<longrightarrow>
     utf32_to_utf8 buf cp = (1, buf[0 := ucast cp + 0x80]) \<and> \<not> ucast cp + 0x80 < (0x80 :: u8))"
proof (intro conjI impI)
  assume "0x10FFFF < cp"
  then show "utf32_to_utf8 buf cp = (0, buf)" by (simp add: utf32_to_utf8_def)
next
  assume cp: "cp \<le> 0x7F"
  then have nt: "\<not> 0x10FFFF < cp" by (simp add: word_le_nat_alt word_less_nat_alt)
  have "(unat cp + 0xFFFFFF80) mod 256 = unat cp + 0x80"
    using cp mod_add_right_eq [of "unat cp" "0xFFFFFF80" 256] by (simp add: word_le_nat_alt)
  with cp have "ucast (cp + 0xFFFFFF80) = (ucast cp + 0x80 :: u8)"
    by (simp add: word_le_nat_alt word_unat_eq_iff unat_word_ariths unsigned_ucast_eq
        take_bit_eq_mod del: unat_eq_iff)
  moreover have "cp + 0xFFFFFF80 = cp - 0x80" by simp
  ultimately show "utf32_to_utf8 buf cp = (1, buf[0 := ucast cp + 0x80])"
    using cp nt by (simp add: utf32_to_utf8_def)
  show "\<not> ucast cp + 0x80 < (0x80 :: u8)"
    using cp by (simp add: word_le_nat_alt word_less_nat_alt unat_word_ariths unsigned_ucast_eq
        take_bit_eq_mod)
qed


theorem utf8_ascii_and_refused_witness:
  "utf32_to_utf8 [0] 0x41 = (1, [0xC1]) \<and> utf32_to_utf8 [7] 0x110000 = (0, [7])"
  using utf8_ascii_and_refused [of "0x41" "[0]"] utf8_ascii_and_refused [of "0x110000" "[7]"] by simp

end
