(* ===== verification/Float32.thy ===== *)
theory Float32
  imports Prelude
begin

text \<open>
  The IEEE 754 binary32 values the firmware computes with (\<^verbatim>\<open>float\<close>), as bit patterns:
  what the modelled code does with them is comparing with zero, rounding to an integer
  (\<^verbatim>\<open>nearbyintf\<close>, round to nearest even) and converting to an unsigned integer. The
  conversion is the saturating one of the target's \<^verbatim>\<open>vcvt.u32.f32\<close> instruction (C leaves
  out-of-range conversions undefined).
\<close>

type_synonym f32 = "32 word"

definition f32_sign :: "f32 \<Rightarrow> bool" where
  "f32_sign v = bit v 31"

definition f32_exp :: "f32 \<Rightarrow> nat" where
  "f32_exp v = unat (drop_bit 23 v AND 0xFF)"

definition f32_frac :: "f32 \<Rightarrow> nat" where
  "f32_frac v = unat (v AND 0x7FFFFF)"

definition f32_is_nan :: "f32 \<Rightarrow> bool" where
  "f32_is_nan v \<longleftrightarrow> f32_exp v = 255 \<and> f32_frac v \<noteq> 0"

definition f32_is_inf :: "f32 \<Rightarrow> bool" where
  "f32_is_inf v \<longleftrightarrow> f32_exp v = 255 \<and> f32_frac v = 0"

text \<open>\<^verbatim>\<open>v == 0.0f\<close>: both zeros are equal to it, a NaN is not.\<close>

definition f32_is_zero :: "f32 \<Rightarrow> bool" where
  "f32_is_zero v \<longleftrightarrow> v AND 0x7FFFFFFF = 0"

text \<open>The constants \<^verbatim>\<open>0.0f\<close> and \<^verbatim>\<open>1.0f\<close>.\<close>

definition f32_0 :: f32 where
  "f32_0 = 0"

definition f32_1 :: f32 where
  "f32_1 = 0x3F800000"

text \<open>A finite value is \<open>\<plusminus> m * 2 ^ (e - 150)\<close>; its nearest integer, ties to even.\<close>

definition f32_mant :: "f32 \<Rightarrow> nat" where
  "f32_mant v = (if f32_exp v = 0 then f32_frac v else f32_frac v + 2 ^ 23)"

definition f32_scale :: "f32 \<Rightarrow> nat" where
  "f32_scale v = (if f32_exp v = 0 then 1 else f32_exp v)"

definition round_half_even :: "nat \<Rightarrow> nat \<Rightarrow> nat" where
  "round_half_even m d =
     (let q = m div d; r = m mod d
      in if 2 * r < d then q
         else if 2 * r > d then q + 1
         else if even q then q else q + 1)"

definition f32_rint_abs :: "f32 \<Rightarrow> nat" where
  "f32_rint_abs v =
     (if f32_scale v \<ge> 150 then f32_mant v * 2 ^ (f32_scale v - 150)
      else round_half_even (f32_mant v) (2 ^ (150 - f32_scale v)))"

text \<open>\<^verbatim>\<open>nearbyintf(v) <= 0.0f\<close>.\<close>

definition f32_rint_le_zero :: "f32 \<Rightarrow> bool" where
  "f32_rint_le_zero v \<longleftrightarrow>
     \<not> f32_is_nan v \<and> (f32_sign v \<or> \<not> f32_is_inf v \<and> f32_rint_abs v = 0)"

text \<open>\<^verbatim>\<open>(uint32_t)nearbyintf(v)\<close>, saturating.\<close>

definition f32_rint_u32 :: "f32 \<Rightarrow> u32" where
  "f32_rint_u32 v =
     (if f32_is_nan v \<or> f32_sign v then 0
      else if f32_is_inf v then -1
      else if f32_rint_abs v \<ge> 2 ^ 32 then -1
      else of_nat (f32_rint_abs v))"

text \<open>The conversion to an unsigned integer truncates and saturates; to one of eight bits, it
  keeps the low byte of that.\<close>

definition f32_trunc_abs :: "f32 \<Rightarrow> nat" where
  "f32_trunc_abs v =
     (if f32_scale v \<ge> 150 then f32_mant v * 2 ^ (f32_scale v - 150)
      else f32_mant v div 2 ^ (150 - f32_scale v))"

definition f32_trunc_u32 :: "f32 \<Rightarrow> u32" where
  "f32_trunc_u32 v =
     (if f32_is_nan v \<or> f32_sign v then 0
      else if f32_is_inf v then -1
      else if f32_trunc_abs v \<ge> 2 ^ 32 then -1
      else of_nat (f32_trunc_abs v))"

definition f32_trunc_u8 :: "f32 \<Rightarrow> u8" where
  "f32_trunc_u8 v = ucast (f32_trunc_u32 v)"

text \<open>Comparison: false with a NaN, and the two zeros are equal.\<close>

definition f32_less :: "f32 \<Rightarrow> f32 \<Rightarrow> bool" where
  "f32_less a b \<longleftrightarrow> \<not> f32_is_nan a \<and> \<not> f32_is_nan b \<and> \<not> (f32_is_zero a \<and> f32_is_zero b) \<and>
     (if f32_sign a \<noteq> f32_sign b then f32_sign a else if f32_sign a then b < a else a < b)"

definition f32_le :: "f32 \<Rightarrow> f32 \<Rightarrow> bool" where
  "f32_le a b \<longleftrightarrow> f32_less a b \<or> \<not> f32_is_nan a \<and> (a = b \<or> f32_is_zero a \<and> f32_is_zero b)"

lemmas f32_defs =
  f32_rint_u32_def f32_rint_le_zero_def f32_is_nan_def f32_is_inf_def f32_rint_abs_def
  f32_exp_def f32_frac_def f32_mant_def f32_scale_def round_half_even_def f32_sign_def Let_def

lemma f32_zero_consts [simp]: "f32_is_zero f32_0" "\<not> f32_is_zero f32_1"
  by (simp_all add: f32_is_zero_def f32_0_def f32_1_def)

lemma f32_rint_u32_pos:
  assumes "\<not> f32_rint_le_zero v" and "\<not> f32_is_nan v"
  shows "f32_rint_u32 v \<noteq> 0"
proof -
  have "of_nat n \<noteq> (0 :: u32)" if "n \<noteq> 0" "n < 2 ^ 32" for n
  proof -
    have "unat (of_nat n :: u32) = n" using that by (simp add: unsigned_of_nat take_bit_nat_eq_self)
    with that(1) show ?thesis by (metis unat_0)
  qed
  with assms show ?thesis
    by (auto simp: f32_rint_le_zero_def f32_rint_u32_def)
qed

end
