(* ===== verification/Ngc_params.thy ===== *)
theory Ngc_params
  imports Float32
begin

text \<open>
  NGC parameters, \<^verbatim>\<open>grbl/ngc_params.c\<close>: numbered parameters (1 to 30 local to a subroutine
  call, the others global), named parameters, string parameters and the stack of call
  levels. The linked lists of the C code are lists in link order. The read-only getters
  report machine state kept elsewhere: they are arguments (\<open>ro_get\<close>, \<open>named_get\<close>) of
  the operations that call them. The contents of a saved modal state are not looked into
  here: their type is a type variable, and the states handed to
  \<^verbatim>\<open>gc_modal_state_restore\<close> are recorded in \<open>restored\<close>.
\<close>

section \<open>Data\<close>

definition NGC_MAX_CALL_LEVEL :: int where
  "NGC_MAX_CALL_LEVEL = 10"

definition NGC_MAX_PARAM_LENGTH :: nat where
  "NGC_MAX_PARAM_LENGTH = 30"

definition NGC_MAX_PARAM_ID :: u32 where
  "NGC_MAX_PARAM_ID = 65535"

record ngc_rw_param =
  rw_context :: ptr
  rw_id :: u16
  rw_value :: f32

record ngc_named_rw_param =
  nrw_context :: ptr
  nrw_name :: string
  nrw_value :: f32

record ngc_string_param =
  sp_id :: u32
  sp_len :: nat
  sp_value :: string

record 'm gc_modal_snapshot =
  snap_modal :: 'm
  snap_feed_rate :: f32
  auto_restore :: bool

record 'm ngc_param_context =
  lvl_context :: ptr
  lvl_modal_state :: "'m gc_modal_snapshot option"

record 'm ngc_params =
  call_level :: int
  call_context :: ptr
  modal_state :: "'m gc_modal_snapshot option"
  call_levels :: "'m ngc_param_context list"
  rw_params :: "ngc_rw_param list"
  rw_global_params :: "ngc_named_rw_param list"
  ref_id :: u32
  ngc_string_params :: "ngc_string_param list"
  mallocs :: "bool list"
  restored :: "'m gc_modal_snapshot list"

text \<open>The address ranges of the read-only numbered parameters.\<close>

definition ngc_ro_params :: "(u16 \<times> u16) list" where
  "ngc_ro_params =
     [(5061, 5069), (5070, 5070), (5161, 5169), (5181, 5189), (5191, 5199), (5210, 5210),
      (5211, 5219), (5220, 5220), (5221, 5230), (5241, 5250), (5261, 5270), (5281, 5290),
      (5301, 5310), (5321, 5330), (5341, 5350), (5361, 5370), (5381, 5390), (5399, 5399),
      (5400, 5400), (5401, 5409), (5420, 5428), (5599, 5599)]"

definition ngc_named_ro_param :: "string list" where
  "ngc_named_ro_param =
     [''_vmajor'', ''_vminor'', ''_line'', ''_motion_mode'', ''_plane'', ''_ccomp'', ''_metric'',
      ''_imperial'', ''_absolute'', ''_incremental'', ''_inverse_time'', ''_units_per_minute'',
      ''_units_per_rev'', ''_coord_system'', ''_tool_offset'', ''_retract_r_plane'',
      ''_retract_old_z'', ''_spindle_rpm_mode'', ''_spindle_css_mode'', ''_ijk_absolute_mode'',
      ''_lathe_diameter_mode'', ''_lathe_radius_mode'', ''_spindle_on'', ''_spindle_cw'', ''_mist'',
      ''_flood'', ''_speed_override'', ''_feed_override'', ''_adaptive_feed'', ''_feed_hold'',
      ''_feed'', ''_rpm'', ''_x'', ''_y'', ''_z'', ''_a'', ''_b'', ''_c'', ''_u'', ''_v'', ''_w'',
      ''_abs_x'', ''_abs_y'', ''_abs_z'', ''_abs_a'', ''_abs_b'', ''_abs_c'', ''_abs_u'', ''_abs_v'',
      ''_abs_w'', ''_current_tool'', ''_current_pocket'', ''_selected_tool'', ''_selected_pocket'',
      ''_call_level'', ''_probe_state'', ''_probe2_state'', ''_toolsetter_state'', ''_active_probe'',
      ''_homed_state'', ''_homed_axes'', ''_tool_table_size'', ''_free_memory'']"

section \<open>Numbered parameters\<close>

definition param_context :: "u16 \<Rightarrow> 'm ngc_params \<Rightarrow> ptr" where
  "param_context pid s = (if pid > 30 then 0 else call_context s)"

definition rw_match :: "ptr \<Rightarrow> u16 \<Rightarrow> ngc_rw_param \<Rightarrow> bool" where
  "rw_match context pid p \<longleftrightarrow> rw_context p = context \<and> rw_id p = pid"

text \<open>The table of read-only ranges is searched from its end.\<close>

definition ngc_param_get ::
    "(u16 \<Rightarrow> f32) \<Rightarrow> u16 \<Rightarrow> 'm ngc_params \<Rightarrow> bool \<times> f32" where
  "ngc_param_get ro_get pid s =
     (if pid > 0 \<and> pid < fst (ngc_ro_params ! 0)
      then (True,
            case find (rw_match (param_context pid s) pid) (rw_params s) of
              Some p \<Rightarrow> rw_value p
            | None \<Rightarrow> f32_0)
      else
        (case find (\<lambda>(id_min, id_max). pid \<ge> id_min \<and> pid \<le> id_max) (rev ngc_ro_params) of
           Some _ \<Rightarrow> (True, ro_get pid)
         | None \<Rightarrow> (False, f32_0)))"

definition ngc_param_is_rw :: "u16 \<Rightarrow> bool" where
  "ngc_param_is_rw pid \<longleftrightarrow> pid > 0 \<and> pid < fst (ngc_ro_params ! 0)"

definition ngc_param_exists :: "u16 \<Rightarrow> bool" where
  "ngc_param_exists pid \<longleftrightarrow> pid > 0 \<and> pid \<le> snd (ngc_ro_params ! (length ngc_ro_params - 1))"

fun rw_store :: "(ngc_rw_param \<Rightarrow> bool) \<Rightarrow> f32 \<Rightarrow> ngc_rw_param list \<Rightarrow> ngc_rw_param list" where
  "rw_store m v [] = []"
| "rw_store m v (p # ps) = (if m p then p\<lparr>rw_value := v\<rparr> # ps else p # rw_store m v ps)"

definition ngc_param_set :: "u16 \<Rightarrow> f32 \<Rightarrow> 'm ngc_params \<Rightarrow> bool \<times> 'm ngc_params" where
  "ngc_param_set pid v s =
     (if pid > 0 \<and> pid < fst (ngc_ro_params ! 0)
      then
        let m = rw_match (param_context pid s) pid
        in if find m (rw_params s) \<noteq> None
           then (True, s\<lparr>rw_params := rw_store m v (rw_params s)\<rparr>)
           else if f32_is_zero v then (True, s)
           else
             let (ok, rest) = malloc (mallocs s)
             in if ok
                then (True, s\<lparr>rw_params := rw_params s @
                          [\<lparr>rw_context = param_context pid s, rw_id = pid, rw_value = v\<rparr>],
                        mallocs := rest\<rparr>)
                else (f32_is_zero v, s\<lparr>mallocs := rest\<rparr>)
      else (False, s))"

section \<open>Named parameters\<close>

text \<open>The characters above the space, in lower case, at most \<open>NGC_MAX_PARAM_LENGTH + 1\<close> of
  them: the loop condition \<^verbatim>\<open>len <= NGC_MAX_PARAM_LENGTH\<close> lets one more character through than
  the static buffer holds beside its terminator.\<close>

fun name_tolower_loop :: "nat \<Rightarrow> string \<Rightarrow> string" where
  "name_tolower_loop len [] = []"
| "name_tolower_loop len (c # s) =
     (if len \<le> NGC_MAX_PARAM_LENGTH
      then if (of_char c :: nat) > 32
           then LCAPS c # name_tolower_loop (len + 1) s
           else name_tolower_loop len s
      else [])"

definition ngc_name_tolower :: "string \<Rightarrow> string" where
  "ngc_name_tolower s = name_tolower_loop 0 s"

text \<open>\<^verbatim>\<open>(*name == '_' ? *(name + 1) : *name) == '\0'\<close>: no name is supplied.\<close>

definition name_missing :: "string \<Rightarrow> bool" where
  "name_missing name \<longleftrightarrow>
     (if cstr_at name 0 = CHR ''_'' then cstr_at name 1 else cstr_at name 0) = NUL"

definition named_context :: "string \<Rightarrow> 'm ngc_params \<Rightarrow> ptr" where
  "named_context name s = (if cstr_at name 0 = CHR ''_'' then 0 else call_context s)"

definition nrw_match :: "ptr \<Rightarrow> string \<Rightarrow> ngc_named_rw_param \<Rightarrow> bool" where
  "nrw_match context name p \<longleftrightarrow> nrw_context p = context \<and> nrw_name p = name"

text \<open>\<open>v0\<close> is what the result variable holds before: it is left alone when no name is given.\<close>

definition ngc_named_param_get ::
    "(string \<Rightarrow> f32) \<Rightarrow> string \<Rightarrow> f32 \<Rightarrow> 'm ngc_params \<Rightarrow> bool \<times> f32" where
  "ngc_named_param_get named_get name0 v0 s =
     (let name = ngc_name_tolower name0
      in if name_missing name then (False, v0)
         else if cstr_at name 0 = CHR ''_'' \<and> name \<in> set ngc_named_ro_param
         then (True, named_get name)
         else
           (case find (nrw_match (named_context name s) name) (rw_global_params s) of
              Some p \<Rightarrow> (True, nrw_value p)
            | None \<Rightarrow> (False, f32_0)))"

definition ngc_named_param_exists :: "(string \<Rightarrow> f32) \<Rightarrow> string \<Rightarrow> 'm ngc_params \<Rightarrow> bool" where
  "ngc_named_param_exists named_get name s = fst (ngc_named_param_get named_get name f32_0 s)"

fun nrw_store :: "(ngc_named_rw_param \<Rightarrow> bool) \<Rightarrow> f32 \<Rightarrow> ngc_named_rw_param list \<Rightarrow>
    ngc_named_rw_param list" where
  "nrw_store m v [] = []"
| "nrw_store m v (p # ps) = (if m p then p\<lparr>nrw_value := v\<rparr> # ps else p # nrw_store m v ps)"

datatype named_set_result =
    Set_null              \<comment> \<open>\<^verbatim>\<open>NULL\<close> returned, nothing stored\<close>
  | Set_ok                \<comment> \<open>the address of the stored value\<close>
  | Set_bad_ptr           \<comment> \<open>\<^verbatim>\<open>&rw_param->value\<close> computed from \<^verbatim>\<open>rw_param == NULL\<close>\<close>

definition ngc_named_param_set ::
    "string \<Rightarrow> f32 \<Rightarrow> 'm ngc_params \<Rightarrow> named_set_result \<times> 'm ngc_params" where
  "ngc_named_param_set name0 v s =
     (let name = ngc_name_tolower name0
      in if name_missing name then (Set_null, s)
         else if cstr_at name 0 = CHR ''_'' \<and> name \<in> set ngc_named_ro_param
         then (Set_bad_ptr, s)
         else if length name \<le> NGC_MAX_PARAM_LENGTH
         then
           let m = nrw_match (named_context name s) name
           in if find m (rw_global_params s) \<noteq> None
              then (Set_ok, s\<lparr>rw_global_params := nrw_store m v (rw_global_params s)\<rparr>)
              else
                let (ok, rest) = malloc (mallocs s)
                in if ok
                   then (Set_ok, s\<lparr>rw_global_params := rw_global_params s @
                          [\<lparr>nrw_context = named_context name s, nrw_name = name, nrw_value = v\<rparr>],
                          mallocs := rest\<rparr>)
                   else (Set_null, s\<lparr>mallocs := rest\<rparr>)
         else (Set_null, s))"

section \<open>String parameters\<close>

definition sp_get_by_name :: "string \<Rightarrow> 'm ngc_params \<Rightarrow> ngc_string_param option" where
  "sp_get_by_name name s =
     find (\<lambda>sp. sp_id sp > NGC_MAX_PARAM_ID \<and> sp_value sp = name) (ngc_string_params s)"

definition ngc_string_param_get :: "u32 \<Rightarrow> 'm ngc_params \<Rightarrow> string option" where
  "ngc_string_param_get pid s =
     map_option sp_value (find (\<lambda>sp. sp_id sp = pid) (ngc_string_params s))"

definition ngc_string_param_exists :: "u32 \<Rightarrow> 'm ngc_params \<Rightarrow> bool" where
  "ngc_string_param_exists pid s \<longleftrightarrow> ngc_string_param_get pid s \<noteq> None"

fun sp_remove :: "u32 \<Rightarrow> ngc_string_param list \<Rightarrow> ngc_string_param list" where
  "sp_remove pid [] = []"
| "sp_remove pid (p # ps) = (if sp_id p = pid then ps else p # sp_remove pid ps)"

definition ngc_string_param_delete :: "u32 \<Rightarrow> 'm ngc_params \<Rightarrow> 'm ngc_params" where
  "ngc_string_param_delete pid s = s\<lparr>ngc_string_params := sp_remove pid (ngc_string_params s)\<rparr>"

fun sp_store :: "u32 \<Rightarrow> (ngc_string_param \<Rightarrow> ngc_string_param) \<Rightarrow> ngc_string_param list \<Rightarrow>
    ngc_string_param list" where
  "sp_store pid f [] = []"
| "sp_store pid f (p # ps) = (if sp_id p = pid then f p # ps else p # sp_store pid f ps)"

text \<open>\<^verbatim>\<open>sp_set\<close>: a string that fits the entry's allocation is copied in place, a longer one
  reallocates (the entry keeps its place in the list); if that fails, or if the string is
  longer than 255 characters, the entry is deleted.\<close>

definition sp_set :: "u32 \<Rightarrow> string \<Rightarrow> 'm ngc_params \<Rightarrow> u32 option \<times> 'm ngc_params" where
  "sp_set pid v s =
     (let found = find (\<lambda>sp. sp_id sp = pid) (ngc_string_params s); len = length v
      in if len \<le> 255
         then
           (case found of
              Some sp \<Rightarrow>
                if len > sp_len sp
                then let (ok, rest) = malloc (mallocs s)
                     in if ok
                        then (Some pid, s\<lparr>ngc_string_params :=
                               sp_store pid (\<lambda>p. p\<lparr>sp_len := len, sp_value := v\<rparr>) (ngc_string_params s),
                               mallocs := rest\<rparr>)
                        else (None, ngc_string_param_delete pid (s\<lparr>mallocs := rest\<rparr>))
                else (Some pid, s\<lparr>ngc_string_params :=
                        sp_store pid (\<lambda>p. p\<lparr>sp_value := v\<rparr>) (ngc_string_params s)\<rparr>)
            | None \<Rightarrow>
                let (ok, rest) = malloc (mallocs s)
                in if ok
                   then (Some pid, s\<lparr>ngc_string_params := ngc_string_params s @
                          [\<lparr>sp_id = pid, sp_len = len, sp_value = v\<rparr>], mallocs := rest\<rparr>)
                   else (None, s\<lparr>mallocs := rest\<rparr>))
         else
           (case found of
              Some _ \<Rightarrow> (None, ngc_string_param_delete pid s)
            | None \<Rightarrow> (None, s)))"

definition ngc_string_param_set :: "u16 \<Rightarrow> string \<Rightarrow> 'm ngc_params \<Rightarrow> bool \<times> 'm ngc_params" where
  "ngc_string_param_set pid v s =
     (if pid > 0 then let (r, s') = sp_set (ucast pid) v s in (r \<noteq> None, s') else (False, s))"

definition ngc_string_param_set_name :: "string \<Rightarrow> 'm ngc_params \<Rightarrow> u32 \<times> 'm ngc_params" where
  "ngc_string_param_set_name name s =
     (if name \<noteq> []
      then (case sp_get_by_name name s of
              Some sp \<Rightarrow> (sp_id sp, s)
            | None \<Rightarrow>
                let (r, s') = sp_set (ref_id s - 1) name (s\<lparr>ref_id := ref_id s - 1\<rparr>)
                in (case r of Some pid \<Rightarrow> (pid, s') | None \<Rightarrow> (0, s')))
      else (0, s))"

section \<open>Call levels\<close>

definition ngc_modal_state_get :: "'m ngc_params \<Rightarrow> 'm gc_modal_snapshot option" where
  "ngc_modal_state_get s =
     (if call_level s = -1 then modal_state s
      else lvl_modal_state (call_levels s ! nat (call_level s)))"

definition set_modal_slot :: "'m gc_modal_snapshot option \<Rightarrow> 'm ngc_params \<Rightarrow> 'm ngc_params" where
  "set_modal_slot ms s =
     (if call_level s = -1 then s\<lparr>modal_state := ms\<rparr>
      else s\<lparr>call_levels := (call_levels s)[nat (call_level s) :=
               (call_levels s ! nat (call_level s))\<lparr>lvl_modal_state := ms\<rparr>]\<rparr>)"

definition ngc_modal_state_save :: "'m \<Rightarrow> f32 \<Rightarrow> bool \<Rightarrow> 'm ngc_params \<Rightarrow> bool \<times> 'm ngc_params" where
  "ngc_modal_state_save state feed_rate auto s =
     (let snap = \<lparr>snap_modal = state, snap_feed_rate = feed_rate, auto_restore = auto\<rparr>
      in if ngc_modal_state_get s = None
         then let (ok, rest) = malloc (mallocs s); s' = s\<lparr>mallocs := rest\<rparr>
              in if ok then (True, set_modal_slot (Some snap) s') else (False, s')
         else (True, set_modal_slot (Some snap) s))"

definition ngc_modal_state_invalidate :: "'m ngc_params \<Rightarrow> 'm ngc_params" where
  "ngc_modal_state_invalidate s =
     (if ngc_modal_state_get s \<noteq> None then set_modal_slot None s else s)"

definition ngc_call_push :: "ptr \<Rightarrow> 'm ngc_params \<Rightarrow> bool \<times> 'm ngc_params" where
  "ngc_call_push context s =
     (if call_level s < NGC_MAX_CALL_LEVEL - 1
      then
        let lvl = call_level s + 1
        in (True, s\<lparr>call_level := lvl,
             call_levels := (call_levels s)[nat lvl := (call_levels s ! nat lvl)\<lparr>lvl_context := context\<rparr>],
             call_context := context\<rparr>)
      else (False, s))"

definition drop_context_params :: "'m ngc_params \<Rightarrow> 'm ngc_params" where
  "drop_context_params s =
     (if call_context s \<noteq> 0
      then s\<lparr>rw_params := filter (\<lambda>p. rw_context p \<noteq> call_context s) (rw_params s),
             rw_global_params := filter (\<lambda>p. nrw_context p \<noteq> call_context s) (rw_global_params s)\<rparr>
      else s)"

definition free_level_modal :: "'m ngc_params \<Rightarrow> 'm ngc_params" where
  "free_level_modal s =
     (case lvl_modal_state (call_levels s ! nat (call_level s)) of
        Some snap \<Rightarrow>
          set_modal_slot None
            (if auto_restore snap then s\<lparr>restored := restored s @ [snap]\<rparr> else s)
      | None \<Rightarrow> s)"

definition ngc_call_pop :: "'m ngc_params \<Rightarrow> bool \<times> 'm ngc_params" where
  "ngc_call_pop s =
     (if call_level s \<ge> 0
      then
        let s1 = free_level_modal (drop_context_params s);
            lvl = call_level s1 - 1;
            s2 = s1\<lparr>call_level := lvl,
                    call_context := (if lvl \<ge> 0 then lvl_context (call_levels s1 ! nat lvl) else 0)\<rparr>
        in (lvl \<ge> 0, s2)
      else (call_level s \<ge> 0, s))"

definition ngc_call_level :: "'m ngc_params \<Rightarrow> u32" where
  "ngc_call_level s = of_int (call_level s + 1)"

definition init_params :: "'m ngc_params" where
  "init_params =
     \<lparr>call_level = -1, call_context = 0, modal_state = None,
      call_levels = replicate 10 \<lparr>lvl_context = 0, lvl_modal_state = None\<rparr>,
      rw_params = [], rw_global_params = [], ref_id = -1, ngc_string_params = [],
      mallocs = [], restored = []\<rparr>"

section \<open>Lemmas\<close>

lemma find_rw_store_same:
  "(\<And>p w. m (p\<lparr>rw_value := w\<rparr>) = m p) \<Longrightarrow> find m ps \<noteq> None \<Longrightarrow>
   \<exists>p. find m (rw_store m v ps) = Some p \<and> rw_value p = v"
  by (induction ps) auto

lemma find_rw_store_other:
  "(\<And>p w. m' (p\<lparr>rw_value := w\<rparr>) = m' p) \<Longrightarrow> (\<And>p. m p \<Longrightarrow> \<not> m' p) \<Longrightarrow>
   find m' (rw_store m v ps) = find m' ps"
  by (induction ps) auto

lemma rw_match_value [simp]: "rw_match c k (p\<lparr>rw_value := w\<rparr>) = rw_match c k p"
  by (simp add: rw_match_def)

lemma rw_match_excl: "rw_match c k p \<Longrightarrow> k \<noteq> k' \<or> c \<noteq> c' \<Longrightarrow> \<not> rw_match c' k' p"
  by (auto simp: rw_match_def)

lemma find_append: "find m (xs @ ys) = (case find m xs of None \<Rightarrow> find m ys | Some x \<Rightarrow> Some x)"
  by (induction xs) auto

lemma ngc_param_set_frame:
  "call_context (snd (ngc_param_set k v s)) = call_context s"
  "call_level (snd (ngc_param_set k v s)) = call_level s"
  "call_levels (snd (ngc_param_set k v s)) = call_levels s"
  "rw_global_params (snd (ngc_param_set k v s)) = rw_global_params s"
  by (simp_all add: ngc_param_set_def Let_def split: prod.split)

lemma ngc_param_set_read:
  assumes "ngc_param_set k v s = (True, s')"
  shows "ngc_param_get ro k' s' =
    (if k' = k then (True, if f32_is_zero v \<and> find (rw_match (param_context k s) k) (rw_params s) = None
                           then f32_0 else v)
     else ngc_param_get ro k' s)"
proof -
  from assms have rw: "k > 0" "k < fst (ngc_ro_params ! 0)"
    by (auto simp: ngc_param_set_def split: if_splits)
  have ctx: "param_context j s' = param_context j s" for j
    using ngc_param_set_frame(1) [of k v s] assms by (simp add: param_context_def)
  consider (stored) "find (rw_match (param_context k s) k) (rw_params s) \<noteq> None"
      "rw_params s' = rw_store (rw_match (param_context k s) k) v (rw_params s)"
    | (zero) "find (rw_match (param_context k s) k) (rw_params s) = None" "f32_is_zero v"
      "rw_params s' = rw_params s"
    | (new) "find (rw_match (param_context k s) k) (rw_params s) = None" "\<not> f32_is_zero v"
      "rw_params s' = rw_params s @ [\<lparr>rw_context = param_context k s, rw_id = k, rw_value = v\<rparr>]"
    using assms by (auto simp: ngc_param_set_def Let_def split: if_splits prod.splits)
  then show ?thesis
  proof cases
    case stored
    obtain p where p: "find (rw_match (param_context k s) k) (rw_params s') = Some p" "rw_value p = v"
      using find_rw_store_same [OF rw_match_value stored(1)] stored(2) by auto
    have "find (rw_match (param_context j s) j) (rw_params s') =
          find (rw_match (param_context j s) j) (rw_params s)" if "j \<noteq> k" for j
      unfolding stored(2) using that
      by (intro find_rw_store_other) (auto dest: rw_match_excl)
    with p stored(1) rw show ?thesis by (auto simp: ngc_param_get_def ctx)
  next
    case zero
    with rw show ?thesis by (auto simp: ngc_param_get_def ctx)
  next
    case new
    with rw show ?thesis
      by (auto simp: ngc_param_get_def ctx find_append rw_match_def split: option.split)
  qed
qed

text \<open>
  C34. After a successful store to a numbered parameter, reading it back gives the stored
  value (zero when a zero is stored to a parameter that has no entry, which is not
  allocated one), and every other parameter, local or global, reads as before.
\<close>

theorem ngc_param_set_get:
  assumes "ngc_param_set k v s = (True, s')"
  shows "ngc_param_get ro k' s' =
    (if k' = k then (True, if f32_is_zero v \<and> find (rw_match (param_context k s) k) (rw_params s) = None
                           then f32_0 else v)
     else ngc_param_get ro k' s)"
  using assms by (rule ngc_param_set_read)

theorem ngc_param_set_get_witness:
  "ngc_param_get (\<lambda>_. 7) 31 (snd (ngc_param_set 31 f32_1 init_params)) = (True, f32_1)"
proof -
  have "ngc_param_set 31 f32_1 init_params = (True, snd (ngc_param_set 31 f32_1 init_params))"
    by (simp add: ngc_param_set_def ngc_ro_params_def init_params_def malloc_def Let_def)
  from ngc_param_set_get [OF this, of "\<lambda>_. 7" 31] show ?thesis by simp
qed

text \<open>The local parameters of a context.\<close>

definition locals_of :: "ptr \<Rightarrow> 'm ngc_params \<Rightarrow> ngc_rw_param list" where
  "locals_of c s = filter (\<lambda>p. rw_context p = c \<and> rw_id p \<le> 30) (rw_params s)"

lemma filter_rw_store:
  "(\<And>p. m p \<Longrightarrow> \<not> P p) \<Longrightarrow> (\<And>p w. P (p\<lparr>rw_value := w\<rparr>) = P p) \<Longrightarrow>
   filter P (rw_store m v ps) = filter P ps"
  by (induction ps) auto

lemma locals_of_set:
  assumes "c \<noteq> call_context s"
  shows "locals_of c (snd (ngc_param_set k v s)) = locals_of c s"
proof -
  have "\<not> (rw_context p = c \<and> rw_id p \<le> 30)" if "rw_match (param_context k s) k p" for p
    using that assms by (auto simp: rw_match_def param_context_def split: if_splits)
  then have "locals_of c (s\<lparr>rw_params := rw_store (rw_match (param_context k s) k) v (rw_params s)\<rparr>) =
      locals_of c s"
    by (simp add: locals_of_def filter_rw_store)
  moreover have "\<not> (param_context k s = c \<and> k \<le> 30)"
    using assms by (auto simp: param_context_def)
  ultimately show ?thesis
    by (simp add: ngc_param_set_def Let_def split: prod.split) (auto simp: locals_of_def)
qed

section \<open>Isolation of subroutine calls\<close>

definition named_locals_of :: "ptr \<Rightarrow> 'm ngc_params \<Rightarrow> ngc_named_rw_param list" where
  "named_locals_of c s =
     filter (\<lambda>p. nrw_context p = c \<and> cstr_at (nrw_name p) 0 \<noteq> CHR ''_'') (rw_global_params s)"

lemma find_filter: "(\<And>p. m p \<Longrightarrow> P p) \<Longrightarrow> find m (filter P xs) = find m xs"
  by (induction xs) auto

lemma filter_nrw_store:
  "(\<And>p. m p \<Longrightarrow> \<not> P p) \<Longrightarrow> (\<And>p w. P (p\<lparr>nrw_value := w\<rparr>) = P p) \<Longrightarrow>
   filter P (nrw_store m v ps) = filter P ps"
  by (induction ps) auto

lemma named_locals_of_set:
  assumes "c \<noteq> call_context s"
  shows "named_locals_of c (snd (ngc_named_param_set n v s)) = named_locals_of c s"
proof -
  let ?n = "ngc_name_tolower n"
  let ?m = "nrw_match (named_context ?n s) ?n"
  have "\<not> (nrw_context p = c \<and> cstr_at (nrw_name p) 0 \<noteq> CHR ''_'')" if "?m p" for p
    using that assms by (auto simp: nrw_match_def named_context_def split: if_splits)
  then have "named_locals_of c (s\<lparr>rw_global_params := nrw_store ?m v (rw_global_params s)\<rparr>) =
      named_locals_of c s"
    by (simp add: named_locals_of_def filter_nrw_store)
  moreover have "\<not> (named_context ?n s = c \<and> cstr_at ?n 0 \<noteq> CHR ''_'')"
    using assms by (auto simp: named_context_def)
  ultimately show ?thesis
    by (simp add: ngc_named_param_set_def Let_def split: prod.split)
      (auto simp: named_locals_of_def)
qed

lemma named_locals_of_param_set [simp]:
  "named_locals_of c (snd (ngc_param_set k v s)) = named_locals_of c s"
  by (simp add: named_locals_of_def ngc_param_set_frame)

lemma ngc_named_param_set_frame:
  "call_context (snd (ngc_named_param_set n v s)) = call_context s"
  "call_level (snd (ngc_named_param_set n v s)) = call_level s"
  "call_levels (snd (ngc_named_param_set n v s)) = call_levels s"
  "rw_params (snd (ngc_named_param_set n v s)) = rw_params s"
  by (simp_all add: ngc_named_param_set_def Let_def split: prod.split)

lemma ngc_modal_state_save_frame:
  "call_context (snd (ngc_modal_state_save m f a s)) = call_context s"
  "call_level (snd (ngc_modal_state_save m f a s)) = call_level s"
  "rw_params (snd (ngc_modal_state_save m f a s)) = rw_params s"
  "rw_global_params (snd (ngc_modal_state_save m f a s)) = rw_global_params s"
  "length (call_levels (snd (ngc_modal_state_save m f a s))) = length (call_levels s)"
  by (simp_all add: ngc_modal_state_save_def set_modal_slot_def Let_def split: prod.split)

lemma set_modal_slot_contexts:
  "map lvl_context (call_levels (set_modal_slot x s)) = map lvl_context (call_levels s)"
  by (auto simp: set_modal_slot_def map_update intro!: list_update_same_conv [THEN iffD2] nth_equalityI)
    (metis length_map list_update_beyond list_update_id not_le nth_map)

lemma ngc_modal_state_save_contexts:
  "map lvl_context (call_levels (snd (ngc_modal_state_save m f a s))) = map lvl_context (call_levels s)"
  using set_modal_slot_contexts
  by (auto simp: ngc_modal_state_save_def Let_def split: prod.split)

text \<open>The contexts in use: that of the main program and those of the calls under way.\<close>

definition level_contexts :: "'m ngc_params \<Rightarrow> ptr list" where
  "level_contexts s = take (nat (call_level s + 1)) (map lvl_context (call_levels s))"

definition wf_calls :: "'m ngc_params \<Rightarrow> bool" where
  "wf_calls s \<longleftrightarrow> length (call_levels s) = 10 \<and> -1 \<le> call_level s \<and> call_level s \<le> 9 \<and>
     call_context s = last (0 # level_contexts s)"

definition same_calls :: "'m ngc_params \<Rightarrow> 'm ngc_params \<Rightarrow> bool" where
  "same_calls s s' \<longleftrightarrow> length (call_levels s') = length (call_levels s) \<and> call_level s' = call_level s \<and>
     call_context s' = call_context s \<and> level_contexts s' = level_contexts s"

lemma wf_calls_same: "same_calls s s' \<Longrightarrow> wf_calls s \<Longrightarrow> wf_calls s'"
  by (simp add: same_calls_def wf_calls_def)

lemma ngc_call_push_contexts:
  assumes "ngc_call_push c s = (True, s')" "wf_calls s"
  shows "level_contexts s' = level_contexts s @ [c]" "wf_calls s'" "call_context s' = c"
    "call_level s' = call_level s + 1" "rw_params s' = rw_params s"
    "rw_global_params s' = rw_global_params s" "length (call_levels s') = length (call_levels s)"
proof -
  from assms have s': "s' = s\<lparr>call_level := call_level s + 1,
      call_levels := (call_levels s)[nat (call_level s + 1) :=
        (call_levels s ! nat (call_level s + 1))\<lparr>lvl_context := c\<rparr>], call_context := c\<rparr>"
    and lt: "call_level s < 9"
    by (auto simp: ngc_call_push_def NGC_MAX_CALL_LEVEL_def Let_def split: if_splits)
  from assms(2) have ge: "-1 \<le> call_level s" and len: "length (call_levels s) = 10"
    by (auto simp: wf_calls_def)
  obtain n where n: "call_level s + 1 = int n" using ge by (metis add.commute add_increasing2 zero_le_imp_eq_int diff_ge_0_iff_ge diff_minus_eq_add)
  with lt have "n < 10" by simp
  with n len show l: "level_contexts s' = level_contexts s @ [c]"
    by (simp add: s' level_contexts_def n nat_add_distrib take_Suc_conv_app_nth map_update)
  show "wf_calls s'" using lt ge len l by (simp add: wf_calls_def) (simp add: s')
qed (use assms in \<open>auto simp: ngc_call_push_def Let_def split: if_splits\<close>)

lemma free_level_modal_frame:
  "call_context (free_level_modal s) = call_context s" "call_level (free_level_modal s) = call_level s"
  "rw_params (free_level_modal s) = rw_params s" "rw_global_params (free_level_modal s) = rw_global_params s"
  "length (call_levels (free_level_modal s)) = length (call_levels s)"
  by (simp_all add: free_level_modal_def set_modal_slot_def split: option.split)

lemma free_level_modal_contexts:
  "map lvl_context (call_levels (free_level_modal s)) = map lvl_context (call_levels s)"
  by (auto simp: free_level_modal_def set_modal_slot_contexts split: option.split)

lemma drop_context_params_frame:
  "call_context (drop_context_params s) = call_context s" "call_level (drop_context_params s) = call_level s"
  "call_levels (drop_context_params s) = call_levels s"
  by (simp_all add: drop_context_params_def)

lemma drop_context_params_locals:
  "call_context s \<noteq> 0 \<Longrightarrow> rw_params (drop_context_params s) =
     filter (\<lambda>p. rw_context p \<noteq> call_context s) (rw_params s)"
  "call_context s \<noteq> 0 \<Longrightarrow> rw_global_params (drop_context_params s) =
     filter (\<lambda>p. nrw_context p \<noteq> call_context s) (rw_global_params s)"
  by (simp_all add: drop_context_params_def)

lemma ngc_call_pop_contexts:
  assumes "ngc_call_pop s = (b, s')" "wf_calls s" "level_contexts s = cs @ [c]" "c \<noteq> 0"
  shows "level_contexts s' = cs" "wf_calls s'" "call_level s' = call_level s - 1"
    "rw_params s' = filter (\<lambda>p. rw_context p \<noteq> c) (rw_params s)"
    "rw_global_params s' = filter (\<lambda>p. nrw_context p \<noteq> c) (rw_global_params s)"
    "call_context s' = last (0 # cs)" "length (call_levels s') = length (call_levels s)"
proof -
  have cc: "call_context s = c" using assms(2,3) by (simp add: wf_calls_def)
  have len: "length (call_levels s) = 10" using assms(2) by (simp add: wf_calls_def)
  have ge: "call_level s \<ge> 0"
    using assms(2,3) by (auto simp: wf_calls_def level_contexts_def intro!: leI)
  then obtain n where n: "call_level s = int n" using zero_le_imp_eq_int by blast
  with assms(2) have n10: "n < 10" by (simp add: wf_calls_def)
  have ctx: "map lvl_context (call_levels s') = map lvl_context (call_levels s)"
    and lvl: "call_level s' = call_level s - 1"
    using assms(1) ge
    by (auto simp: ngc_call_pop_def Let_def free_level_modal_contexts drop_context_params_frame
        free_level_modal_frame)
  show "call_level s' = call_level s - 1" by (fact lvl)
  have cs: "cs = take n (map lvl_context (call_levels s))"
    using assms(3) n n10 len by (simp add: level_contexts_def nat_add_distrib take_Suc_conv_app_nth)
  with ctx lvl n show l: "level_contexts s' = cs" by (simp add: level_contexts_def)
  show "rw_params s' = filter (\<lambda>p. rw_context p \<noteq> c) (rw_params s)"
    "rw_global_params s' = filter (\<lambda>p. nrw_context p \<noteq> c) (rw_global_params s)"
    using assms(1) ge cc assms(4)
    by (auto simp: ngc_call_pop_def Let_def free_level_modal_frame drop_context_params_locals)
  show len': "length (call_levels s') = length (call_levels s)"
    using ctx by (metis length_map)
  have "call_context s' = (if n = 0 then 0 else map lvl_context (call_levels s') ! (n - 1))"
    using assms(1) n n10 len' len
    by (auto simp: ngc_call_pop_def Let_def free_level_modal_frame drop_context_params_frame nat_diff_distrib)
  also have "\<dots> = last (0 # cs)"
    using n10 len by (cases n) (simp_all add: ctx cs take_Suc_conv_app_nth last_append)
  finally show cc': "call_context s' = last (0 # cs)" .
  show "wf_calls s'" using cc' l lvl n n10 len len' by (simp add: wf_calls_def)
qed

text \<open>What runs in a subroutine between its call and its return: stores to parameters,
  saving the modal state, and calls of other subroutines, each with a context of its own.\<close>

inductive call_body :: "'m ngc_params \<Rightarrow> 'm ngc_params \<Rightarrow> bool" where
  body_nil: "call_body s s"
| body_set: "call_body s s' \<Longrightarrow> call_body s (snd (ngc_param_set k v s'))"
| body_named: "call_body s s' \<Longrightarrow> call_body s (snd (ngc_named_param_set n v s'))"
| body_save: "call_body s s' \<Longrightarrow> call_body s (snd (ngc_modal_state_save m f a s'))"
| body_call: "call_body s s1 \<Longrightarrow> c \<notin> set (0 # level_contexts s1) \<Longrightarrow>
    ngc_call_push c s1 = (True, s2) \<Longrightarrow> call_body s2 s3 \<Longrightarrow> ngc_call_pop s3 = (b, s4) \<Longrightarrow>
    call_body s s4"

definition locals_kept :: "ptr set \<Rightarrow> 'm ngc_params \<Rightarrow> 'm ngc_params \<Rightarrow> bool" where
  "locals_kept A s s' \<longleftrightarrow> (\<forall>c\<in>A. locals_of c s' = locals_of c s \<and> named_locals_of c s' = named_locals_of c s)"

lemma locals_kept_trans: "locals_kept A s s1 \<Longrightarrow> locals_kept B s1 s2 \<Longrightarrow> A \<subseteq> B \<Longrightarrow> locals_kept A s s2"
  unfolding locals_kept_def by (metis subsetD)

lemma locals_kept_step:
  assumes "rw_params s' = rw_params s" "rw_global_params s' = rw_global_params s"
  shows "locals_kept A s s'"
  using assms by (simp add: locals_kept_def locals_of_def named_locals_of_def)

lemma pop_locals:
  assumes "rw_params s' = filter (\<lambda>p. rw_context p \<noteq> c) (rw_params s)"
    "rw_global_params s' = filter (\<lambda>p. nrw_context p \<noteq> c) (rw_global_params s)" "c \<notin> A"
  shows "locals_kept A s s'"
proof -
  have "filter (\<lambda>p. rw_context p = d \<and> rw_id p \<le> 30) (rw_params s') =
        filter (\<lambda>p. rw_context p = d \<and> rw_id p \<le> 30) (rw_params s)" if "d \<in> A" for d
    using that assms(3) unfolding assms(1) filter_filter by (intro filter_cong) auto
  moreover have "filter (\<lambda>p. nrw_context p = d \<and> cstr_at (nrw_name p) 0 \<noteq> CHR ''_'') (rw_global_params s') =
        filter (\<lambda>p. nrw_context p = d \<and> cstr_at (nrw_name p) 0 \<noteq> CHR ''_'') (rw_global_params s)"
    if "d \<in> A" for d
    using that assms(3) unfolding assms(2) filter_filter by (intro filter_cong) auto
  ultimately show ?thesis by (simp add: locals_kept_def locals_of_def named_locals_of_def)
qed

abbreviation outer_contexts :: "'m ngc_params \<Rightarrow> ptr set" where
  "outer_contexts s \<equiv> set (0 # level_contexts s) - {call_context s}"

lemma call_round:
  assumes push: "ngc_call_push c s = (True, s1)" and wf: "wf_calls s"
    and c: "c \<notin> set (0 # level_contexts s)"
    and mid: "same_calls s1 s2" "locals_kept (outer_contexts s1) s1 s2"
    and pop: "ngc_call_pop s2 = (b, s3)"
  shows "same_calls s s3 \<and> locals_kept (set (0 # level_contexts s)) s s3 \<and>
    c \<notin> rw_context ` set (rw_params s3) \<union> nrw_context ` set (rw_global_params s3)"
proof -
  note p = ngc_call_push_contexts [OF push wf]
  have wf2: "wf_calls s2" using wf_calls_same [OF mid(1) p(2)] .
  have l2: "level_contexts s2 = level_contexts s @ [c]" using mid(1) p(1) by (simp add: same_calls_def)
  have "c \<noteq> 0" using c by auto
  note q = ngc_call_pop_contexts [OF pop wf2 l2 this]
  have "outer_contexts s1 = set (0 # level_contexts s)" using c p(1,3) by auto
  then have k2: "locals_kept (set (0 # level_contexts s)) s1 s2" using mid(2) by simp
  have k3: "locals_kept (set (0 # level_contexts s)) s2 s3" using pop_locals [OF q(4,5) c] .
  have k1: "locals_kept (set (0 # level_contexts s)) s s1" by (rule locals_kept_step [OF p(5,6)])
  have "same_calls s s3"
    using mid(1) p(4,7) q(1,3,6,7) wf by (simp add: same_calls_def wf_calls_def)
  with locals_kept_trans [OF locals_kept_trans [OF k1 k2 subset_refl] k3 subset_refl] q(4,5)
  show ?thesis by auto
qed

lemma same_calls_frame:
  assumes "call_context s' = call_context s" "call_level s' = call_level s"
    "map lvl_context (call_levels s') = map lvl_context (call_levels s)"
  shows "same_calls s s'"
  using assms by (auto simp: same_calls_def level_contexts_def dest: map_eq_imp_length_eq)

lemma same_calls_trans: "same_calls s s1 \<Longrightarrow> same_calls s1 s2 \<Longrightarrow> same_calls s s2"
  by (simp add: same_calls_def)

lemma call_body_frame:
  "call_body s s' \<Longrightarrow> wf_calls s \<Longrightarrow> same_calls s s' \<and> locals_kept (outer_contexts s) s s'"
proof (induction rule: call_body.induct)
  case (body_nil s)
  then show ?case by (simp add: same_calls_def locals_kept_def)
next
  case (body_set s s' k v)
  then have sc: "same_calls s s'" and k: "locals_kept (outer_contexts s) s s'" by auto
  have "same_calls s' (snd (ngc_param_set k v s'))"
    by (rule same_calls_frame) (simp_all add: ngc_param_set_frame)
  moreover have "locals_kept (outer_contexts s) s' (snd (ngc_param_set k v s'))"
    using sc by (auto simp: locals_kept_def same_calls_def locals_of_set)
  ultimately show ?case using same_calls_trans [OF sc] locals_kept_trans [OF k] by blast
next
  case (body_named s s' n v)
  then have sc: "same_calls s s'" and k: "locals_kept (outer_contexts s) s s'" by auto
  have "same_calls s' (snd (ngc_named_param_set n v s'))"
    by (rule same_calls_frame) (simp_all add: ngc_named_param_set_frame)
  moreover have "locals_kept (outer_contexts s) s' (snd (ngc_named_param_set n v s'))"
    using sc by (auto simp: locals_kept_def same_calls_def named_locals_of_set locals_of_def
        ngc_named_param_set_frame)
  ultimately show ?case using same_calls_trans [OF sc] locals_kept_trans [OF k] by blast
next
  case (body_save s s' m f a)
  then have sc: "same_calls s s'" and k: "locals_kept (outer_contexts s) s s'" by auto
  have "same_calls s' (snd (ngc_modal_state_save m f a s'))"
    by (rule same_calls_frame) (simp_all add: ngc_modal_state_save_frame ngc_modal_state_save_contexts)
  moreover have "locals_kept (outer_contexts s) s' (snd (ngc_modal_state_save m f a s'))"
    by (rule locals_kept_step) (simp_all add: ngc_modal_state_save_frame)
  ultimately show ?case using same_calls_trans [OF sc] locals_kept_trans [OF k] by blast
next
  case (body_call s s1 c s2 s3 b s4)
  then have sc: "same_calls s s1" and k: "locals_kept (outer_contexts s) s s1" by auto
  have wf1: "wf_calls s1" using wf_calls_same [OF sc body_call.prems] .
  have "same_calls s2 s3 \<and> locals_kept (outer_contexts s2) s2 s3"
    using body_call.IH(2) ngc_call_push_contexts(2) [OF body_call.hyps(3) wf1] by blast
  then have r: "same_calls s1 s4" "locals_kept (set (0 # level_contexts s1)) s1 s4"
    using call_round [OF body_call.hyps(3) wf1 body_call.hyps(2) _ _ body_call.hyps(5)] by blast+
  have "outer_contexts s \<subseteq> set (0 # level_contexts s1)" using sc by (auto simp: same_calls_def)
  with r k sc show ?case using same_calls_trans locals_kept_trans by blast
qed

lemma find_filter_eq:
  "filter P xs = filter P ys \<Longrightarrow> (\<And>p. m p \<Longrightarrow> P p) \<Longrightarrow> find m xs = find m ys"
  using find_filter [of m P xs] find_filter [of m P ys] by simp

lemma ngc_param_get_locals:
  assumes "call_context s' = call_context s" "locals_of (call_context s) s' = locals_of (call_context s) s"
    "k \<le> 30"
  shows "ngc_param_get ro k s' = ngc_param_get ro k s"
proof -
  have "find (rw_match (call_context s) k) (rw_params s') = find (rw_match (call_context s) k) (rw_params s)"
    using assms(3) by (intro find_filter_eq [OF assms(2) [unfolded locals_of_def]]) (simp add: rw_match_def)
  with assms(1,3) show ?thesis by (simp add: ngc_param_get_def param_context_def leD)
qed

lemma ngc_named_param_get_locals:
  assumes "call_context s' = call_context s"
    "named_locals_of (call_context s) s' = named_locals_of (call_context s) s"
    "cstr_at (ngc_name_tolower n) 0 \<noteq> CHR ''_''"
  shows "ngc_named_param_get g n v0 s' = ngc_named_param_get g n v0 s"
proof -
  let ?m = "nrw_match (call_context s) (ngc_name_tolower n)"
  have "find ?m (rw_global_params s') = find ?m (rw_global_params s)"
    using assms(3)
    by (intro find_filter_eq [OF assms(2) [unfolded named_locals_of_def]]) (auto simp: nrw_match_def)
  with assms(1,3) show ?thesis by (simp add: ngc_named_param_get_def named_context_def Let_def)
qed

lemma call_isolation:
  assumes "wf_calls s" "c \<notin> set (0 # level_contexts s)" "ngc_call_push c s = (True, s1)"
    "call_body s1 s2" "ngc_call_pop s2 = (b, s3)"
  shows "wf_calls s3 \<and> call_level s3 = call_level s \<and> call_context s3 = call_context s \<and>
    (\<forall>k. k \<le> 30 \<longrightarrow> ngc_param_get ro k s3 = ngc_param_get ro k s) \<and>
    (\<forall>n v0. cstr_at (ngc_name_tolower n) 0 \<noteq> CHR ''_'' \<longrightarrow>
       ngc_named_param_get g n v0 s3 = ngc_named_param_get g n v0 s) \<and>
    c \<notin> rw_context ` set (rw_params s3) \<union> nrw_context ` set (rw_global_params s3)"
proof -
  have "same_calls s1 s2 \<and> locals_kept (outer_contexts s1) s1 s2"
    using call_body_frame [OF assms(4)] ngc_call_push_contexts(2) [OF assms(3,1)] by blast
  then have r: "same_calls s s3" "locals_kept (set (0 # level_contexts s)) s s3"
    "c \<notin> rw_context ` set (rw_params s3) \<union> nrw_context ` set (rw_global_params s3)"
    using call_round [OF assms(3,1,2) _ _ assms(5)] by blast+
  have "call_context s \<in> set (0 # level_contexts s)"
    using assms(1) unfolding wf_calls_def by (metis last_in_set list.distinct(1))
  with r show ?thesis
    using ngc_param_get_locals [of s3 s] ngc_named_param_get_locals [of s3 s] wf_calls_same [OF r(1) assms(1)]
    by (auto simp: same_calls_def locals_kept_def)
qed

lemma wf_calls_init: "wf_calls init_params"
  by (simp add: wf_calls_def init_params_def level_contexts_def)

text \<open>The main program has stored 1.0 to #1; the subroutine stores 2.0 to its own #1.\<close>

text \<open>
  C12. A subroutine call cannot disturb its caller: whatever parameters the body stores and
  whatever it calls in turn, once the call has returned the call level, the context, every
  local numbered parameter (1 to 30) and every local named parameter of the caller read as
  they did before the call, and no parameter of the callee's context is left allocated.
\<close>

theorem ngc_call_isolation:
  assumes "wf_calls s" "c \<notin> set (0 # level_contexts s)" "ngc_call_push c s = (True, s1)"
    "call_body s1 s2" "ngc_call_pop s2 = (b, s3)"
  shows "wf_calls s3 \<and> call_level s3 = call_level s \<and> call_context s3 = call_context s \<and>
    (\<forall>k. k \<le> 30 \<longrightarrow> ngc_param_get ro k s3 = ngc_param_get ro k s) \<and>
    (\<forall>n v0. cstr_at (ngc_name_tolower n) 0 \<noteq> CHR ''_'' \<longrightarrow>
       ngc_named_param_get g n v0 s3 = ngc_named_param_get g n v0 s) \<and>
    c \<notin> rw_context ` set (rw_params s3) \<union> nrw_context ` set (rw_global_params s3)"
  using assms by (rule call_isolation)

theorem ngc_call_isolation_witness:
  "\<exists>s0 s1 s2 s3 :: nat ngc_params. s0 = snd (ngc_param_set 1 f32_1 init_params) \<and>
     ngc_call_push 64 s0 = (True, s1) \<and> s2 = snd (ngc_param_set 1 0x40000000 s1) \<and>
     ngc_call_pop s2 = (False, s3) \<and> ngc_param_get (\<lambda>_. 0) 1 s2 = (True, 0x40000000) \<and>
     ngc_param_get (\<lambda>_. 0) 1 s3 = ngc_param_get (\<lambda>_. 0) 1 s0"
proof -
  define s0 :: "nat ngc_params" where "s0 = snd (ngc_param_set 1 f32_1 init_params)"
  define s1 where "s1 = snd (ngc_call_push 64 s0)"
  define s2 where "s2 = snd (ngc_param_set 1 0x40000000 s1)"
  define s3 where "s3 = snd (ngc_call_pop s2)"
  note d = s0_def s1_def s2_def s3_def ngc_param_set_def ngc_ro_params_def init_params_def malloc_def
    ngc_call_push_def ngc_call_pop_def NGC_MAX_CALL_LEVEL_def Let_def drop_context_params_def
    free_level_modal_def rw_match_def param_context_def ngc_param_get_def
  have "wf_calls s0" unfolding s0_def
    using wf_calls_same [OF same_calls_frame wf_calls_init] ngc_param_set_frame by metis
  moreover have "64 \<notin> set (0 # level_contexts s0)"
    by (simp add: s0_def level_contexts_def ngc_param_set_frame) (simp add: init_params_def)
  moreover have push: "ngc_call_push 64 s0 = (True, s1)" by (simp add: d f32_defs)
  moreover have "call_body s1 s2" unfolding s2_def by (intro body_set body_nil)
  moreover have pop: "ngc_call_pop s2 = (False, s3)" by (simp add: d f32_defs)
  ultimately have "ngc_param_get (\<lambda>_. 0) 1 s3 = ngc_param_get (\<lambda>_. 0) 1 s0"
    using ngc_call_isolation [of s0 64 s1 s2 False s3 "\<lambda>_. 0"] by simp
  moreover have "ngc_param_get (\<lambda>_. 0) 1 s2 = (True, 0x40000000)" by (simp add: d f32_defs f32_is_zero_def)
  ultimately show ?thesis using push pop s0_def s2_def by blast
qed

section \<open>Named and string parameters\<close>

lemma find_nrw_store_same:
  "find (nrw_match c n) ps \<noteq> None \<Longrightarrow>
   \<exists>p. find (nrw_match c n) (nrw_store (nrw_match c n) v ps) = Some p \<and> nrw_value p = v"
  by (induction ps) (auto simp: nrw_match_def)

lemma find_nrw_store_other:
  "n \<noteq> n' \<Longrightarrow> find (nrw_match c' n') (nrw_store (nrw_match c n) v ps) = find (nrw_match c' n') ps"
  by (induction ps) (auto simp: nrw_match_def)

text \<open>
  C35. Named parameters: what is stored under a name is read back under every spelling of
  it that differs in case or blanks only, all other names read as before; a store is
  refused exactly when no name is given, the name is longer than 30 characters or memory
  is exhausted, and then the parameters are unchanged. A store to a predefined (read-only)
  name also changes nothing, but it is not reported as refused: the result is not
  \<^verbatim>\<open>NULL\<close>.
\<close>

theorem ngc_named_param_set_get:
  assumes "ngc_named_param_set n v s = (r, s')"
  shows "(r = Set_ok \<longrightarrow> (\<forall>n' v0. ngc_named_param_get g n' v0 s' =
            (if ngc_name_tolower n' = ngc_name_tolower n then (True, v) else ngc_named_param_get g n' v0 s)))
    \<and> (r \<noteq> Set_ok \<longrightarrow> rw_global_params s' = rw_global_params s)
    \<and> (r = Set_bad_ptr \<longleftrightarrow> ngc_name_tolower n \<in> set ngc_named_ro_param)
    \<and> (r = Set_null \<longrightarrow> name_missing (ngc_name_tolower n) \<or> length (ngc_name_tolower n) > 30 \<or>
         (mallocs s \<noteq> [] \<and> \<not> hd (mallocs s)))"
proof -
  let ?n = "ngc_name_tolower n"
  let ?m = "nrw_match (named_context ?n s) ?n"
  have ro: "cstr_at x 0 = CHR ''_'' \<and> \<not> name_missing x" if "x \<in> set ngc_named_ro_param" for x
    using that unfolding ngc_named_ro_param_def by (auto simp: cstr_at_def name_missing_def NUL_def)
  have ctx: "named_context x s' = named_context x s" for x
    using ngc_named_param_set_frame(1) [of n v s] assms by (simp add: named_context_def)
  show ?thesis
  proof (cases "name_missing ?n \<or> ?n \<in> set ngc_named_ro_param \<or> length ?n > 30")
    case True
    then have "(r = Set_bad_ptr \<and> ?n \<in> set ngc_named_ro_param \<or>
        r = Set_null \<and> ?n \<notin> set ngc_named_ro_param) \<and> s' = s"
      using assms ro [of ?n]
      by (simp add: ngc_named_param_set_def Let_def NGC_MAX_PARAM_LENGTH_def split: if_splits) auto
    with True show ?thesis by auto
  next
    case False
    then have ok: "\<not> name_missing ?n" "?n \<notin> set ngc_named_ro_param" "length ?n \<le> 30" by auto
    show ?thesis
    proof (cases "find ?m (rw_global_params s)")
      case (Some q)
      then have r: "r = Set_ok" "rw_global_params s' = nrw_store ?m v (rw_global_params s)"
        using assms ok by (auto simp: ngc_named_param_set_def Let_def NGC_MAX_PARAM_LENGTH_def)
      obtain p where p: "find ?m (rw_global_params s') = Some p" "nrw_value p = v"
        using find_nrw_store_same [of _ _ "rw_global_params s" v] Some r(2) by auto
      have "find (nrw_match c x) (rw_global_params s') = find (nrw_match c x) (rw_global_params s)"
        if "x \<noteq> ?n" for c x
        using that by (simp add: r(2) find_nrw_store_other)
      with p r(1) ok show ?thesis by (auto simp: ngc_named_param_get_def Let_def ctx)
    next
      case None
      show ?thesis
      proof (cases "fst (malloc (mallocs s))")
        case True
        then have "r = Set_ok" "rw_global_params s' = rw_global_params s @
            [\<lparr>nrw_context = named_context ?n s, nrw_name = ?n, nrw_value = v\<rparr>]"
          using assms ok None
          by (auto simp: ngc_named_param_set_def Let_def NGC_MAX_PARAM_LENGTH_def case_prod_unfold)
        with None ok show ?thesis
          by (auto simp: ngc_named_param_get_def Let_def ctx find_append nrw_match_def split: option.split)
      next
        case False
        then have "r = Set_null" "rw_global_params s' = rw_global_params s"
          "mallocs s \<noteq> [] \<and> \<not> hd (mallocs s)"
          using assms ok None
          by (auto simp: ngc_named_param_set_def Let_def NGC_MAX_PARAM_LENGTH_def case_prod_unfold
              malloc_def split: list.splits)
        with ok show ?thesis by simp
      qed
    qed
  qed
qed

theorem ngc_named_param_set_get_witness:
  "ngc_named_param_get (\<lambda>_. 9) ''dEPTH'' 5 (snd (ngc_named_param_set ''Dep th'' f32_1 (init_params :: nat ngc_params))) = (True, f32_1) \<and>
   fst (ngc_named_param_set ''_vmajor'' f32_1 (init_params :: nat ngc_params)) = Set_bad_ptr"
proof -
  have n: "ngc_name_tolower ''Dep th'' = ''depth''" "ngc_name_tolower ''dEPTH'' = ''depth''"
    "ngc_name_tolower ''_vmajor'' = ''_vmajor''"
    by code_simp+
  have "ngc_named_param_set ''Dep th'' f32_1 (init_params :: nat ngc_params) =
      (Set_ok, snd (ngc_named_param_set ''Dep th'' f32_1 (init_params :: nat ngc_params)))"
    by (simp add: ngc_named_param_set_def n name_missing_def cstr_at_def NUL_def
        NGC_MAX_PARAM_LENGTH_def init_params_def malloc_def Let_def)
  note a = ngc_named_param_set_get [OF this, of "\<lambda>_. 9"]
  have "ngc_named_param_set ''_vmajor'' f32_1 (init_params :: nat ngc_params) =
      (fst (ngc_named_param_set ''_vmajor'' f32_1 (init_params :: nat ngc_params)), snd (ngc_named_param_set ''_vmajor'' f32_1 (init_params :: nat ngc_params)))"
    by simp
  note b = ngc_named_param_set_get [OF this, of "\<lambda>_. 9"]
  from a b show ?thesis by (simp add: n ngc_named_ro_param_def)
qed

lemma find_sp_store_same:
  "find (\<lambda>sp. sp_id sp = k) ps \<noteq> None \<Longrightarrow> (\<And>p. sp_id (f p) = sp_id p) \<Longrightarrow>
   find (\<lambda>sp. sp_id sp = k) (sp_store k f ps) = map_option f (find (\<lambda>sp. sp_id sp = k) ps)"
  by (induction ps) auto

lemma find_sp_store_other:
  "k \<noteq> k' \<Longrightarrow> (\<And>p. sp_id (f p) = sp_id p) \<Longrightarrow>
   find (\<lambda>sp. sp_id sp = k') (sp_store k f ps) = find (\<lambda>sp. sp_id sp = k') ps"
  by (induction ps) auto

lemma find_sp_remove_other:
  "k \<noteq> k' \<Longrightarrow> find (\<lambda>sp. sp_id sp = k') (sp_remove k ps) = find (\<lambda>sp. sp_id sp = k') ps"
  by (induction ps) auto

text \<open>No two string parameters share an id, and every value fits its allocation.\<close>

definition wf_strings :: "'m ngc_params \<Rightarrow> bool" where
  "wf_strings s \<longleftrightarrow> distinct (map sp_id (ngc_string_params s)) \<and>
     (\<forall>sp\<in>set (ngc_string_params s). length (sp_value sp) \<le> sp_len sp \<and> sp_len sp \<le> 255)"

lemma find_sp_remove_same:
  "distinct (map sp_id ps) \<Longrightarrow> find (\<lambda>sp. sp_id sp = k) (sp_remove k ps) = None"
proof (induction ps)
  case (Cons p ps)
  then show ?case by (auto simp: find_None_iff) (metis image_eqI)
qed simp

lemma map_sp_store: "(\<And>p. sp_id (f p) = sp_id p) \<Longrightarrow> map sp_id (sp_store k f ps) = map sp_id ps"
  by (induction ps) auto

lemma set_sp_store:
  "(\<And>p. p \<in> set ps \<Longrightarrow> sp_id p = k \<Longrightarrow> P (f p)) \<Longrightarrow> (\<forall>p\<in>set ps. P p) \<Longrightarrow> \<forall>p\<in>set (sp_store k f ps). P p"
  by (induction ps) auto

lemma set_sp_remove: "set (sp_remove k ps) \<subseteq> set ps"
  by (induction ps) auto

lemma distinct_sp_remove: "distinct (map sp_id ps) \<Longrightarrow> distinct (map sp_id (sp_remove k ps))"
proof (induction ps)
  case (Cons p ps)
  then show ?case using set_sp_remove [of k ps] by auto
qed simp

lemma find_sp_unique:
  "distinct (map sp_id ps) \<Longrightarrow> p \<in> set ps \<Longrightarrow> find (\<lambda>sp. sp_id sp = sp_id p) ps = Some p"
  by (induction ps) (auto simp: image_iff)

lemma sp_set_cases:
  obtains (put) f where "fst (sp_set k v s) = Some k" "length v \<le> 255"
      "ngc_string_params (snd (sp_set k v s)) = sp_store k f (ngc_string_params s)"
      "find (\<lambda>sp. sp_id sp = k) (ngc_string_params s) \<noteq> None" "\<And>p. sp_id (f p) = sp_id p" "\<And>p. sp_value (f p) = v"
      "\<And>p. find (\<lambda>sp. sp_id sp = k) (ngc_string_params s) = Some p \<Longrightarrow> sp_len p \<le> 255 \<Longrightarrow>
         length v \<le> sp_len (f p) \<and> sp_len (f p) \<le> 255"
  | (new) "fst (sp_set k v s) = Some k" "length v \<le> 255"
      "find (\<lambda>sp. sp_id sp = k) (ngc_string_params s) = None"
      "ngc_string_params (snd (sp_set k v s)) = ngc_string_params s @ [\<lparr>sp_id = k, sp_len = length v, sp_value = v\<rparr>]"
  | (del) "fst (sp_set k v s) = None"
      "ngc_string_params (snd (sp_set k v s)) = sp_remove k (ngc_string_params s)"
      "find (\<lambda>sp. sp_id sp = k) (ngc_string_params s) \<noteq> None"
  | (fail) "fst (sp_set k v s) = None" "ngc_string_params (snd (sp_set k v s)) = ngc_string_params s"
      "find (\<lambda>sp. sp_id sp = k) (ngc_string_params s) = None"
proof (cases "find (\<lambda>sp. sp_id sp = k) (ngc_string_params s)")
  case None
  with new fail show thesis
    by (cases "length v \<le> 255"; cases "fst (malloc (mallocs s))")
      (simp_all add: sp_set_def Let_def case_prod_unfold)
next
  case (Some p)
  show thesis
  proof (cases "length v \<le> 255")
    case False
    with Some del show thesis by (simp add: sp_set_def Let_def ngc_string_param_delete_def)
  next
    case True
    show thesis
    proof (cases "length v > sp_len p")
      case False
      with True Some show thesis
        by (intro put [of "\<lambda>p. p\<lparr>sp_value := v\<rparr>"]) (simp_all add: sp_set_def Let_def)
    next
      case long: True
      show thesis
      proof (cases "fst (malloc (mallocs s))")
        case ok: True
        from True Some long ok show thesis
          by (intro put [of "\<lambda>p. p\<lparr>sp_len := length v, sp_value := v\<rparr>"])
            (simp_all add: sp_set_def Let_def case_prod_unfold)
      next
        case False
        with True Some long del show thesis
          by (simp add: sp_set_def Let_def case_prod_unfold ngc_string_param_delete_def)
      qed
    qed
  qed
qed

lemma sp_set_wf: "wf_strings s \<Longrightarrow> wf_strings (snd (sp_set k v s))"
proof (cases rule: sp_set_cases [of k v s])
  case (put f)
  assume wf: "wf_strings s"
  let ?P = "\<lambda>sp. length (sp_value sp) \<le> sp_len sp \<and> sp_len sp \<le> 255"
  have "\<forall>p\<in>set (sp_store k f (ngc_string_params s)). ?P p"
  proof (rule set_sp_store)
    fix p assume "p \<in> set (ngc_string_params s)" "sp_id p = k"
    then show "?P (f p)" using find_sp_unique [of "ngc_string_params s" p] wf put(6,7)
      by (simp add: wf_strings_def)
  qed (use wf in \<open>simp add: wf_strings_def\<close>)
  with wf put(3,5) show ?thesis by (simp add: wf_strings_def map_sp_store)
next
  case new
  assume wf: "wf_strings s"
  with new show ?thesis by (auto simp: wf_strings_def find_None_iff)
next
  case del
  assume wf: "wf_strings s"
  with del(2) set_sp_remove [of k "ngc_string_params s"] show ?thesis
    by (auto simp: wf_strings_def distinct_sp_remove)
qed (simp add: wf_strings_def)

lemma sp_set_get:
  assumes "wf_strings s"
  shows "ngc_string_param_get k' (snd (sp_set k v s)) =
    (if k' = k then (if fst (sp_set k v s) = None then None else Some v) else ngc_string_param_get k' s)"
proof (cases rule: sp_set_cases [of k v s])
  case (put f)
  then show ?thesis
    using find_sp_store_same [OF put(4,5)] find_sp_store_other [of k k' f] put(5,6)
    by (auto simp: ngc_string_param_get_def option.map_comp comp_def)
next
  case new
  then show ?thesis by (auto simp: ngc_string_param_get_def find_append split: option.split)
next
  case del
  then show ?thesis using assms
    by (auto simp: ngc_string_param_get_def wf_strings_def find_sp_remove_same find_sp_remove_other)
next
  case fail
  then show ?thesis by (auto simp: ngc_string_param_get_def)
qed

lemma sp_set_ref_id [simp]: "ref_id (snd (sp_set k v s)) = ref_id s"
  by (simp add: sp_set_def Let_def case_prod_unfold ngc_string_param_delete_def split: option.split)

text \<open>The references handed out for interned names are all at or above \<^verbatim>\<open>ref_id\<close>.\<close>

definition wf_refs :: "'m ngc_params \<Rightarrow> bool" where
  "wf_refs s \<longleftrightarrow> wf_strings s \<and>
     (\<forall>sp\<in>set (ngc_string_params s). sp_id sp > NGC_MAX_PARAM_ID \<longrightarrow> ref_id s \<le> sp_id sp)"

lemma find_SomeD: "find P xs = Some x \<Longrightarrow> x \<in> set xs \<and> P x"
  by (induction xs) (auto split: if_splits)

text \<open>
  C36. Interning of names: the reference returned for a name denotes that name, every
  reference handed out before keeps denoting what it did, and interning the name again
  returns the same reference and changes nothing. The invariants that ids are unique and
  that every string fits its allocation are kept. (A reference of 0 means that the name was
  empty, was too long or could not be stored.)
\<close>

theorem ngc_string_param_interned:
  assumes "wf_refs s" "ref_id s > NGC_MAX_PARAM_ID + 1" "ngc_string_param_set_name name s = (k, s')"
  shows "wf_refs s' \<and>
    (k \<noteq> 0 \<longrightarrow> ngc_string_param_get k s' = Some name \<and> ngc_string_param_set_name name s' = (k, s')) \<and>
    (\<forall>j x. ngc_string_param_get j s = Some x \<longrightarrow> ngc_string_param_get j s' = Some x)"
proof (cases "name = []")
  case True
  with assms show ?thesis by (simp add: ngc_string_param_set_name_def)
next
  case ne: False
  have ws: "wf_strings s" using assms(1) by (simp add: wf_refs_def)
  show ?thesis
  proof (cases "sp_get_by_name name s")
    case (Some sp)
    then have s': "s' = s" and k: "k = sp_id sp" using ne assms(3) by (auto simp: ngc_string_param_set_name_def)
    from Some have sp: "sp \<in> set (ngc_string_params s)" "sp_value sp = name"
      by (auto simp: sp_get_by_name_def dest: find_SomeD)
    then have "find (\<lambda>q. sp_id q = k) (ngc_string_params s) = Some sp"
      using find_sp_unique ws k by (auto simp: wf_strings_def)
    with s' sp(2) assms show ?thesis by (simp add: ngc_string_param_get_def)
  next
    case None
    define r where "r = ref_id s - 1"
    define s1 where "s1 = s\<lparr>ref_id := r\<rparr>"
    define t where "t = snd (sp_set r name s1)"
    have lt: "r < ref_id s" "r > NGC_MAX_PARAM_ID" "r \<noteq> 0"
      using assms(2) unfolding r_def NGC_MAX_PARAM_ID_def by (simp_all add: word_less_nat_alt unat_sub_if' unat_eq_zero word_unat_eq_iff)
    have ws1: "wf_strings s1" using ws by (simp add: s1_def wf_strings_def)
    have s': "s' = t" and k: "k = (case fst (sp_set r name s1) of Some i \<Rightarrow> i | None \<Rightarrow> 0)"
      using None ne assms(3)
      by (auto simp: ngc_string_param_set_name_def t_def s1_def r_def case_prod_unfold Let_def split: option.splits)
    have fresh: "find (\<lambda>sp. sp_id sp = r) (ngc_string_params s) = None"
      using assms(1) lt by (force simp: find_None_iff wf_refs_def)
    have wt: "wf_strings t" unfolding t_def using ws1 by (rule sp_set_wf)
    have g: "ngc_string_param_get j t =
        (if j = r then (if fst (sp_set r name s1) = None then None else Some name) else ngc_string_param_get j s)" for j
      unfolding t_def using sp_set_get [OF ws1] by (simp add: s1_def ngc_string_param_get_def)
    have keep: "ngc_string_param_get j s = Some x \<Longrightarrow> ngc_string_param_get j t = Some x" for j x
      using fresh unfolding g by (auto simp: ngc_string_param_get_def)
    have rt: "ref_id t = r" by (simp add: t_def s1_def)
    have f1: "find (\<lambda>sp. sp_id sp = r) (ngc_string_params s1) = None" using fresh by (simp add: s1_def)
    show ?thesis
    proof (cases rule: sp_set_cases [of r name s1])
      case new
      let ?e = "\<lparr>sp_id = r, sp_len = length name, sp_value = name\<rparr>"
      have t: "ngc_string_params t = ngc_string_params s @ [?e]" using new(4) by (simp add: t_def s1_def)
      have "sp_get_by_name name t = Some ?e"
        using None lt(2) by (simp add: sp_get_by_name_def t find_append)
      then have "ngc_string_param_set_name name t = (r, t)"
        using ne by (simp add: ngc_string_param_set_name_def)
      moreover have "wf_refs t"
        using wt assms(1) lt(1) by (auto simp: wf_refs_def rt t intro: order.trans less_imp_le)
      ultimately show ?thesis using keep new(1) g k s' by simp
    next
      case fail
      have "wf_refs t"
        using wt assms(1) lt(1) fail(2)
        by (auto simp: wf_refs_def rt) (auto simp: t_def s1_def intro: order.trans less_imp_le)
      then show ?thesis using keep fail(1) k s' by simp
    qed (use f1 in auto)
  qed
qed

theorem ngc_string_param_interned_witness:
  "\<exists>s1 s2 :: nat ngc_params. ngc_string_param_set_name ''abc'' init_params = (0xFFFFFFFE, s1) \<and>
     ngc_string_param_set_name ''de'' s1 = (0xFFFFFFFD, s2) \<and>
     ngc_string_param_get 0xFFFFFFFE s2 = Some ''abc'' \<and> ngc_string_param_get 0xFFFFFFFD s2 = Some ''de''"
proof -
  define s1 :: "nat ngc_params" where "s1 = snd (ngc_string_param_set_name ''abc'' init_params)"
  define s2 where "s2 = snd (ngc_string_param_set_name ''de'' s1)"
  note d = s2_def s1_def ngc_string_param_set_name_def sp_get_by_name_def init_params_def sp_set_def
    malloc_def NGC_MAX_PARAM_ID_def Let_def
  have a: "ngc_string_param_set_name ''abc'' init_params = (0xFFFFFFFE, s1)" by (simp add: d)
  have "wf_refs (init_params :: nat ngc_params)" "ref_id (init_params :: nat ngc_params) > NGC_MAX_PARAM_ID + 1"
    by (simp_all add: wf_refs_def wf_strings_def init_params_def NGC_MAX_PARAM_ID_def)
  note 1 = ngc_string_param_interned [OF this a]
  have b: "ngc_string_param_set_name ''de'' s1 = (0xFFFFFFFD, s2)" by (simp add: d)
  have "ref_id s1 > NGC_MAX_PARAM_ID + 1" by (simp add: d)
  note 2 = ngc_string_param_interned [OF conjunct1 [OF 1] this b]
  from 1 2 a b show ?thesis by (intro exI [of _ s1] exI [of _ s2]) simp
qed

end
