(* ===== verification/Stream_file.thy ===== *)
theory Stream_file
  imports Prelude
begin

text \<open>
  Redirection of program input to files, \<^verbatim>\<open>grbl/stream_file.c\<close>. The file systems are behind the
  operations of \<^verbatim>\<open>vfs_t\<close> (\<^verbatim>\<open>grbl/vfs.h\<close>): they are an argument \<open>vfs\<close> of the model, a record of
  functions on a state \<open>fs\<close> of a type variable. Function pointers that the code stores and
  compares (the read function of the active stream, the handlers of a redirected file) are
  values of the datatypes below.
\<close>

section \<open>Data\<close>

record 'f vfs_t =
  vfs_open :: "string \<Rightarrow> 'f \<Rightarrow> ptr \<times> 'f"
  vfs_close :: "ptr \<Rightarrow> 'f \<Rightarrow> 'f"
  vfs_read :: "ptr \<Rightarrow> 'f \<Rightarrow> u8 option \<times> 'f"
  vfs_tell :: "ptr \<Rightarrow> 'f \<Rightarrow> nat"
  vfs_seek :: "ptr \<Rightarrow> nat \<Rightarrow> 'f \<Rightarrow> 'f"

datatype stream_type =
    StreamType_Serial | StreamType_MPG | StreamType_Bluetooth | StreamType_Telnet
  | StreamType_WebSocket | StreamType_File | StreamType_Redirected
  | StreamType_Null

datatype stream_read_ptr = Stream_read_file | Read_other nat

datatype handler = Handler_none | Handler_named_sub | Handler_other nat

record rd_stream =
  rd_file_new :: ptr
  rd_file :: ptr
  rd_line_number :: u32
  rd_read :: stream_read_ptr
  rd_type :: stream_type
  rd_status_handler :: handler
  rd_eof_handler :: handler

text \<open>\<open>hal_*\<close> are fields of \<^verbatim>\<open>hal.stream\<close>, \<open>file_stream\<close> and \<open>last_error\<close> of \<^verbatim>\<open>gc_state\<close>; \<open>error_handler_ok\<close>
  tells whether the report and event handlers of this file have been installed.\<close>

record 'f sfile =
  line_number :: u32
  rd_streams :: "rd_stream list"
  eol_ok :: bool
  error_handler_ok :: bool
  hal_file :: ptr
  hal_type :: stream_type
  hal_read :: stream_read_ptr
  file_stream :: bool
  last_error :: u8
  fs :: 'f
  sf_mallocs :: "bool list"

definition ASCII_LF :: int where "ASCII_LF = 0x0A"

definition ASCII_CR :: int where "ASCII_CR = 0x0D"

definition ASCII_EOF :: int where "ASCII_EOF = 0x1A"

definition SERIAL_NO_DATA :: int where "SERIAL_NO_DATA = -1"

section \<open>Operations\<close>


text \<open>\<open>prev\<close> is the handler that was installed before, if any.\<close>

definition onLineNumberAssigned :: "(u32 \<Rightarrow> u32) option \<Rightarrow> u32 \<Rightarrow> 'f sfile \<Rightarrow> u32 \<times> 'f sfile" where
  "onLineNumberAssigned prev pline_number s =
     (let (n, s1) =
        (if rd_streams s \<noteq> []
         then if pline_number \<noteq> 0 then (pline_number, s\<lparr>line_number := pline_number\<rparr>)
              else (line_number s, s)
         else (pline_number, s))
      in (case prev of Some f \<Rightarrow> (f n, s1) | None \<Rightarrow> (n, s1)))"

text \<open>The handlers are those of the last redirected file; \<open>run\<close> runs a handler.\<close>

definition onFileEnd :: "(handler \<Rightarrow> ptr \<Rightarrow> u8 \<Rightarrow> 's \<Rightarrow> 's) \<Rightarrow> (ptr \<Rightarrow> u8 \<Rightarrow> 's \<Rightarrow> 's) option \<Rightarrow>
    ('s \<Rightarrow> 'f sfile) \<Rightarrow> ptr \<Rightarrow> u8 \<Rightarrow> 's \<Rightarrow> u8 \<times> 's" where
  "onFileEnd run prev get file status s =
     (let s1 =
        (if rd_streams (get s) \<noteq> [] \<and> rd_eof_handler (last (rd_streams (get s))) \<noteq> Handler_none
         then run (rd_eof_handler (last (rd_streams (get s)))) file status s
         else s)
      in (status, case prev of Some f \<Rightarrow> f file status s1 | None \<Rightarrow> s1))"

definition trap_status_messages :: "(handler \<Rightarrow> u8 \<Rightarrow> 's \<Rightarrow> u8 \<times> 's) \<Rightarrow> (u8 \<Rightarrow> 's \<Rightarrow> u8 \<times> 's) \<Rightarrow>
    ('s \<Rightarrow> 'f sfile) \<Rightarrow> (u8 \<Rightarrow> 's \<Rightarrow> 's) \<Rightarrow> u8 \<Rightarrow> 's \<Rightarrow> u8 \<times> 's" where
  "trap_status_messages run status_message get set_last_error status s =
     (let s1 = set_last_error status s
      in if rd_streams (get s1) = [] then status_message status s1
         else if \<not> (status = 0 \<or> status = 255)
         then let h = rd_status_handler (last (rd_streams (get s1)))
              in if h \<noteq> Handler_none then run h status s1 else (status, s1)
         else (status, s1))"

definition stream_set_type :: "stream_type \<Rightarrow> ptr \<Rightarrow> 'f sfile \<Rightarrow> 'f sfile" where
  "stream_set_type type file s =
     (let s1 = s\<lparr>hal_type := type, hal_file := file\<rparr>
      in if file = 0 then s1\<lparr>file_stream := False\<rparr> else s1)"

definition stream_is_file :: "'f sfile \<Rightarrow> bool" where
  "stream_is_file s \<longleftrightarrow> hal_type s = StreamType_File"

definition stream_redirect_read ::
    "'f vfs_t \<Rightarrow> string \<Rightarrow> handler \<Rightarrow> handler \<Rightarrow> 'f sfile \<Rightarrow> ptr \<times> 'f sfile" where
  "stream_redirect_read vfs filename status_handler eof_handler s =
     (let (file, f) = vfs_open vfs filename (fs s); s1 = s\<lparr>fs := f\<rparr>
      in if file \<noteq> 0
         then
           let (ok, rest) = malloc (sf_mallocs s1); s2 = s1\<lparr>sf_mallocs := rest\<rparr>
           in if ok
              then
                let rd = \<lparr>rd_file_new = file, rd_file = hal_file s2,
                          rd_line_number = (if rd_streams s2 \<noteq> [] then line_number s2 else 0),
                          rd_read = hal_read s2, rd_type = hal_type s2,
                          rd_status_handler = status_handler, rd_eof_handler = eof_handler\<rparr>;
                    s3 = stream_set_type StreamType_File file (s2\<lparr>hal_read := Stream_read_file\<rparr>)
                in (file, s3\<lparr>rd_streams := rd_streams s3 @ [rd], line_number := 0,
                             error_handler_ok := True\<rparr>)
              else (0, s2\<lparr>fs := vfs_close vfs file (fs s2)\<rparr>)
         else (0, s1))"

text \<open>\<^verbatim>\<open>grbl.on_line_number_assigned\<close> is this file's handler once it is installed, before that
  whatever was installed (\<open>prev\<close>); its result is not used here.\<close>

definition stream_reposition :: "'f vfs_t \<Rightarrow> ptr \<Rightarrow> nat \<Rightarrow> u32 \<Rightarrow> 'f sfile \<Rightarrow> 'f sfile" where
  "stream_reposition vfs file pos lnr s =
     (let s1 = s\<lparr>fs := vfs_seek vfs file pos (fs s)\<rparr>
      in if lnr \<noteq> 0 \<and> error_handler_ok s1 then snd (onLineNumberAssigned None lnr s1) else s1)"

definition close_stream :: "'f vfs_t \<Rightarrow> rd_stream \<Rightarrow> 'f sfile \<Rightarrow> 'f sfile" where
  "close_stream vfs rd s =
     (let s1 = s\<lparr>fs := vfs_close vfs (rd_file_new rd) (fs s), hal_read := rd_read rd\<rparr>;
          s2 = (if rd_read rd = Stream_read_file then s1\<lparr>line_number := rd_line_number rd\<rparr> else s1)
      in stream_set_type (rd_type rd) (rd_file rd) s2)"

fun unlink_stream :: "ptr \<Rightarrow> rd_stream list \<Rightarrow> (rd_stream \<times> rd_stream list) option" where
  "unlink_stream file [] = None"
| "unlink_stream file (rd # rds) =
     (if rd_file_new rd = file then Some (rd, rds)
      else map_option (\<lambda>(r, l). (r, rd # l)) (unlink_stream file rds))"

definition stream_redirect_close :: "'f vfs_t \<Rightarrow> ptr \<Rightarrow> 'f sfile \<Rightarrow> 'f sfile" where
  "stream_redirect_close vfs file s =
     (case unlink_stream file (rd_streams s) of
        Some (rd, rest) \<Rightarrow> (close_stream vfs rd s)\<lparr>rd_streams := rest\<rparr>
      | None \<Rightarrow> s)"

section \<open>Reading a file\<close>



definition is_eol :: "u8 \<Rightarrow> bool" where
  "is_eol b \<longleftrightarrow> b = 0x0A \<or> b = 0x0D"

text \<open>The lines of a file: the parts between its line terminators.\<close>

fun split_lines :: "u8 list \<Rightarrow> u8 list list" where
  "split_lines [] = [[]]"
| "split_lines (b # bs) =
     (if is_eol b then [] # split_lines bs
      else case split_lines bs of l # ls \<Rightarrow> (b # l) # ls | [] \<Rightarrow> [[b]])"


definition lf_only :: "int \<Rightarrow> int" where
  "lf_only c = (if c = ASCII_CR then ASCII_LF else c)"

lemma split_lines_ne [simp]: "split_lines bs \<noteq> []"
  by (induction bs) (auto split: list.split)



lemma uint_ne_no_data [simp]: "uint (b :: u8) \<noteq> SERIAL_NO_DATA"
  unfolding SERIAL_NO_DATA_def using uint_ge_0 [of b] by linarith

lemma read_ctrl [simp]: "ASCII_EOF \<noteq> SERIAL_NO_DATA" "ASCII_LF \<noteq> SERIAL_NO_DATA"
  "lf_only ASCII_EOF = ASCII_EOF" "lf_only ASCII_LF = ASCII_LF"
  by (simp_all add: ASCII_EOF_def ASCII_LF_def SERIAL_NO_DATA_def lf_only_def ASCII_CR_def)



definition read_seen :: "int list \<Rightarrow> int list" where
  "read_seen cs = map lf_only (filter (\<lambda>c. c \<noteq> SERIAL_NO_DATA) cs)"

lemma read_seen_simps [simp]:
  "read_seen [] = []" "read_seen (c # cs) = (if c = SERIAL_NO_DATA then [] else [lf_only c]) @ read_seen cs"
  by (simp_all add: read_seen_def)







text \<open>A file system with one file, whose bytes are not shared with anything else.\<close>

definition mem_vfs :: "u8 list vfs_t" where
  "mem_vfs = \<lparr>vfs_open = \<lambda>_ f. (1, f), vfs_close = \<lambda>_ f. f,
     vfs_read = \<lambda>_ f. (case f of [] \<Rightarrow> (None, []) | b # r \<Rightarrow> (Some b, r)),
     vfs_tell = \<lambda>_ f. length f, vfs_seek = \<lambda>_ _ f. f\<rparr>"

definition mem_sfile :: "u8 list \<Rightarrow> u8 list sfile" where
  "mem_sfile bs = \<lparr>line_number = 0, rd_streams = [], eol_ok = False, error_handler_ok = False,
     hal_file = 1, hal_type = StreamType_File, hal_read = Stream_read_file, file_stream = True,
     last_error = 0, fs = bs, sf_mallocs = []\<rparr>"


section \<open>Nested redirection\<close>

lemma unlink_stream_last:
  "file \<notin> rd_file_new ` set rds \<Longrightarrow> rd_file_new rd = file \<Longrightarrow> unlink_stream file (rds @ [rd]) = Some (rd, rds)"
  by (induction rds) auto

lemma stream_set_type_sel [simp]:
  "rd_streams (stream_set_type t f s) = rd_streams s" "hal_file (stream_set_type t f s) = f"
  "hal_type (stream_set_type t f s) = t" "hal_read (stream_set_type t f s) = hal_read s"
  "line_number (stream_set_type t f s) = line_number s" "fs (stream_set_type t f s) = fs s"
  by (simp_all add: stream_set_type_def Let_def)

text \<open>
  C29. Redirections nest: opening a file makes it the program input, and closing it, at any
  later time when the redirections that were active at its opening and its own are the
  active ones, makes the stream it was opened from the input again: its read function,
  type and file, its line number if it is a file that is being read, and the list of
  redirections are those of before the opening. When the file or its descriptor cannot be
  had the input stays as it is and nothing stays open.
\<close>

theorem stream_redirect_nested:
  assumes "stream_redirect_read vfs name sh eh s = (file, s1)"
  shows "(file \<noteq> 0 \<longrightarrow> hal_file s1 = file \<and> hal_read s1 = Stream_read_file \<and> stream_is_file s1 \<and> line_number s1 = 0 \<and>
      (\<forall>s2. file \<notin> rd_file_new ` set (rd_streams s) \<and> rd_streams s2 = rd_streams s1 \<longrightarrow>
        (let s3 = stream_redirect_close vfs file s2
         in hal_file s3 = hal_file s \<and> hal_type s3 = hal_type s \<and> hal_read s3 = hal_read s \<and>
            rd_streams s3 = rd_streams s \<and> fs s3 = vfs_close vfs file (fs s2) \<and>
            (hal_read s = Stream_read_file \<and> rd_streams s \<noteq> [] \<longrightarrow> line_number s3 = line_number s)))) \<and>
    (file = 0 \<longrightarrow> hal_file s1 = hal_file s \<and> hal_type s1 = hal_type s \<and> hal_read s1 = hal_read s \<and>
      rd_streams s1 = rd_streams s \<and> line_number s1 = line_number s \<and>
      (fs s1 = snd (vfs_open vfs name (fs s)) \<or>
       fs s1 = vfs_close vfs (fst (vfs_open vfs name (fs s))) (snd (vfs_open vfs name (fs s)))))"
proof (cases "file = 0")
  case True
  with assms show ?thesis
    by (auto simp: stream_redirect_read_def Let_def case_prod_unfold split: if_splits)
next
  case False
  let ?rd = "\<lparr>rd_file_new = file, rd_file = hal_file s,
       rd_line_number = (if rd_streams s \<noteq> [] then line_number s else 0),
       rd_read = hal_read s, rd_type = hal_type s, rd_status_handler = sh, rd_eof_handler = eh\<rparr>"
  from assms False have s1: "rd_streams s1 = rd_streams s @ [?rd]" "hal_file s1 = file"
    "hal_read s1 = Stream_read_file" "stream_is_file s1" "line_number s1 = 0"
    by (auto simp: stream_redirect_read_def Let_def case_prod_unfold stream_is_file_def split: if_splits)
  have "let s3 = stream_redirect_close vfs file s2
         in hal_file s3 = hal_file s \<and> hal_type s3 = hal_type s \<and> hal_read s3 = hal_read s \<and>
            rd_streams s3 = rd_streams s \<and> fs s3 = vfs_close vfs file (fs s2) \<and>
            (hal_read s = Stream_read_file \<and> rd_streams s \<noteq> [] \<longrightarrow> line_number s3 = line_number s)"
    if "file \<notin> rd_file_new ` set (rd_streams s)" "rd_streams s2 = rd_streams s1" for s2
    using that
    by (simp add: s1(1) unlink_stream_last stream_redirect_close_def Let_def close_stream_def)
  with s1 False show ?thesis by simp
qed

theorem stream_redirect_nested_witness:
  "\<exists>s1. stream_redirect_read mem_vfs ''/a.macro'' Handler_named_sub Handler_named_sub
          ((mem_sfile [])\<lparr>hal_file := 0, hal_type := StreamType_Serial, hal_read := Read_other 0\<rparr>) = (1, s1) \<and>
     hal_file s1 = 1 \<and> hal_file (stream_redirect_close mem_vfs 1 s1) = 0 \<and>
     hal_read (stream_redirect_close mem_vfs 1 s1) = Read_other 0"
proof -
  let ?s = "(mem_sfile [])\<lparr>hal_file := 0, hal_type := StreamType_Serial, hal_read := Read_other 0\<rparr>"
  define s1 where "s1 = snd (stream_redirect_read mem_vfs ''/a.macro'' Handler_named_sub Handler_named_sub ?s)"
  have o: "stream_redirect_read mem_vfs ''/a.macro'' Handler_named_sub Handler_named_sub ?s = (1, s1)"
    by (simp add: s1_def stream_redirect_read_def mem_vfs_def mem_sfile_def malloc_def Let_def)
  from stream_redirect_nested [OF o] have "hal_file s1 = 1" 
    "\<forall>s2. 1 \<notin> rd_file_new ` set (rd_streams ?s) \<and> rd_streams s2 = rd_streams s1 \<longrightarrow>
       (let s3 = stream_redirect_close mem_vfs 1 s2 in hal_file s3 = hal_file ?s \<and> hal_read s3 = hal_read ?s)"
    by (auto simp: Let_def)
  with o show ?thesis
    by (auto simp: Let_def mem_sfile_def)
qed

end
