(* ===== verification/Status.thy ===== *)
theory Status
  imports Prelude
begin

text \<open>
  The status codes of \<^verbatim>\<open>grbl/errors.h\<close> that the modelled modules return, as the bytes they are.
\<close>

abbreviation Status_OK :: u8 where "Status_OK \<equiv> 0"

definition Status_BadNumberFormat :: u8 where "Status_BadNumberFormat = 2"

definition Status_NegativeValue :: u8 where "Status_NegativeValue = 4"

definition Status_GcodeUnsupportedCommand :: u8 where "Status_GcodeUnsupportedCommand = 20"

definition Status_GcodeCommandValueNotInteger :: u8 where "Status_GcodeCommandValueNotInteger = 23"

definition Status_GcodeValueOutOfRange :: u8 where "Status_GcodeValueOutOfRange = 39"

definition Status_ExpressionUknownOp :: u8 where "Status_ExpressionUknownOp = 71"

definition Status_ExpressionDivideByZero :: u8 where "Status_ExpressionDivideByZero = 72"

definition Status_ExpressionArgumentOutOfRange :: u8 where "Status_ExpressionArgumentOutOfRange = 73"

definition Status_ExpressionInvalidArgument :: u8 where "Status_ExpressionInvalidArgument = 74"

definition Status_ExpressionSyntaxError :: u8 where "Status_ExpressionSyntaxError = 75"

definition Status_ExpressionInvalidResult :: u8 where "Status_ExpressionInvalidResult = 76"

definition Status_FlowControlNotExecutingMacro :: u8 where "Status_FlowControlNotExecutingMacro = 80"

definition Status_FlowControlSyntaxError :: u8 where "Status_FlowControlSyntaxError = 81"

definition Status_FlowControlStackOverflow :: u8 where "Status_FlowControlStackOverflow = 82"

definition Status_FlowControlOutOfMemory :: u8 where "Status_FlowControlOutOfMemory = 83"

definition Status_FileOpenFailed :: u8 where "Status_FileOpenFailed = 84"

definition Status_UserException :: u8 where "Status_UserException = 253"

lemmas flow_status =
  Status_FlowControlNotExecutingMacro_def Status_FlowControlSyntaxError_def
  Status_FlowControlStackOverflow_def Status_FlowControlOutOfMemory_def Status_FileOpenFailed_def
  Status_UserException_def

lemmas expr_status =
  Status_BadNumberFormat_def Status_NegativeValue_def Status_GcodeUnsupportedCommand_def
  Status_GcodeCommandValueNotInteger_def Status_GcodeValueOutOfRange_def Status_ExpressionUknownOp_def
  Status_ExpressionDivideByZero_def Status_ExpressionArgumentOutOfRange_def
  Status_ExpressionInvalidArgument_def Status_ExpressionSyntaxError_def
  Status_ExpressionInvalidResult_def Status_FlowControlSyntaxError_def

end
