(* ===== verification/Ngc_flowctrl.thy ===== *)
theory Ngc_flowctrl
  imports Ngc_params Stream_file Status
begin

text \<open>
  Flow control of the G-code interpreter, \<^verbatim>\<open>grbl/ngc_flowctrl.c\<close>: conditionals, loops and
  subroutines by O-words. The interpreter keeps a stack of 20 entries and a list of known
  subroutines; loops and calls reposition the file the program is read from. The file
  systems, the expression evaluator and the previously installed handlers are in an
  environment record that every operation takes. Reads of \<^verbatim>\<open>stack[-1]\<close>, which the code does when
  the stack is empty, give the entry \<open>env_mem\<close> of the environment; a variable of the code
  that is read before it is set has the value \<open>env_junk\<close>.
\<close>

section \<open>Data\<close>

definition NGC_STACK_DEPTH :: int where
  "NGC_STACK_DEPTH = 20"

datatype ngc_cmd =
    NGCFlowCtrl_NoOp | NGCFlowCtrl_If | NGCFlowCtrl_ElseIf | NGCFlowCtrl_Else | NGCFlowCtrl_EndIf
  | NGCFlowCtrl_Do | NGCFlowCtrl_Continue | NGCFlowCtrl_Break | NGCFlowCtrl_While
  | NGCFlowCtrl_EndWhile | NGCFlowCtrl_Repeat | NGCFlowCtrl_EndRepeat | NGCFlowCtrl_Sub
  | NGCFlowCtrl_EndSub | NGCFlowCtrl_Call | NGCFlowCtrl_Return | NGCFlowCtrl_RaiseAlarm
  | NGCFlowCtrl_RaiseError

record ngc_sub =
  sub_addr :: ptr
  sub_o_label :: u32
  sub_file :: ptr
  sub_file_pos :: nat
  sub_line_number :: u32

record ngc_stack_entry =
  o_label :: u32
  operation :: ngc_cmd
  se_sub :: ptr
  se_file :: ptr
  se_file_pos :: nat
  se_line_number :: u32
  expr :: "string option"
  repeats :: u32
  skip :: bool
  handled :: bool
  brk :: bool

definition zero_entry :: ngc_stack_entry where
  "zero_entry = \<lparr>o_label = 0, operation = NGCFlowCtrl_NoOp, se_sub = 0, se_file = 0, se_file_pos = 0,
     se_line_number = 0, expr = None, repeats = 0, skip = False, handled = False, brk = False\<rparr>"

datatype message =
    Named_sub_error u8 string   \<comment> \<open>error \<open>n\<close> in named sub \<open>name\<close>\<close>
  | Status_report u8            \<comment> \<open>the status message the report module sends\<close>
  | Plain string

record ('m, 'f) flow =
  stack_idx :: int
  skip_sub :: bool
  subs :: "ngc_sub list"
  exec_sub :: ptr
  stack :: "ngc_stack_entry list"
  closing :: bool
  next_addr :: ptr
  fl_mallocs :: "bool list"
  params :: "'m ngc_params"
  stream :: "'f sfile"
  alarms :: "u8 list"
  messages :: "message list"
  macro_returns :: nat

record ('m, 'f) flow_env =
  env_vfs :: "'f vfs_t"
  env_eval :: "string \<Rightarrow> nat \<Rightarrow> 'm ngc_params \<Rightarrow> u8 \<times> f32 \<times> nat"
  env_ro_get :: "u16 \<Rightarrow> f32"
  env_status_message :: "u8 \<Rightarrow> u8"
  env_other_handler :: "nat \<Rightarrow> u8 \<Rightarrow> u8"
  env_on_macro_return :: bool
  env_debug_out :: bool
  env_mem :: ngc_stack_entry
  env_junk :: f32

definition init_flow :: "'f sfile \<Rightarrow> ('m, 'f) flow" where
  "init_flow sf = \<lparr>stack_idx = -1, skip_sub = False, subs = [], exec_sub = 0,
     stack = replicate 20 zero_entry, closing = False, next_addr = 1, fl_mallocs = [],
     params = init_params, stream = sf, alarms = [], messages = [], macro_returns = 0\<rparr>"

text \<open>The entry on top of the stack, and its update.\<close>

definition top :: "('m, 'f) flow \<Rightarrow> ngc_stack_entry" where
  "top s = stack s ! nat (stack_idx s)"

definition upd_top :: "(ngc_stack_entry \<Rightarrow> ngc_stack_entry) \<Rightarrow> ('m, 'f) flow \<Rightarrow> ('m, 'f) flow" where
  "upd_top f s = s\<lparr>stack := (stack s)[nat (stack_idx s) := f (top s)]\<rparr>"

text \<open>The address of a stack entry, the context of the call it stands for.\<close>

definition slot_addr :: "int \<Rightarrow> ptr" where
  "slot_addr i = nat (i + 1)"

section \<open>Reading a command\<close>

definition try_word :: "string \<Rightarrow> nat \<Rightarrow> string \<Rightarrow> bool" where
  "try_word line pos w \<longleftrightarrow> starts_with (drop pos line) w"

definition read_command :: "string \<Rightarrow> nat \<Rightarrow> (ngc_cmd \<times> nat) + (u8 \<times> nat)" where
  "read_command line pos0 =
     (let c = cstr_at line pos0; pos = pos0 + 1; err = Inr (Status_FlowControlSyntaxError, pos)
      in if c = CHR ''A'' then
           (if try_word line pos ''LARM'' then Inl (NGCFlowCtrl_RaiseAlarm, pos + 4) else err)
         else if c = CHR ''B'' then
           (if try_word line pos ''REAK'' then Inl (NGCFlowCtrl_Break, pos + 4) else err)
         else if c = CHR ''C'' then
           (if try_word line pos ''ONTINUE'' then Inl (NGCFlowCtrl_Continue, pos + 7)
            else if try_word line pos ''ALL'' then Inl (NGCFlowCtrl_Call, pos + 3) else err)
         else if c = CHR ''D'' then
           (if cstr_at line pos = CHR ''O'' then Inl (NGCFlowCtrl_Do, pos + 1) else err)
         else if c = CHR ''E'' then
           (if try_word line pos ''LSEIF'' then Inl (NGCFlowCtrl_ElseIf, pos + 5)
            else if try_word line pos ''LSE'' then Inl (NGCFlowCtrl_Else, pos + 3)
            else if try_word line pos ''NDIF'' then Inl (NGCFlowCtrl_EndIf, pos + 4)
            else if try_word line pos ''NDWHILE'' then Inl (NGCFlowCtrl_EndWhile, pos + 7)
            else if try_word line pos ''NDREPEAT'' then Inl (NGCFlowCtrl_EndRepeat, pos + 8)
            else if try_word line pos ''NDSUB'' then Inl (NGCFlowCtrl_EndSub, pos + 5)
            else if try_word line pos ''RROR'' then Inl (NGCFlowCtrl_RaiseError, pos + 4) else err)
         else if c = CHR ''I'' then
           (if cstr_at line pos = CHR ''F'' then Inl (NGCFlowCtrl_If, pos + 1) else err)
         else if c = CHR ''R'' then
           (if try_word line pos ''EPEAT'' then Inl (NGCFlowCtrl_Repeat, pos + 5)
            else if try_word line pos ''ETURN'' then Inl (NGCFlowCtrl_Return, pos + 5) else err)
         else if c = CHR ''S'' then
           (if try_word line pos ''UB'' then Inl (NGCFlowCtrl_Sub, pos + 2) else err)
         else if c = CHR ''W'' then
           (if try_word line pos ''HILE'' then Inl (NGCFlowCtrl_While, pos + 4) else err)
         else err)"

section \<open>Subroutines\<close>

text \<open>The label of the last called named subroutine, its last entry and how often it is listed.\<close>

definition get_refcount :: "('m, 'f) flow \<Rightarrow> ptr \<times> nat" where
  "get_refcount s =
     (let named = filter (\<lambda>sub. sub_o_label sub > NGC_MAX_PARAM_ID) (subs s);
          lbl = (if named = [] then 0 else sub_o_label (last named));
          same = filter (\<lambda>sub. sub_o_label sub = lbl) (subs s)
      in (if same = [] then 0 else sub_addr (last same), length same))"

definition add_sub :: "('m, 'f) flow_env \<Rightarrow> u32 \<Rightarrow> u32 \<Rightarrow> ptr \<Rightarrow> ('m, 'f) flow \<Rightarrow>
    ngc_sub option \<times> ('m, 'f) flow" where
  "add_sub env lbl lnr file s =
     (let (ok, rest) = malloc (fl_mallocs s); s1 = s\<lparr>fl_mallocs := rest\<rparr>
      in if ok
         then
           let sub = \<lparr>sub_addr = next_addr s1, sub_o_label = lbl, sub_file = file,
                      sub_file_pos = vfs_tell (env_vfs env) file (fs (stream s1)),
                      sub_line_number = lnr\<rparr>
           in (Some sub, s1\<lparr>subs := subs s1 @ [sub], next_addr := next_addr s1 + 1\<rparr>)
         else (None, s1))"

definition clear_subs :: "ptr \<Rightarrow> ('m, 'f) flow \<Rightarrow> ('m, 'f) flow" where
  "clear_subs file s =
     s\<lparr>subs := filter (\<lambda>sub. \<not> (file = 0 \<or> file = sub_file sub)) (subs s)\<rparr>"

section \<open>The stack\<close>

definition stack_push :: "u32 \<Rightarrow> u32 \<Rightarrow> ngc_cmd \<Rightarrow> ('m, 'f) flow \<Rightarrow> u8 \<times> ('m, 'f) flow" where
  "stack_push lbl lnr op s =
     (if stack_idx s < NGC_STACK_DEPTH - 1
      then
        let (ok, p) = (if op \<noteq> NGCFlowCtrl_Call then (True, params s)
                       else ngc_call_push (slot_addr (stack_idx s + 1)) (params s))
        in if ok
           then (Status_OK,
                 upd_top (\<lambda>e. e\<lparr>o_label := lbl, se_line_number := lnr, se_file := hal_file (stream s),
                                operation := op, se_sub := exec_sub s\<rparr>)
                   (s\<lparr>params := p, stack_idx := stack_idx s + 1\<rparr>))
           else (Status_FlowControlStackOverflow, s\<lparr>params := p\<rparr>)
      else (Status_FlowControlStackOverflow, s))"

definition stack_pull :: "('m, 'f) flow \<Rightarrow> bool \<times> ('m, 'f) flow" where
  "stack_pull s =
     (if stack_idx s \<ge> 0
      then
        let p = (if operation (top s) = NGCFlowCtrl_Call then snd (ngc_call_pop (params s)) else params s)
        in (True, s\<lparr>params := p, stack := (stack s)[nat (stack_idx s) := zero_entry],
                    stack_idx := stack_idx s - 1\<rparr>)
      else (False, s))"

lemma stack_pull_idx: "stack_idx s \<ge> 0 \<Longrightarrow> stack_idx (snd (stack_pull s)) = stack_idx s - 1"
  by (simp add: stack_pull_def Let_def)

text \<open>The loops that pull entries: while the label, while the file is not the given one, all.\<close>

function pull_until :: "u32 \<Rightarrow> ('m, 'f) flow \<Rightarrow> ('m, 'f) flow" where
  "pull_until lbl s =
     (if stack_idx s \<ge> 0 \<and> o_label (top s) \<noteq> lbl then pull_until lbl (snd (stack_pull s)) else s)"
  by pat_completeness auto
termination
  by (relation "measure (\<lambda>(_, s). nat (stack_idx s + 1))") (auto simp: stack_pull_idx)

function pull_file :: "ptr \<Rightarrow> ('m, 'f) flow \<Rightarrow> ('m, 'f) flow" where
  "pull_file file s =
     (if stack_idx s \<ge> 0 \<and> se_file (top s) = file then pull_file file (snd (stack_pull s)) else s)"
  by pat_completeness auto
termination
  by (relation "measure (\<lambda>(_, s). nat (stack_idx s + 1))") (auto simp: stack_pull_idx)

function pull_all :: "('m, 'f) flow \<Rightarrow> ('m, 'f) flow" where
  "pull_all s = (if stack_idx s \<ge> 0 then pull_all (snd (stack_pull s)) else s)"
  by pat_completeness auto
termination
  by (relation "measure (\<lambda>s. nat (stack_idx s + 1))") (auto simp: stack_pull_idx)

declare pull_until.simps [simp del] pull_file.simps [simp del] pull_all.simps [simp del]

definition reposition_top :: "('m, 'f) flow_env \<Rightarrow> ('m, 'f) flow \<Rightarrow> ('m, 'f) flow" where
  "reposition_top env s =
     s\<lparr>stream := stream_reposition (env_vfs env) (se_file (top s)) (se_file_pos (top s))
                   (se_line_number (top s)) (stream s)\<rparr>"

definition close_named :: "('m, 'f) flow_env \<Rightarrow> u32 \<Rightarrow> ('m, 'f) flow \<Rightarrow> ('m, 'f) flow" where
  "close_named env lbl s =
     (let (last_sub, count) = get_refcount s;
          s1 = (if se_sub (top s) = last_sub \<and> count = 1
                then s\<lparr>params := ngc_string_param_delete lbl (params s)\<rparr> else s);
          s2 = clear_subs (se_file (top s)) s1
      in s2\<lparr>stream := stream_redirect_close (env_vfs env) (se_file (top s)) (stream s2)\<rparr>)"

definition stack_unwind_sub :: "('m, 'f) flow_env \<Rightarrow> u32 \<Rightarrow> ('m, 'f) flow \<Rightarrow> ('m, 'f) flow" where
  "stack_unwind_sub env lbl s =
     (let s1 = pull_until lbl s;
          s2 = (if stack_idx s1 \<ge> 0
                then snd (stack_pull (if lbl > NGC_MAX_PARAM_ID then close_named env lbl s1
                                      else reposition_top env s1))
                else s1)
      in s2\<lparr>exec_sub := (if stack_idx s2 \<ge> 0 then se_sub (top s2) else 0)\<rparr>)"

definition ngc_flowctrl_unwind_stack :: "ptr \<Rightarrow> ('m, 'f) flow \<Rightarrow> ('m, 'f) flow" where
  "ngc_flowctrl_unwind_stack file s = pull_file file (clear_subs file s)"

definition ngc_flowctrl_init :: "('m, 'f) flow \<Rightarrow> ('m, 'f) flow" where
  "ngc_flowctrl_init s = pull_all (clear_subs 0 s)"

section \<open>Handlers\<close>

lemma pull_until_idx: "stack_idx (pull_until lbl s) \<le> stack_idx s"
  by (induction lbl s rule: pull_until.induct) (subst pull_until.simps, auto simp: stack_pull_idx)

lemma clear_subs_sel [simp]:
  "stack_idx (clear_subs f s) = stack_idx s" "stack (clear_subs f s) = stack s"
  "params (clear_subs f s) = params s" "stream (clear_subs f s) = stream s"
  "skip_sub (clear_subs f s) = skip_sub s" "exec_sub (clear_subs f s) = exec_sub s"
  by (simp_all add: clear_subs_def)

lemma close_named_sel [simp]:
  "stack_idx (close_named env lbl s) = stack_idx s" "stack (close_named env lbl s) = stack s"
  "skip_sub (close_named env lbl s) = skip_sub s"
  by (simp_all add: close_named_def case_prod_unfold Let_def)

lemma reposition_top_sel [simp]:
  "stack_idx (reposition_top env s) = stack_idx s" "stack (reposition_top env s) = stack s"
  "params (reposition_top env s) = params s" "skip_sub (reposition_top env s) = skip_sub s"
  by (simp_all add: reposition_top_def)

lemma stack_unwind_sub_idx:
  "stack_idx s \<ge> 0 \<Longrightarrow> stack_idx (stack_unwind_sub env lbl s) < stack_idx s"
  using pull_until_idx [of lbl s] by (auto simp: stack_unwind_sub_def Let_def stack_pull_idx)

definition warn_named_sub :: "u8 \<Rightarrow> u32 \<Rightarrow> ('m, 'f) flow \<Rightarrow> ('m, 'f) flow" where
  "warn_named_sub status lbl s =
     (if \<not> closing s
      then s\<lparr>closing := True, messages := messages s @
             (case ngc_string_param_get lbl (params s) of
                Some name \<Rightarrow> [Named_sub_error status name] | None \<Rightarrow> [])\<rparr>
      else s)"

definition set_last_error :: "u8 \<Rightarrow> ('m, 'f) flow \<Rightarrow> ('m, 'f) flow" where
  "set_last_error status s = s\<lparr>stream := (stream s)\<lparr>last_error := status\<rparr>\<rparr>"

lemma warn_named_sub_sel [simp]:
  "stack_idx (warn_named_sub st lbl s) = stack_idx s" "stack (warn_named_sub st lbl s) = stack s"
  "params (warn_named_sub st lbl s) = params s" "skip_sub (warn_named_sub st lbl s) = skip_sub s"
  "stream (warn_named_sub st lbl s) = stream s"
  by (simp_all add: warn_named_sub_def)

lemma set_last_error_sel [simp]:
  "stack_idx (set_last_error st s) = stack_idx s" "stack (set_last_error st s) = stack s"
  "params (set_last_error st s) = params s" "skip_sub (set_last_error st s) = skip_sub s"
  "rd_streams (stream (set_last_error st s)) = rd_streams (stream s)"
  by (simp_all add: set_last_error_def)

text \<open>\<open>grbl.report.status_message\<close> is \<open>trap_status_messages\<close> while files are redirected: it calls the
  handler of the last redirected file, which may be this one again.\<close>

function (sequential) onNamedSubError :: "('m, 'f) flow_env \<Rightarrow> u8 \<Rightarrow> ('m, 'f) flow \<Rightarrow> u8 \<times> ('m, 'f) flow"
where
  "onNamedSubError env status s =
     (if stack_idx s \<ge> 0
      then
        case find (\<lambda>sub. sub_file sub = hal_file (stream s) \<and> sub_o_label sub > NGC_MAX_PARAM_ID) (subs s) of
          None \<Rightarrow> (status, ngc_flowctrl_init (s\<lparr>closing := False\<rparr>))
        | Some sub \<Rightarrow>
            let lbl = sub_o_label sub;
                s3 = set_last_error status (stack_unwind_sub env lbl (warn_named_sub status lbl s));
                (status', s4) =
                  (if rd_streams (stream s3) = []
                   then (env_status_message env status, s3\<lparr>messages := messages s3 @ [Status_report status]\<rparr>)
                   else if \<not> (status = Status_OK \<or> status = 255)
                   then (case rd_status_handler (last (rd_streams (stream s3))) of
                           Handler_none \<Rightarrow> (status, s3)
                         | Handler_named_sub \<Rightarrow> onNamedSubError env status s3
                         | Handler_other n \<Rightarrow> (env_other_handler env n status, s3))
                   else (status, s3))
            in (status', ngc_flowctrl_init (s4\<lparr>closing := False\<rparr>))
      else (status, s))"
  by pat_completeness auto
termination
proof (relation "measure (\<lambda>(_, _, s). nat (stack_idx s + 1))", goal_cases)
  case (2 env status s sub lbl s3)
  then show ?case using stack_unwind_sub_idx [of "warn_named_sub status lbl s" env lbl] by simp
qed simp

declare onNamedSubError.simps [simp del]

definition onNamedSubEOF :: "('m, 'f) flow_env \<Rightarrow> ptr \<Rightarrow> u8 \<Rightarrow> ('m, 'f) flow \<Rightarrow> u8 \<times> ('m, 'f) flow" where
  "onNamedSubEOF env file status s =
     (if stack_idx s \<ge> 0 \<and> se_file (top s) = file
      then (status, ngc_flowctrl_unwind_stack (se_file (top s))
              (s\<lparr>stream := stream_redirect_close (env_vfs env) (se_file (top s)) (stream s)\<rparr>))
      else (status, s))"

text \<open>A comment that starts with \<^verbatim>\<open>ABORT,\<close>, in any case, raises an exception. \<open>process\<close> and
  \<open>substitute\<close> give the text of the message, \<open>prev\<close> is the handler installed before.\<close>

definition onGcodeComment :: "(string \<Rightarrow> string option) \<Rightarrow> (string \<Rightarrow> string option) \<Rightarrow>
    (string \<Rightarrow> u8) option \<Rightarrow> string \<Rightarrow> u8 \<times> string \<times> string option" where
  "onGcodeComment process substitute prev comment =
     (if map LCAPS (take 6 comment) = ''abort,''
      then
        let comment' = CHR ''!'' # drop 1 comment
        in (Status_UserException, comment',
            case process comment' of Some msg \<Rightarrow> Some msg | None \<Rightarrow> substitute (drop 6 comment'))
      else (case prev of Some f \<Rightarrow> (f comment, comment, None) | None \<Rightarrow> (Status_OK, comment, None)))"

section \<open>The commands\<close>

text \<open>Whether blocks are skipped, and the operation of the innermost construct. A command gives
  its status, the position in the line and the new state.\<close>

definition skipping :: "('m, 'f) flow \<Rightarrow> bool" where
  "skipping s \<longleftrightarrow> skip_sub s \<or> stack_idx s \<ge> 0 \<and> skip (top s)"

definition last_op :: "('m, 'f) flow \<Rightarrow> ngc_cmd" where
  "last_op s =
     (if stack_idx s \<ge> 0 then operation (top s)
      else if skip_sub s then NGCFlowCtrl_Sub else NGCFlowCtrl_NoOp)"

definition cmd_if :: "('m, 'f) flow_env \<Rightarrow> u32 \<Rightarrow> u32 \<Rightarrow> string \<Rightarrow> nat \<Rightarrow> ('m, 'f) flow \<Rightarrow>
    u8 \<times> nat \<times> ('m, 'f) flow" where
  "cmd_if env lbl lnr line pos s =
     (if \<not> skipping s
      then
        let (status, v, pos1) = env_eval env line pos (params s)
        in if status = Status_OK
           then
             let (status, s1) = stack_push lbl lnr NGCFlowCtrl_If s
             in if status = Status_OK
                then (status, pos1, upd_top (\<lambda>e. e\<lparr>skip := f32_is_zero v, handled := \<not> f32_is_zero v\<rparr>) s1)
                else (status, pos1, s1)
           else (status, pos1, s)
      else (Status_OK, pos, s))"

definition cmd_elseif :: "('m, 'f) flow_env \<Rightarrow> u32 \<Rightarrow> string \<Rightarrow> nat \<Rightarrow> ('m, 'f) flow \<Rightarrow>
    u8 \<times> nat \<times> ('m, 'f) flow" where
  "cmd_elseif env lbl line pos s =
     (if last_op s = NGCFlowCtrl_If \<or> last_op s = NGCFlowCtrl_ElseIf
      then
        if lbl = o_label (top s)
        then
          let s1 = upd_top (\<lambda>e. e\<lparr>skip := handled e\<rparr>) s
          in if \<not> handled (top s1)
             then
               let (status, v, pos1) = env_eval env line pos (params s1)
               in if status = Status_OK
                  then (status, pos1,
                        upd_top (\<lambda>e. if f32_is_zero v then e\<lparr>skip := True\<rparr>
                                     else e\<lparr>skip := False, operation := NGCFlowCtrl_ElseIf, handled := True\<rparr>) s1)
                  else (status, pos1, s1)
             else (Status_OK, pos, s1)
        else (Status_OK, pos, s)
      else if \<not> skipping s then (Status_FlowControlSyntaxError, pos, s)
      else (Status_OK, pos, s))"

definition cmd_else :: "u32 \<Rightarrow> nat \<Rightarrow> ('m, 'f) flow \<Rightarrow> u8 \<times> nat \<times> ('m, 'f) flow" where
  "cmd_else lbl pos s =
     (if last_op s = NGCFlowCtrl_If \<or> last_op s = NGCFlowCtrl_ElseIf
      then
        if lbl = o_label (top s)
        then (Status_OK, pos,
              upd_top (\<lambda>e. if handled e then e\<lparr>skip := True\<rparr>
                           else e\<lparr>skip := False, operation := NGCFlowCtrl_Else\<rparr>) s)
        else (Status_OK, pos, s)
      else if \<not> skipping s then (Status_FlowControlSyntaxError, pos, s)
      else (Status_OK, pos, s))"

definition cmd_endif :: "u32 \<Rightarrow> nat \<Rightarrow> ('m, 'f) flow \<Rightarrow> u8 \<times> nat \<times> ('m, 'f) flow" where
  "cmd_endif lbl pos s =
     (if last_op s \<in> {NGCFlowCtrl_If, NGCFlowCtrl_ElseIf, NGCFlowCtrl_Else}
      then (Status_OK, pos, if lbl = o_label (top s) then snd (stack_pull s) else s)
      else if \<not> skipping s then (Status_FlowControlSyntaxError, pos, s)
      else (Status_OK, pos, s))"

definition cmd_do :: "('m, 'f) flow_env \<Rightarrow> u32 \<Rightarrow> u32 \<Rightarrow> nat \<Rightarrow> ('m, 'f) flow \<Rightarrow>
    u8 \<times> nat \<times> ('m, 'f) flow" where
  "cmd_do env lbl lnr pos s =
     (if hal_file (stream s) \<noteq> 0
      then
        if \<not> skipping s
        then
          let (status, s1) = stack_push lbl lnr NGCFlowCtrl_Do s
          in if status = Status_OK
             then (status, pos,
                   upd_top (\<lambda>e. e\<lparr>se_file_pos := vfs_tell (env_vfs env) (hal_file (stream s1)) (fs (stream s1)),
                                  skip := False\<rparr>) s1)
             else (status, pos, s1)
        else (Status_OK, pos, s)
      else (Status_FlowControlNotExecutingMacro, pos, s))"

definition cmd_while :: "('m, 'f) flow_env \<Rightarrow> u32 \<Rightarrow> u32 \<Rightarrow> string \<Rightarrow> nat \<Rightarrow> ('m, 'f) flow \<Rightarrow>
    u8 \<times> nat \<times> ('m, 'f) flow" where
  "cmd_while env lbl lnr line pos s =
     (if hal_file (stream s) \<noteq> 0
      then
        if stack_idx s \<ge> 0 \<and> brk (top s)
        then (Status_OK, pos,
              if last_op s = NGCFlowCtrl_Do \<and> lbl = o_label (top s) then snd (stack_pull s) else s)
        else if \<not> skipping s
        then
          let (status, v, pos1) = env_eval env line pos (params s)
          in if status = Status_OK
             then
               if last_op s = NGCFlowCtrl_Do \<and> lbl = o_label (top s)
               then (status, pos1, if \<not> f32_is_zero v then reposition_top env s else snd (stack_pull s))
               else
                 let (status, s1) = stack_push lbl lnr NGCFlowCtrl_While s
                 in if status = Status_OK
                    then
                      if f32_is_zero v
                      then (status, pos1, upd_top (\<lambda>e. e\<lparr>skip := True\<rparr>) s1)
                      else
                        let (ok, rest) = malloc (fl_mallocs s1);
                            s2 = upd_top (\<lambda>e. e\<lparr>skip := False\<rparr>) (s1\<lparr>fl_mallocs := rest\<rparr>)
                        in if ok
                           then (status, pos1,
                                 upd_top (\<lambda>e. e\<lparr>expr := Some (drop pos line), se_file := hal_file (stream s2),
                                    se_file_pos := vfs_tell (env_vfs env) (hal_file (stream s2)) (fs (stream s2))\<rparr>) s2)
                           else (Status_FlowControlOutOfMemory, pos1, upd_top (\<lambda>e. e\<lparr>expr := None\<rparr>) s2)
                    else (status, pos1, s1)
             else (status, pos1, s)
        else (Status_OK, pos, s)
      else (Status_FlowControlNotExecutingMacro, pos, s))"

text \<open>The expression of a loop, evaluated again; \<open>None\<close> is the null pointer.\<close>

definition eval_expr :: "('m, 'f) flow_env \<Rightarrow> ('m, 'f) flow \<Rightarrow> u8 \<times> f32" where
  "eval_expr env s =
     (let (status, v, _) =
        env_eval env (case expr (top s) of Some e \<Rightarrow> e | None \<Rightarrow> []) 0 (params s)
      in (status, v))"

definition cmd_endwhile :: "('m, 'f) flow_env \<Rightarrow> u32 \<Rightarrow> nat \<Rightarrow> ('m, 'f) flow \<Rightarrow>
    u8 \<times> nat \<times> ('m, 'f) flow" where
  "cmd_endwhile env lbl pos s =
     (if hal_file (stream s) \<noteq> 0
      then
        if last_op s = NGCFlowCtrl_While
        then
          if lbl = o_label (top s)
          then
            let (status, s1) =
              (if \<not> skipping s \<and> \<not> skip (top s)
               then
                 let (status, v) = eval_expr env s
                 in if status = Status_OK
                    then let s1 = upd_top (\<lambda>e. e\<lparr>skip := f32_is_zero v\<rparr>) s
                         in (status, if f32_is_zero v then s1 else reposition_top env s1)
                    else (status, s)
               else (Status_OK, s))
            in (status, pos, if skip (top s1) then snd (stack_pull s1) else s1)
          else (Status_OK, pos, s)
        else if \<not> skipping s then (Status_FlowControlSyntaxError, pos, s)
        else (Status_OK, pos, s)
      else (Status_FlowControlNotExecutingMacro, pos, s))"

definition cmd_repeat :: "('m, 'f) flow_env \<Rightarrow> u32 \<Rightarrow> u32 \<Rightarrow> string \<Rightarrow> nat \<Rightarrow> ('m, 'f) flow \<Rightarrow>
    u8 \<times> nat \<times> ('m, 'f) flow" where
  "cmd_repeat env lbl lnr line pos s =
     (if hal_file (stream s) \<noteq> 0
      then
        if \<not> skipping s
        then
          let (status, v, pos1) = env_eval env line pos (params s)
          in if status = Status_OK
             then
               let (status, s1) = stack_push lbl lnr NGCFlowCtrl_Repeat s
               in if status = Status_OK
                  then (status, pos1,
                        if f32_rint_le_zero v then upd_top (\<lambda>e. e\<lparr>skip := True\<rparr>) s1
                        else upd_top (\<lambda>e. e\<lparr>skip := False, se_file := hal_file (stream s1),
                               se_file_pos := vfs_tell (env_vfs env) (hal_file (stream s1)) (fs (stream s1)),
                               repeats := f32_rint_u32 v\<rparr>) s1)
                  else (status, pos1, s1)
             else (status, pos1, s)
        else (Status_OK, pos, s)
      else (Status_FlowControlNotExecutingMacro, pos, s))"

definition cmd_endrepeat :: "('m, 'f) flow_env \<Rightarrow> u32 \<Rightarrow> nat \<Rightarrow> ('m, 'f) flow \<Rightarrow>
    u8 \<times> nat \<times> ('m, 'f) flow" where
  "cmd_endrepeat env lbl pos s =
     (if hal_file (stream s) \<noteq> 0
      then
        if last_op s = NGCFlowCtrl_Repeat
        then
          if lbl = o_label (top s)
          then
            let dec = (\<not> skipping s \<and> repeats (top s) \<noteq> 0);
                s1 = (if dec then upd_top (\<lambda>e. e\<lparr>repeats := repeats e - 1\<rparr>) s else s)
            in (Status_OK, pos,
                if dec \<and> repeats (top s1) \<noteq> 0 then reposition_top env s1 else snd (stack_pull s1))
          else (Status_OK, pos, s)
        else if \<not> skipping s then (Status_FlowControlSyntaxError, pos, s)
        else (Status_OK, pos, s)
      else (Status_FlowControlNotExecutingMacro, pos, s))"

text \<open>The loop \<^verbatim>\<open>while(o_label != stack[stack_idx].o_label && stack_pull())\<close> ends with an empty stack or
  an entry with the label: what it reads at \<^verbatim>\<open>stack[-1]\<close> decides nothing.\<close>

definition cmd_break :: "u32 \<Rightarrow> nat \<Rightarrow> ('m, 'f) flow \<Rightarrow> u8 \<times> nat \<times> ('m, 'f) flow" where
  "cmd_break lbl pos s =
     (if hal_file (stream s) \<noteq> 0
      then
        if \<not> skipping s
        then
          let s1 = pull_until lbl s;
              op = (if stack_idx s1 \<ge> 0 then operation (top s1) else NGCFlowCtrl_NoOp)
          in if op \<in> {NGCFlowCtrl_Do, NGCFlowCtrl_While, NGCFlowCtrl_Repeat}
             then (Status_OK, pos,
                   if lbl = o_label (top s1)
                   then upd_top (\<lambda>e. e\<lparr>repeats := 0, brk := True, skip := True, handled := True\<rparr>) s1
                   else s1)
             else (Status_FlowControlSyntaxError, pos, s1)
        else (Status_OK, pos, s)
      else (Status_FlowControlNotExecutingMacro, pos, s))"

definition continue_repeat :: "('m, 'f) flow_env \<Rightarrow> ('m, 'f) flow \<Rightarrow> ('m, 'f) flow" where
  "continue_repeat env s =
     (if repeats (top s) \<noteq> 0
      then let s1 = upd_top (\<lambda>e. e\<lparr>repeats := repeats e - 1\<rparr>) s
           in if repeats (top s1) \<noteq> 0 then reposition_top env s1 else upd_top (\<lambda>e. e\<lparr>skip := True\<rparr>) s1
      else upd_top (\<lambda>e. e\<lparr>skip := True\<rparr>) s)"

definition continue_while :: "('m, 'f) flow_env \<Rightarrow> ('m, 'f) flow \<Rightarrow> u8 \<times> ('m, 'f) flow" where
  "continue_while env s =
     (let (status, s1) =
        (if \<not> skip (top s)
         then let (status, v) = eval_expr env s
              in if status = Status_OK
                 then let s1 = upd_top (\<lambda>e. e\<lparr>skip := f32_is_zero v\<rparr>) s
                      in (status, if f32_is_zero v then s1 else reposition_top env s1)
                 else (status, s)
         else (Status_OK, s))
      in (status,
          if skip (top s1) then snd (stack_pull (upd_top (\<lambda>e. e\<lparr>expr := None\<rparr>) s1)) else s1))"

definition cmd_continue :: "('m, 'f) flow_env \<Rightarrow> u32 \<Rightarrow> nat \<Rightarrow> ('m, 'f) flow \<Rightarrow>
    u8 \<times> nat \<times> ('m, 'f) flow" where
  "cmd_continue env lbl pos s =
     (if hal_file (stream s) \<noteq> 0
      then
        if \<not> skipping s
        then
          let s1 = pull_until lbl s
          in if stack_idx s1 \<ge> 0 \<and> lbl = o_label (top s1)
             then
               (case operation (top s1) of
                  NGCFlowCtrl_Repeat \<Rightarrow> (Status_OK, pos, continue_repeat env s1)
                | NGCFlowCtrl_Do \<Rightarrow> (Status_OK, pos, reposition_top env s1)
                | NGCFlowCtrl_While \<Rightarrow> (let (status, s2) = continue_while env s1 in (status, pos, s2))
                | _ \<Rightarrow> (Status_FlowControlSyntaxError, pos, s1))
             else (Status_FlowControlSyntaxError, pos, s1)
        else (Status_OK, pos, s)
      else (Status_FlowControlNotExecutingMacro, pos, s))"

text \<open>An error of the evaluator is not reported by the next two.\<close>

definition cmd_alarm :: "('m, 'f) flow_env \<Rightarrow> string \<Rightarrow> nat \<Rightarrow> ('m, 'f) flow \<Rightarrow>
    u8 \<times> nat \<times> ('m, 'f) flow" where
  "cmd_alarm env line pos s =
     (if \<not> skipping s
      then let (status, v, pos1) = env_eval env line pos (params s)
           in (Status_OK, pos1, if status = Status_OK then s\<lparr>alarms := alarms s @ [f32_trunc_u8 v]\<rparr> else s)
      else (Status_OK, pos, s))"

definition cmd_error :: "('m, 'f) flow_env \<Rightarrow> string \<Rightarrow> nat \<Rightarrow> ('m, 'f) flow \<Rightarrow>
    u8 \<times> nat \<times> ('m, 'f) flow" where
  "cmd_error env line pos s =
     (if \<not> skipping s
      then let (status, v, pos1) = env_eval env line pos (params s)
           in (if status = Status_OK then f32_trunc_u8 v else Status_OK, pos1, s)
      else (Status_OK, pos, s))"

text \<open>The search of a named subroutine stops at its entry for the current file or at the last
  entry of the list.\<close>

definition cmd_sub :: "('m, 'f) flow_env \<Rightarrow> u32 \<Rightarrow> u32 \<Rightarrow> nat \<Rightarrow> ('m, 'f) flow \<Rightarrow>
    u8 \<times> nat \<times> ('m, 'f) flow" where
  "cmd_sub env lbl lnr pos s =
     (if hal_file (stream s) \<noteq> 0
      then
        if lbl > NGC_MAX_PARAM_ID
        then
          let found = find (\<lambda>sub. sub_o_label sub = lbl \<and> sub_file sub = hal_file (stream s)) (subs s)
          in if found \<noteq> None \<or> subs s \<noteq> [] \<and> sub_o_label (last (subs s)) = lbl
             then (Status_OK, pos, s)
             else (Status_FlowControlSyntaxError, pos, s)
        else
          let (sub, s1) = add_sub env lbl lnr (hal_file (stream s)) s
          in if sub \<noteq> None then (Status_OK, pos, s1\<lparr>skip_sub := True\<rparr>)
             else (Status_FlowControlOutOfMemory, pos, s1\<lparr>skip_sub := False\<rparr>)
      else (Status_FlowControlNotExecutingMacro, pos, s))"

definition set_named :: "string \<Rightarrow> f32 \<Rightarrow> ('m, 'f) flow \<Rightarrow> ('m, 'f) flow" where
  "set_named name v s = s\<lparr>params := snd (ngc_named_param_set name v (params s))\<rparr>"

definition return_value :: "('m, 'f) flow_env \<Rightarrow> string \<Rightarrow> nat \<Rightarrow> ('m, 'f) flow \<Rightarrow>
    nat \<times> ('m, 'f) flow" where
  "return_value env line pos s =
     (let (status, v, pos1) = env_eval env line pos (params s)
      in (pos1, if status = Status_OK
                then set_named ''_value_returned'' f32_1 (set_named ''_value'' v s)
                else set_named ''_value_returned'' f32_0 s))"

definition cmd_endsub :: "('m, 'f) flow_env \<Rightarrow> u32 \<Rightarrow> string \<Rightarrow> nat \<Rightarrow> ('m, 'f) flow \<Rightarrow>
    u8 \<times> nat \<times> ('m, 'f) flow" where
  "cmd_endsub env lbl line pos s =
     (if hal_file (stream s) \<noteq> 0
      then
        let (pos1, s1) = (if \<not> skip_sub s then return_value env line pos (stack_unwind_sub env lbl s)
                          else (pos, s))
        in (Status_OK, pos1, s1\<lparr>skip_sub := False\<rparr>)
      else (Status_FlowControlNotExecutingMacro, pos, s))"

text \<open>A named subroutine is opened from the file \<^verbatim>\<open>/littlefs/<name>.macro\<close> or else \<^verbatim>\<open>/<name>.macro\<close>; names
  that do not fit the 60 byte buffer need memory.\<close>

definition open_named_sub :: "('m, 'f) flow_env \<Rightarrow> u32 \<Rightarrow> u32 \<Rightarrow> ('m, 'f) flow \<Rightarrow>
    u8 \<times> ngc_sub option \<times> ('m, 'f) flow" where
  "open_named_sub env lbl lnr s =
     (case ngc_string_param_get lbl (params s) of
        None \<Rightarrow> (Status_OK, None, s)
      | Some subname \<Rightarrow>
          let (ok, rest) = (if length subname + 20 > 59 then malloc (fl_mallocs s) else (True, fl_mallocs s));
              s1 = s\<lparr>fl_mallocs := rest\<rparr>
          in if \<not> ok then (Status_FlowControlOutOfMemory, None, s1)
             else
               let (file, sf) = stream_redirect_read (env_vfs env) (''/littlefs/'' @ subname @ ''.macro'')
                                  Handler_named_sub Handler_named_sub (stream s1);
                   (file, sf) = (if file = 0
                                 then stream_redirect_read (env_vfs env) (''/'' @ subname @ ''.macro'')
                                        Handler_named_sub Handler_named_sub sf
                                 else (file, sf));
                   s2 = s1\<lparr>stream := sf\<rparr>
               in if file \<noteq> 0
                  then let (sub, s3) = add_sub env lbl lnr file s2
                       in (if sub = None then Status_FlowControlOutOfMemory else Status_OK, sub, s3)
                  else (Status_FileOpenFailed, None, s2))"

text \<open>The arguments of the call, at most \<open>n\<close> more.\<close>

fun call_args :: "('m, 'f) flow_env \<Rightarrow> nat \<Rightarrow> string \<Rightarrow> nat \<Rightarrow> 'm ngc_params \<Rightarrow> u8 \<times> nat \<times> f32 list" where
  "call_args env 0 line pos p = (Status_OK, pos, [])"
| "call_args env (Suc n) line pos p =
     (if cstr_at line pos = NUL then (Status_OK, pos, [])
      else
        let (status, v, pos1) = env_eval env line pos p
        in if status = Status_OK
           then let (status, pos2, vs) = call_args env n line pos1 p in (status, pos2, v # vs)
           else (status, pos1, []))"

text \<open>Parameters without an argument keep the value the caller sees, except that with 29
  arguments the last one is not set (\<^verbatim>\<open>param_id < 30\<close>).\<close>

definition fill_args :: "('m, 'f) flow_env \<Rightarrow> 'm ngc_params \<Rightarrow> f32 list \<Rightarrow> f32 list" where
  "fill_args env p vs =
     (let param_id = length vs + 1
      in if param_id < 30
         then vs @ map (\<lambda>k. snd (ngc_param_get (env_ro_get env) (of_nat k) p)) [param_id ..< 31]
         else if param_id = 30 then vs @ [env_junk env] else vs)"

fun store_args :: "nat \<Rightarrow> f32 list \<Rightarrow> u8 \<Rightarrow> 'm ngc_params \<Rightarrow> u8 \<times> 'm ngc_params" where
  "store_args k [] status p = (status, p)"
| "store_args k (v # vs) status p =
     (if \<not> f32_is_zero v
      then let (ok, p1) = ngc_param_set (of_nat k) v p
           in store_args (k + 1) vs (if ok then status else Status_FlowControlOutOfMemory) p1
      else store_args (k + 1) vs status p)"

definition enter_sub :: "('m, 'f) flow_env \<Rightarrow> u32 \<Rightarrow> u32 \<Rightarrow> ngc_sub \<Rightarrow> f32 list \<Rightarrow> ('m, 'f) flow \<Rightarrow>
    u8 \<times> ('m, 'f) flow" where
  "enter_sub env lbl lnr sub vs s =
     (let (status, s1) = stack_push lbl lnr NGCFlowCtrl_Call s
      in if status = Status_OK
         then
           let s2 = upd_top (\<lambda>e. e\<lparr>se_sub := sub_addr sub, se_file := hal_file (stream s1),
                       se_file_pos := vfs_tell (env_vfs env) (hal_file (stream s1)) (fs (stream s1)),
                       repeats := 1\<rparr>) (s1\<lparr>exec_sub := sub_addr sub\<rparr>);
               (status, p) = store_args 1 vs Status_OK (params s2);
               s3 = s2\<lparr>params := p\<rparr>
           in if status = Status_OK
              then
                let s4 = set_named ''_value_returned'' f32_0 (set_named ''_value'' f32_0 s3)
                in (status, s4\<lparr>stream := stream_reposition (env_vfs env) (sub_file sub) (sub_file_pos sub)
                                  (sub_line_number sub) (stream s4)\<rparr>)
              else (status, s3)
         else (status, s1))"

definition cmd_call :: "('m, 'f) flow_env \<Rightarrow> u32 \<Rightarrow> u32 \<Rightarrow> string \<Rightarrow> nat \<Rightarrow> ('m, 'f) flow \<Rightarrow>
    u8 \<times> nat \<times> ('m, 'f) flow" where
  "cmd_call env lbl lnr line pos s =
     (if hal_file (stream s) \<noteq> 0 \<or> lbl > NGC_MAX_PARAM_ID
      then
        if \<not> skipping s
        then
          let (status, sub, s1) =
            (if lbl > NGC_MAX_PARAM_ID then open_named_sub env lbl lnr s
             else (Status_OK,
                   find (\<lambda>sub. sub_o_label sub = lbl \<and> sub_file sub = hal_file (stream s)) (subs s), s))
          in (case sub of
                Some sub \<Rightarrow>
                  let (status, pos1, vs) = call_args env 30 line pos (params s1)
                  in if status = Status_OK
                     then let (status, s2) = enter_sub env lbl lnr sub (fill_args env (params s1) vs) s1
                          in (status, pos1, s2)
                     else (status, pos1, s1)
              | None \<Rightarrow> (if status = Status_OK then Status_FlowControlSyntaxError else status, pos, s1))
        else (Status_OK, pos, s)
      else (Status_FlowControlNotExecutingMacro, pos, s))"

definition cmd_return :: "('m, 'f) flow_env \<Rightarrow> u32 \<Rightarrow> string \<Rightarrow> nat \<Rightarrow> ('m, 'f) flow \<Rightarrow>
    u8 \<times> nat \<times> ('m, 'f) flow" where
  "cmd_return env lbl line pos s =
     (if hal_file (stream s) \<noteq> 0
      then
        if \<not> skipping s
        then
          let g65_return = (exec_sub s = 0 \<and> env_on_macro_return env);
              s1 = (if exec_sub s \<noteq> 0 then stack_unwind_sub env lbl s
                    else if g65_return
                    then ngc_flowctrl_unwind_stack
                           (if stack_idx s \<ge> 0 then se_file (top s) else se_file (env_mem env)) s
                    else s);
              (pos1, s2) = return_value env line pos s1
          in (Status_OK, pos1, if g65_return then s2\<lparr>macro_returns := macro_returns s2 + 1\<rparr> else s2)
        else (Status_OK, pos, s)
      else (Status_FlowControlNotExecutingMacro, pos, s))"

definition flow_command :: "('m, 'f) flow_env \<Rightarrow> ngc_cmd \<Rightarrow> u32 \<Rightarrow> u32 \<Rightarrow> string \<Rightarrow> nat \<Rightarrow>
    ('m, 'f) flow \<Rightarrow> u8 \<times> nat \<times> ('m, 'f) flow" where
  "flow_command env op lbl lnr line pos s =
     (case op of
        NGCFlowCtrl_If \<Rightarrow> cmd_if env lbl lnr line pos s
      | NGCFlowCtrl_ElseIf \<Rightarrow> cmd_elseif env lbl line pos s
      | NGCFlowCtrl_Else \<Rightarrow> cmd_else lbl pos s
      | NGCFlowCtrl_EndIf \<Rightarrow> cmd_endif lbl pos s
      | NGCFlowCtrl_Do \<Rightarrow> cmd_do env lbl lnr pos s
      | NGCFlowCtrl_While \<Rightarrow> cmd_while env lbl lnr line pos s
      | NGCFlowCtrl_EndWhile \<Rightarrow> cmd_endwhile env lbl pos s
      | NGCFlowCtrl_Repeat \<Rightarrow> cmd_repeat env lbl lnr line pos s
      | NGCFlowCtrl_EndRepeat \<Rightarrow> cmd_endrepeat env lbl pos s
      | NGCFlowCtrl_Break \<Rightarrow> cmd_break lbl pos s
      | NGCFlowCtrl_Continue \<Rightarrow> cmd_continue env lbl pos s
      | NGCFlowCtrl_RaiseAlarm \<Rightarrow> cmd_alarm env line pos s
      | NGCFlowCtrl_RaiseError \<Rightarrow> cmd_error env line pos s
      | NGCFlowCtrl_Sub \<Rightarrow> cmd_sub env lbl lnr pos s
      | NGCFlowCtrl_EndSub \<Rightarrow> cmd_endsub env lbl line pos s
      | NGCFlowCtrl_Call \<Rightarrow> cmd_call env lbl lnr line pos s
      | NGCFlowCtrl_Return \<Rightarrow> cmd_return env lbl line pos s
      | NGCFlowCtrl_NoOp \<Rightarrow> (Status_FlowControlSyntaxError, pos, s))"

text \<open>The result is the status, the position in the line, whether blocks are to be skipped
  (\<open>skip0\<close> if the command is not recognised) and the state.\<close>

definition ngc_flowctrl :: "('m, 'f) flow_env \<Rightarrow> u32 \<Rightarrow> u32 \<Rightarrow> string \<Rightarrow> nat \<Rightarrow> bool \<Rightarrow>
    ('m, 'f) flow \<Rightarrow> u8 \<times> nat \<times> bool \<times> ('m, 'f) flow" where
  "ngc_flowctrl env lbl lnr line pos skip0 s =
     (case read_command line pos of
        Inr (status, pos1) \<Rightarrow> (status, pos1, skip0, s)
      | Inl (op, pos1) \<Rightarrow>
          let (status, pos2, s1) = flow_command env op lbl lnr line pos1 s
          in if status \<noteq> Status_OK
             then
               let s2 = ngc_flowctrl_init s1
               in (status, pos2, False,
                   if env_debug_out env then s2\<lparr>messages := messages s2 @ [Plain line]\<rparr> else s2)
             else (status, pos2, skipping s1, s1))"

section \<open>The invariant\<close>

text \<open>The slots of the stack, up to \<open>idx\<close>, that hold a subroutine call.\<close>

definition call_slots :: "int \<Rightarrow> ngc_stack_entry list \<Rightarrow> ptr list" where
  "call_slots idx stk =
     map (\<lambda>i. slot_addr (int i)) (filter (\<lambda>i. operation (stk ! i) = NGCFlowCtrl_Call) [0 ..< nat (idx + 1)])"

text \<open>A while loop that is not being skipped has its expression.\<close>

definition entry_ok :: "ngc_stack_entry \<Rightarrow> bool" where
  "entry_ok e \<longleftrightarrow> operation e = NGCFlowCtrl_While \<and> \<not> skip e \<longrightarrow> expr e \<noteq> None"

definition wf_below :: "('m, 'f) flow \<Rightarrow> bool" where
  "wf_below s \<longleftrightarrow> length (stack s) = 20 \<and> -1 \<le> stack_idx s \<and> stack_idx s \<le> 19 \<and>
     (\<forall>i < 20. stack_idx s < int i \<longrightarrow> stack s ! i = zero_entry) \<and>
     (\<forall>i. int i < stack_idx s \<longrightarrow> entry_ok (stack s ! i)) \<and>
     wf_calls (params s) \<and> level_contexts (params s) = call_slots (stack_idx s) (stack s)"

definition wf_flow :: "('m, 'f) flow \<Rightarrow> bool" where
  "wf_flow s \<longleftrightarrow> wf_below s \<and> (stack_idx s \<ge> 0 \<longrightarrow> entry_ok (top s))"

lemma wf_flow_below [intro]: "wf_flow s \<Longrightarrow> wf_below s"
  by (simp add: wf_flow_def)

lemma wf_below_cong:
  "stack s' = stack s \<Longrightarrow> stack_idx s' = stack_idx s \<Longrightarrow> same_calls (params s) (params s') \<Longrightarrow>
   wf_below s \<Longrightarrow> wf_below s'"
  using wf_calls_same [of "params s" "params s'"] by (auto simp: wf_below_def same_calls_def)

lemma wf_flow_cong:
  "stack s' = stack s \<Longrightarrow> stack_idx s' = stack_idx s \<Longrightarrow> same_calls (params s) (params s') \<Longrightarrow>
   wf_flow s \<Longrightarrow> wf_flow s'"
  using wf_below_cong [of s' s] by (simp add: wf_flow_def top_def)

lemma same_calls_refl [simp]: "same_calls p p"
  by (simp add: same_calls_def)

lemma call_slots_update:
  "(operation (stk ! i) = NGCFlowCtrl_Call) = (operation e = NGCFlowCtrl_Call) \<or> i \<ge> length stk \<Longrightarrow>
   call_slots idx (stk[i := e]) = call_slots idx stk"
  unfolding call_slots_def
  by (cases "i < length stk"; intro arg_cong [of _ _ "map _"] filter_cong) (auto simp: nth_list_update not_less list_update_beyond)

lemma call_slots_above:
  "idx < int i \<Longrightarrow> call_slots idx (stk[i := e]) = call_slots idx stk"
  unfolding call_slots_def by (intro arg_cong [of _ _ "map _"] filter_cong) auto

lemma call_slots_Suc:
  "idx \<ge> 0 \<Longrightarrow> call_slots idx stk = call_slots (idx - 1) stk @
     (if operation (stk ! nat idx) = NGCFlowCtrl_Call then [slot_addr idx] else [])"
proof -
  assume "idx \<ge> 0"
  then obtain n where "idx = int n" using zero_le_imp_eq_int by blast
  then show ?thesis by (simp add: call_slots_def nat_add_distrib)
qed

lemma slot_addr_pos [simp]: "idx \<ge> 0 \<Longrightarrow> slot_addr idx \<noteq> 0"
  by (simp add: slot_addr_def)

lemma top_upd_top [simp]:
  "wf_below s \<Longrightarrow> stack_idx s \<ge> 0 \<Longrightarrow> top (upd_top f s) = f (top s)"
  by (simp add: wf_below_def upd_top_def top_def nat_less_iff)

lemma upd_top_sel [simp]:
  "stack_idx (upd_top f s) = stack_idx s" "params (upd_top f s) = params s" "stream (upd_top f s) = stream s"
  "skip_sub (upd_top f s) = skip_sub s" "subs (upd_top f s) = subs s" "exec_sub (upd_top f s) = exec_sub s"
  "length (stack (upd_top f s)) = length (stack s)"
  by (simp_all add: upd_top_def)

lemma wf_upd_top:
  assumes "wf_below s" "stack_idx s \<ge> 0"
    "operation (f (top s)) = NGCFlowCtrl_Call \<longleftrightarrow> operation (top s) = NGCFlowCtrl_Call"
  shows "wf_below (upd_top f s)"
proof -
  have "call_slots (stack_idx s) ((stack s)[nat (stack_idx s) := f (top s)]) = call_slots (stack_idx s) (stack s)"
    using assms(3) by (intro call_slots_update) (simp add: top_def)
  with assms(1,2) show ?thesis
    by (auto simp: wf_below_def upd_top_def nth_list_update)
qed

lemma wf_flow_upd_top:
  assumes "wf_below s" "stack_idx s \<ge> 0"
    "operation (f (top s)) = NGCFlowCtrl_Call \<longleftrightarrow> operation (top s) = NGCFlowCtrl_Call"
    "entry_ok (f (top s))"
  shows "wf_flow (upd_top f s)"
  using wf_upd_top [where f = f, OF assms(1-3)] assms by (simp add: wf_flow_def)

lemma stack_push_cases:
  assumes "stack_push lbl lnr op s = (st, s1)" "wf_flow s"
  shows "(st = Status_OK \<and> wf_below s1 \<and> stack_idx s1 = stack_idx s + 1 \<and> stack_idx s1 \<ge> 0 \<and>
      top s1 = zero_entry\<lparr>o_label := lbl, se_line_number := lnr, se_file := hal_file (stream s),
                 operation := op, se_sub := exec_sub s\<rparr> \<and>
      (\<forall>i. int i \<le> stack_idx s \<longrightarrow> stack s1 ! i = stack s ! i) \<and>
      stream s1 = stream s \<and> skip_sub s1 = skip_sub s \<and> subs s1 = subs s \<and> fl_mallocs s1 = fl_mallocs s \<and>
      (op \<noteq> NGCFlowCtrl_Call \<longrightarrow> params s1 = params s) \<and>
      (op = NGCFlowCtrl_Call \<longrightarrow> ngc_call_push (slot_addr (stack_idx s + 1)) (params s) = (True, params s1)))
    \<or> (st = Status_FlowControlStackOverflow \<and> s1 = s)"
proof (cases "stack_idx s < 19 \<and> (op \<noteq> NGCFlowCtrl_Call \<or> fst (ngc_call_push (slot_addr (stack_idx s + 1)) (params s)))")
  case False
  moreover have "snd (ngc_call_push c p) = p" if "\<not> fst (ngc_call_push c p)" for c and p :: "'a ngc_params"
    using that by (auto simp: ngc_call_push_def Let_def)
  ultimately show ?thesis using assms(1)
    by (auto simp: stack_push_def NGC_STACK_DEPTH_def Let_def case_prod_unfold split: if_splits)
next
  case True
  define e where "e = zero_entry\<lparr>o_label := lbl, se_line_number := lnr, se_file := hal_file (stream s),
                 operation := op, se_sub := exec_sub s\<rparr>"
  define p where "p = (if op \<noteq> NGCFlowCtrl_Call then params s
      else snd (ngc_call_push (slot_addr (stack_idx s + 1)) (params s)))"
  let ?n = "nat (stack_idx s + 1)"
  from assms(2) have wf: "length (stack s) = 20" "-1 \<le> stack_idx s" "wf_calls (params s)"
    "level_contexts (params s) = call_slots (stack_idx s) (stack s)"
    "\<And>i. i < 20 \<Longrightarrow> stack_idx s < int i \<Longrightarrow> stack s ! i = zero_entry"
    by (auto simp: wf_flow_def wf_below_def)
  have n: "?n < 20" "int ?n = stack_idx s + 1" using True wf(2) by auto
  have z: "stack s ! ?n = zero_entry" using wf(5) [OF n(1)] n(2) by simp
  have s1: "st = Status_OK" "s1 = s\<lparr>params := p, stack_idx := stack_idx s + 1, stack := (stack s)[?n := e]\<rparr>"
    using assms(1) True z unfolding stack_push_def NGC_STACK_DEPTH_def p_def e_def
    by (auto simp: upd_top_def top_def Let_def case_prod_unfold split: if_splits)
  have push: "op = NGCFlowCtrl_Call \<Longrightarrow> ngc_call_push (slot_addr (stack_idx s + 1)) (params s) = (True, p)"
    using True by (simp add: p_def prod_eq_iff)
  have "wf_calls p \<and> level_contexts p = call_slots (stack_idx s + 1) ((stack s)[?n := e])"
  proof (cases "op = NGCFlowCtrl_Call")
    case call: True
    note c = ngc_call_push_contexts [OF push [OF call] wf(3)]
    then show ?thesis
      using call n wf(1,2,4) by (simp add: call_slots_Suc [of "stack_idx s + 1"] call_slots_above) (simp add: e_def)
  next
    case False
    then show ?thesis
      using n wf by (simp add: p_def call_slots_Suc [of "stack_idx s + 1"] call_slots_above) (simp add: e_def)
  qed
  moreover have "entry_ok ((stack s)[?n := e] ! i)" if "int i < stack_idx s + 1" for i
  proof -
    have "i \<noteq> ?n" using that n(2) by auto
    moreover have "entry_ok (stack s ! i)"
    proof (cases "int i = stack_idx s")
      case True
      then have "nat (stack_idx s) = i" by simp
      with True show ?thesis using assms(2) by (auto simp: wf_flow_def top_def)
    next
      case False
      then show ?thesis using that assms(2) by (auto simp: wf_flow_def wf_below_def)
    qed
    ultimately show ?thesis by simp
  qed
  ultimately have "wf_below s1"
    using True n wf(1,2,5) unfolding wf_below_def s1(2) by (auto simp: nth_list_update)
  moreover have "top s1 = e" using n wf(1) by (simp add: s1(2) top_def)
  moreover have "stack s1 ! i = stack s ! i" if "int i \<le> stack_idx s" for i
    using that n(2) by (auto simp: s1(2))
  moreover have "stack_idx s1 = stack_idx s + 1" "params s1 = p" "stream s1 = stream s"
    "skip_sub s1 = skip_sub s" "subs s1 = subs s" "fl_mallocs s1 = fl_mallocs s"
    by (simp_all add: s1(2))
  moreover have "op \<noteq> NGCFlowCtrl_Call \<Longrightarrow> p = params s" by (simp add: p_def)
  ultimately show ?thesis using s1(1) push wf(2) unfolding e_def by simp
qed

lemma wf_stack_pull:
  assumes "wf_below s"
  shows "wf_flow (snd (stack_pull s))"
proof (cases "stack_idx s \<ge> 0")
  case False
  then show ?thesis using assms by (simp add: stack_pull_def wf_flow_def)
next
  case True
  let ?n = "nat (stack_idx s)"
  let ?stk = "(stack s)[?n := zero_entry]"
  define p where "p = (if operation (top s) = NGCFlowCtrl_Call then snd (ngc_call_pop (params s)) else params s)"
  have s': "snd (stack_pull s) = s\<lparr>params := p, stack := ?stk, stack_idx := stack_idx s - 1\<rparr>"
    using True by (simp add: stack_pull_def p_def Let_def)
  from assms have wf: "length (stack s) = 20" "stack_idx s \<le> 19" "wf_calls (params s)"
    "level_contexts (params s) = call_slots (stack_idx s - 1) (stack s) @
       (if operation (stack s ! ?n) = NGCFlowCtrl_Call then [slot_addr (stack_idx s)] else [])"
    using call_slots_Suc [OF True] by (simp_all add: wf_below_def)
  have slots: "call_slots (stack_idx s - 1) ?stk = call_slots (stack_idx s - 1) (stack s)"
    using True by (intro call_slots_above) simp
  have p: "wf_calls p \<and> level_contexts p = call_slots (stack_idx s - 1) ?stk"
  proof (cases "operation (top s) = NGCFlowCtrl_Call")
    case call: True
    have l: "level_contexts (params s) = call_slots (stack_idx s - 1) (stack s) @ [slot_addr (stack_idx s)]"
      using wf(4) call by (simp add: top_def)
    show ?thesis
      using ngc_call_pop_contexts(1,2) [OF prod.collapse [symmetric] wf(3) l] True call by (simp add: p_def slots)
  next
    case False
    then show ?thesis using wf(3,4) by (simp add: p_def slots top_def)
  qed
  have e: "entry_ok (?stk ! i)" if "int i < stack_idx s" for i
  proof -
    have "i \<noteq> ?n" using that by auto
    then show ?thesis using that assms by (simp add: wf_below_def)
  qed
  have z: "?stk ! i = zero_entry" if "i < 20" "stack_idx s - 1 < int i" for i
  proof (cases "i = ?n")
    case False
    then have "stack_idx s < int i" using that by linarith
    then show ?thesis using False that assms by (simp add: wf_below_def)
  qed (use that wf(1) in simp)
  have "wf_below (snd (stack_pull s))"
    unfolding wf_below_def s' using p e z wf(1,2) True by simp
  moreover have "entry_ok (top (snd (stack_pull s)))" if "stack_idx (snd (stack_pull s)) \<ge> 0"
  proof -
    have "int (nat (stack_idx s - 1)) < stack_idx s" using that s' by simp
    from e [OF this] show ?thesis by (simp add: s' top_def)
  qed
  ultimately show ?thesis by (simp add: wf_flow_def)
qed

lemma wf_pull_until: "wf_flow s \<Longrightarrow> wf_flow (pull_until lbl s)"
  by (induction lbl s rule: pull_until.induct) (subst pull_until.simps, auto intro: wf_stack_pull)

lemma wf_pull_file: "wf_flow s \<Longrightarrow> wf_flow (pull_file f s)"
  by (induction f s rule: pull_file.induct) (subst pull_file.simps, auto intro: wf_stack_pull)

lemma wf_pull_all: "wf_below s \<Longrightarrow> wf_flow (pull_all s) \<and> stack_idx (pull_all s) = -1"
proof (induction s rule: pull_all.induct)
  case (1 s)
  show ?case
  proof (cases "stack_idx s \<ge> 0")
    case True
    then show ?thesis
      using "1.IH" [OF True wf_flow_below [OF wf_stack_pull [OF "1.prems"]]] by (subst (1 2) pull_all.simps) simp
  next
    case False
    then show ?thesis using "1.prems" by (subst (1 2) pull_all.simps) (auto simp: wf_flow_def wf_below_def)
  qed
qed

lemma pull_all_sel [simp]:
  "skip_sub (pull_all s) = skip_sub s" "subs (pull_all s) = subs s" "stream (pull_all s) = stream s"
  "exec_sub (pull_all s) = exec_sub s" "alarms (pull_all s) = alarms s"
proof -
  have "skip_sub (pull_all s) = skip_sub s \<and> subs (pull_all s) = subs s \<and> stream (pull_all s) = stream s \<and>
    exec_sub (pull_all s) = exec_sub s \<and> alarms (pull_all s) = alarms s"
    by (induction s rule: pull_all.induct) (subst (1 2 3 4 5) pull_all.simps, auto simp: stack_pull_def Let_def)
  then show "skip_sub (pull_all s) = skip_sub s" "subs (pull_all s) = subs s" "stream (pull_all s) = stream s"
    "exec_sub (pull_all s) = exec_sub s" "alarms (pull_all s) = alarms s" by auto
qed

lemma wf_clear_subs [simp]: "wf_flow (clear_subs f s) = wf_flow s" "wf_below (clear_subs f s) = wf_below s"
  by (simp_all add: wf_flow_def wf_below_def top_def)

lemma wf_init: "wf_below s \<Longrightarrow> wf_flow (ngc_flowctrl_init s) \<and> stack_idx (ngc_flowctrl_init s) = -1"
  by (simp add: ngc_flowctrl_init_def wf_pull_all)

lemma init_sel [simp]:
  "skip_sub (ngc_flowctrl_init s) = skip_sub s" "subs (ngc_flowctrl_init s) = []"
  "stream (ngc_flowctrl_init s) = stream s" "exec_sub (ngc_flowctrl_init s) = exec_sub s"
  by (simp_all add: ngc_flowctrl_init_def) (simp add: clear_subs_def)

lemma wf_reposition [simp]: "wf_flow (reposition_top env s) = wf_flow s"
  by (simp add: wf_flow_def wf_below_def top_def)

lemma wf_close_named: "wf_flow s \<Longrightarrow> wf_flow (close_named env lbl s)"
  by (erule wf_flow_cong [rotated -1])
    (simp_all add: close_named_def case_prod_unfold Let_def ngc_string_param_delete_def same_calls_def level_contexts_def)

lemma wf_unwind_sub: "wf_flow s \<Longrightarrow> wf_flow (stack_unwind_sub env lbl s)"
proof -
  assume "wf_flow s"
  then have w: "wf_flow (pull_until lbl s)" by (rule wf_pull_until)
  have e: "wf_flow (x\<lparr>exec_sub := a\<rparr>) = wf_flow x" for x :: "('a, 'b) flow" and a
    by (simp add: wf_flow_def wf_below_def top_def)
  show ?thesis
    using w by (auto simp: stack_unwind_sub_def Let_def e intro!: wf_stack_pull wf_close_named)
qed

lemma wf_unwind_stack: "wf_flow s \<Longrightarrow> wf_flow (ngc_flowctrl_unwind_stack file s)"
  by (simp add: ngc_flowctrl_unwind_stack_def wf_pull_file)

lemma same_calls_named [simp]: "same_calls p (snd (ngc_named_param_set n v p))"
  by (rule same_calls_frame) (simp_all add: ngc_named_param_set_frame)

lemma same_calls_set [simp]: "same_calls p (snd (ngc_param_set k v p))"
  by (rule same_calls_frame) (simp_all add: ngc_param_set_frame)

lemma wf_set_named: "wf_flow s \<Longrightarrow> wf_flow (set_named n v s)"
  by (rule wf_flow_cong) (simp_all add: set_named_def)

lemma wf_return_value: "wf_flow s \<Longrightarrow> wf_flow (snd (return_value env line pos s))"
  by (simp add: return_value_def case_prod_unfold Let_def wf_set_named)

lemma store_args_calls: "same_calls p (snd (store_args k vs st p))"
proof (induction vs arbitrary: k st p)
  case (Cons v vs)
  show ?case
    using Cons.IH same_calls_trans [OF same_calls_set [of p "of_nat k" v] Cons.IH]
    by (simp add: case_prod_unfold Let_def)
qed simp

definition cmd_wf :: "u8 \<times> nat \<times> ('m, 'f) flow \<Rightarrow> bool" where
  "cmd_wf r \<longleftrightarrow> wf_below (snd (snd r)) \<and> (fst r = Status_OK \<longrightarrow> wf_flow (snd (snd r)))"

lemma cmd_wf_flow [intro]: "wf_flow s \<Longrightarrow> cmd_wf (st, pos, s)"
  by (auto simp: cmd_wf_def)

lemma push_upd_wf:
  assumes "wf_flow s" "stack_push lbl lnr op s = (st, s1)" "st = Status_OK"
    "\<And>e. operation e = op \<Longrightarrow> operation (f e) = op \<and> entry_ok (f e)"
  shows "wf_flow (upd_top f s1)"
proof -
  have "wf_below s1" "stack_idx s1 \<ge> 0" "operation (top s1) = op"
    using stack_push_cases [OF assms(2,1)] assms(3) by (auto simp: flow_status)
  with assms(4) show ?thesis by (intro wf_flow_upd_top) auto
qed

lemma push_err_wf:
  assumes "wf_flow s" "stack_push lbl lnr op s = (st, s1)"
  shows "cmd_wf (st, pos, s1) \<or> st = Status_OK \<and> wf_below s1"
  using stack_push_cases [OF assms(2,1)] assms(1) by (auto simp: cmd_wf_def)

lemma cmd_if_wf: "wf_flow s \<Longrightarrow> cmd_wf (cmd_if env lbl lnr line pos s)"
  using push_upd_wf [of s lbl lnr NGCFlowCtrl_If] push_err_wf [of s lbl lnr NGCFlowCtrl_If]
  by (auto simp: cmd_if_def Let_def entry_ok_def split: prod.split) (blast+)?

lemma last_op_idx: "last_op s \<notin> {NGCFlowCtrl_Sub, NGCFlowCtrl_NoOp} \<Longrightarrow> stack_idx s \<ge> 0 \<and> operation (top s) = last_op s"
  by (auto simp: last_op_def split: if_splits)

lemma cmd_elseif_wf: "wf_flow s \<Longrightarrow> cmd_wf (cmd_elseif env lbl line pos s)"
proof -
  assume w: "wf_flow s"
  show ?thesis
  proof (cases "last_op s = NGCFlowCtrl_If \<or> last_op s = NGCFlowCtrl_ElseIf")
    case True
    then have i: "stack_idx s \<ge> 0" "operation (top s) \<in> {NGCFlowCtrl_If, NGCFlowCtrl_ElseIf}"
      using last_op_idx [of s] by auto
    let ?s1 = "upd_top (\<lambda>e. e\<lparr>skip := handled e\<rparr>) s"
    have w1: "wf_flow ?s1" using w i by (intro wf_flow_upd_top) (auto simp: entry_ok_def)
    have t1: "operation (top ?s1) \<in> {NGCFlowCtrl_If, NGCFlowCtrl_ElseIf}" using w i by (simp add: wf_flow_below)
    have w2: "wf_flow (upd_top (\<lambda>e. if f32_is_zero v then e\<lparr>skip := True\<rparr>
        else e\<lparr>skip := False, operation := NGCFlowCtrl_ElseIf, handled := True\<rparr>) ?s1)" for v
      using w1 i t1 by (intro wf_flow_upd_top) (auto simp: entry_ok_def)
    show ?thesis using True w w1 w2 by (auto simp: cmd_elseif_def Let_def split: prod.split)
  qed (use w in \<open>auto simp: cmd_elseif_def\<close>)
qed

lemma cmd_else_wf: "wf_flow s \<Longrightarrow> cmd_wf (cmd_else lbl pos s)"
proof -
  assume w: "wf_flow s"
  show ?thesis
  proof (cases "last_op s = NGCFlowCtrl_If \<or> last_op s = NGCFlowCtrl_ElseIf")
    case True
    then have i: "stack_idx s \<ge> 0" "operation (top s) \<in> {NGCFlowCtrl_If, NGCFlowCtrl_ElseIf}"
      using last_op_idx [of s] by auto
    have "wf_flow (upd_top (\<lambda>e. if handled e then e\<lparr>skip := True\<rparr>
        else e\<lparr>skip := False, operation := NGCFlowCtrl_Else\<rparr>) s)"
      using w i by (intro wf_flow_upd_top) (auto simp: entry_ok_def)
    then show ?thesis using True w by (auto simp: cmd_else_def)
  qed (use w in \<open>auto simp: cmd_else_def\<close>)
qed

lemma cmd_endif_wf: "wf_flow s \<Longrightarrow> cmd_wf (cmd_endif lbl pos s)"
  by (auto simp: cmd_endif_def intro!: cmd_wf_flow wf_stack_pull)

lemma cmd_do_wf: "wf_flow s \<Longrightarrow> cmd_wf (cmd_do env lbl lnr pos s)"
  using push_upd_wf [of s lbl lnr NGCFlowCtrl_Do] push_err_wf [of s lbl lnr NGCFlowCtrl_Do]
  by (auto simp: cmd_do_def Let_def entry_ok_def split: prod.split) (blast+)?

lemma cmd_repeat_wf: "wf_flow s \<Longrightarrow> cmd_wf (cmd_repeat env lbl lnr line pos s)"
  using push_upd_wf [of s lbl lnr NGCFlowCtrl_Repeat] push_err_wf [of s lbl lnr NGCFlowCtrl_Repeat]
  by (auto simp: cmd_repeat_def Let_def entry_ok_def split: prod.split) (blast+)?

lemma wf_mallocs [simp]: "wf_below (s\<lparr>fl_mallocs := m\<rparr>) = wf_below s" "wf_flow (s\<lparr>fl_mallocs := m\<rparr>) = wf_flow s"
  "top (s\<lparr>fl_mallocs := m\<rparr>) = top s"
  by (simp_all add: wf_flow_def wf_below_def top_def)

lemma cmd_while_wf: 
  assumes w: "wf_flow s" shows "cmd_wf (cmd_while env lbl lnr line pos s)"
proof -
  obtain st s1 where p: "stack_push lbl lnr NGCFlowCtrl_While s = (st, s1)" by fastforce
  note c = stack_push_cases [OF p w]
  have a: "wf_flow (upd_top (\<lambda>e. e\<lparr>skip := True\<rparr>) s1)" if "st = Status_OK"
    using push_upd_wf [OF w p that] by (simp add: entry_ok_def)
  let ?s2 = "\<lambda>m. upd_top (\<lambda>e. e\<lparr>skip := False\<rparr>) (s1\<lparr>fl_mallocs := m\<rparr>)"
  have c': "wf_below s1 \<and> stack_idx s1 \<ge> 0" if "st = Status_OK" using c that by (auto simp: flow_status)
  have b: "wf_below (?s2 m) \<and> stack_idx (?s2 m) \<ge> 0" if "st = Status_OK" for m
    using c' [OF that] by (auto intro!: wf_upd_top)
  have d: "wf_flow (upd_top (\<lambda>e. e\<lparr>expr := Some x, se_file := f, se_file_pos := n\<rparr>) (?s2 m))"
    if "st = Status_OK" for x f n m
    using b [OF that] c' [OF that] by (intro wf_flow_upd_top) (auto simp: entry_ok_def)
  have e: "wf_below (upd_top (\<lambda>e. e\<lparr>expr := None\<rparr>) (?s2 m))" if "st = Status_OK" for m
    using b [OF that] c' [OF that] by (intro wf_upd_top) auto
  have f: "cmd_wf (st, pos', s1)" if "st \<noteq> Status_OK" for pos' using c that w by auto
  have g: "cmd_wf (Status_OK, pos', snd (stack_pull s))" for pos' using w by (intro cmd_wf_flow wf_stack_pull) auto
  have e': "cmd_wf (Status_FlowControlOutOfMemory, pos', upd_top (\<lambda>e. e\<lparr>expr := None\<rparr>) (?s2 m))"
    if "st = Status_OK" for pos' m
    using e [OF that] by (simp add: cmd_wf_def flow_status)
  have w': "cmd_wf (st', pos', s)" for st' pos' using w by blast
  show ?thesis
    by (cases "st = Status_OK")
      (simp_all add: cmd_while_def Let_def case_prod_unfold p a d e' f g w' cmd_wf_flow w)
qed

lemma cmd_endwhile_wf:
  assumes w: "wf_flow s" shows "cmd_wf (cmd_endwhile env lbl pos s)"
proof (cases "last_op s = NGCFlowCtrl_While")
  case True
  then have i: "stack_idx s \<ge> 0" "operation (top s) = NGCFlowCtrl_While" using last_op_idx [of s] by auto
  have a: "wf_flow (upd_top (\<lambda>e. e\<lparr>skip := z\<rparr>) s)" if "\<not> skip (top s)" for z
    using w i that by (intro wf_flow_upd_top) (auto simp: entry_ok_def wf_flow_def)
  show ?thesis
    using True w a
    by (auto simp: cmd_endwhile_def Let_def split: prod.split intro!: cmd_wf_flow wf_stack_pull)
qed (use w in \<open>auto simp: cmd_endwhile_def\<close>)

lemma cmd_endrepeat_wf:
  assumes w: "wf_flow s" shows "cmd_wf (cmd_endrepeat env lbl pos s)"
proof (cases "last_op s = NGCFlowCtrl_Repeat")
  case True
  then have i: "stack_idx s \<ge> 0" "operation (top s) = NGCFlowCtrl_Repeat" using last_op_idx [of s] by auto
  have a: "wf_flow (upd_top (\<lambda>e. e\<lparr>repeats := repeats e - 1\<rparr>) s)"
    using w i by (intro wf_flow_upd_top) (auto simp: entry_ok_def)
  show ?thesis
    using True w a by (auto simp: cmd_endrepeat_def Let_def intro!: cmd_wf_flow wf_stack_pull)
qed (use w in \<open>auto simp: cmd_endrepeat_def\<close>)

lemma cmd_break_wf:
  assumes "wf_flow s" shows "cmd_wf (cmd_break lbl pos s)"
proof -
  have w: "wf_flow (pull_until lbl s)" using assms by (rule wf_pull_until)
  have "wf_flow (upd_top (\<lambda>e. e\<lparr>repeats := 0, brk := True, skip := True, handled := True\<rparr>) (pull_until lbl s))"
    if "stack_idx (pull_until lbl s) \<ge> 0"
    using w that by (intro wf_flow_upd_top) (auto simp: entry_ok_def)
  then show ?thesis using w assms by (auto simp: cmd_break_def Let_def)
qed

lemma continue_repeat_wf:
  assumes "wf_flow s" "stack_idx s \<ge> 0" "operation (top s) = NGCFlowCtrl_Repeat"
  shows "wf_flow (continue_repeat env s)"
proof -
  let ?s = "upd_top (\<lambda>e. e\<lparr>repeats := repeats e - 1\<rparr>) s"
  have a: "wf_flow ?s"
    using assms by (intro wf_flow_upd_top) (auto simp: entry_ok_def)
  have "wf_flow (upd_top (\<lambda>e. e\<lparr>skip := True\<rparr>) ?s)" "wf_flow (upd_top (\<lambda>e. e\<lparr>skip := True\<rparr>) s)"
    using assms a by (auto intro!: wf_flow_upd_top simp: entry_ok_def)
  with a assms(1) show ?thesis by (simp add: continue_repeat_def Let_def)
qed

lemma continue_while_wf:
  assumes w: "wf_flow s" and i: "stack_idx s \<ge> 0" "operation (top s) = NGCFlowCtrl_While"
  shows "wf_flow (snd (continue_while env s))"
proof -
  have a: "wf_flow (upd_top (\<lambda>e. e\<lparr>skip := z\<rparr>) s)" if "\<not> skip (top s)" for z
    using w i that by (intro wf_flow_upd_top) (auto simp: entry_ok_def wf_flow_def)
  have b: "wf_flow (snd (stack_pull (upd_top (\<lambda>e. e\<lparr>expr := None\<rparr>) x)))"
    if "wf_flow x" "stack_idx x \<ge> 0" for x :: "('a, 'b) flow"
    using that by (intro wf_stack_pull wf_upd_top) auto
  show ?thesis
    using w i a by (auto simp: continue_while_def Let_def split: prod.split intro!: b)
qed

lemma cmd_continue_wf:
  assumes "wf_flow s" shows "cmd_wf (cmd_continue env lbl pos s)"
proof -
  have w: "wf_flow (pull_until lbl s)" using assms by (rule wf_pull_until)
  show ?thesis
    using w assms continue_repeat_wf [OF w] continue_while_wf [OF w]
    by (auto simp: cmd_continue_def Let_def case_prod_unfold split: ngc_cmd.split)
qed

lemma cmd_alarm_wf: "wf_flow s \<Longrightarrow> cmd_wf (cmd_alarm env line pos s)"
  by (auto simp: cmd_alarm_def cmd_wf_def wf_flow_def wf_below_def top_def Let_def split: prod.split)

lemma cmd_error_wf: "wf_flow s \<Longrightarrow> cmd_wf (cmd_error env line pos s)"
  by (auto simp: cmd_error_def Let_def split: prod.split)

lemma add_sub_sel [simp]:
  "stack_idx (snd (add_sub env lbl lnr f s)) = stack_idx s" "stack (snd (add_sub env lbl lnr f s)) = stack s"
  "params (snd (add_sub env lbl lnr f s)) = params s" "skip_sub (snd (add_sub env lbl lnr f s)) = skip_sub s"
  "stream (snd (add_sub env lbl lnr f s)) = stream s"
  by (simp_all add: add_sub_def Let_def case_prod_unfold)

lemma wf_add_sub [simp]: "wf_flow (snd (add_sub env lbl lnr f s)) = wf_flow s"
  by (simp add: wf_flow_def wf_below_def top_def)

lemma wf_skip_sub [simp]: "wf_flow (s\<lparr>skip_sub := b\<rparr>) = wf_flow s" "wf_flow (s\<lparr>macro_returns := n\<rparr>) = wf_flow s"
  "wf_flow (s\<lparr>stream := sf\<rparr>) = wf_flow s" "wf_below (s\<lparr>stream := sf\<rparr>) = wf_below s"
  "wf_below (s\<lparr>exec_sub := a\<rparr>) = wf_below s" "wf_flow (s\<lparr>closing := b\<rparr>) = wf_flow s"
  "wf_flow (s\<lparr>messages := ms\<rparr>) = wf_flow s" "wf_below (s\<lparr>closing := b\<rparr>) = wf_below s"
  "top (s\<lparr>exec_sub := a\<rparr>) = top s"
  by (simp_all add: wf_flow_def wf_below_def top_def)

lemma cmd_sub_wf: "wf_flow s \<Longrightarrow> cmd_wf (cmd_sub env lbl lnr pos s)"
  by (auto simp: cmd_sub_def Let_def case_prod_unfold)

lemma cmd_endsub_wf: "wf_flow s \<Longrightarrow> cmd_wf (cmd_endsub env lbl line pos s)"
  by (auto simp: cmd_endsub_def Let_def case_prod_unfold intro!: cmd_wf_flow wf_return_value wf_unwind_sub)

lemma open_named_sub_sel [simp]:
  "stack_idx (snd (snd (open_named_sub env lbl lnr s))) = stack_idx s"
  "stack (snd (snd (open_named_sub env lbl lnr s))) = stack s"
  "params (snd (snd (open_named_sub env lbl lnr s))) = params s"
  "skip_sub (snd (snd (open_named_sub env lbl lnr s))) = skip_sub s"
  by (simp_all add: open_named_sub_def Let_def case_prod_unfold split: option.split)

lemma wf_open_named [simp]: "wf_flow (snd (snd (open_named_sub env lbl lnr s))) = wf_flow s"
  by (simp add: wf_flow_def wf_below_def top_def)

lemma enter_sub_wf:
  assumes w: "wf_flow s" shows "wf_flow (snd (enter_sub env lbl lnr sub vs s))"
proof -
  obtain st s1 where p: "stack_push lbl lnr NGCFlowCtrl_Call s = (st, s1)" by fastforce
  note c = stack_push_cases [OF p w]
  show ?thesis
  proof (cases "st = Status_OK")
    case False
    then show ?thesis using c w p by (auto simp: enter_sub_def Let_def)
  next
    case True
    let ?s2 = "upd_top (\<lambda>e. e\<lparr>se_sub := sub_addr sub, se_file := hal_file (stream s1),
                       se_file_pos := vfs_tell (env_vfs env) (hal_file (stream s1)) (fs (stream s1)),
                       repeats := 1\<rparr>) (s1\<lparr>exec_sub := sub_addr sub\<rparr>)"
    have w2: "wf_flow ?s2"
      using c True by (intro wf_flow_upd_top) (auto simp: entry_ok_def flow_status zero_entry_def)
    have "wf_flow (?s2\<lparr>params := snd (store_args 1 vs Status_OK (params ?s2))\<rparr>)"
      by (rule wf_flow_cong [OF _ _ _ w2]) (simp_all add: store_args_calls del: upd_top_sel)
    then show ?thesis
      using p True by (auto simp: enter_sub_def Let_def case_prod_unfold intro!: wf_set_named)
  qed
qed

lemma cmd_call_wf: 
  assumes "wf_flow s" shows "cmd_wf (cmd_call env lbl lnr line pos s)"
  using assms
  by (auto simp: cmd_call_def Let_def case_prod_unfold enter_sub_wf split: option.split)

lemma cmd_return_wf: "wf_flow s \<Longrightarrow> cmd_wf (cmd_return env lbl line pos s)"
  by (auto simp: cmd_return_def Let_def cmd_wf_def case_prod_unfold
      intro!: wf_flow_below wf_return_value wf_unwind_sub wf_unwind_stack)

lemma flow_command_wf:
  assumes "wf_flow s" shows "cmd_wf (flow_command env op lbl lnr line pos s)"
  using assms
  by (cases op) (auto simp: flow_command_def intro: cmd_if_wf cmd_elseif_wf cmd_else_wf cmd_endif_wf cmd_do_wf
      cmd_while_wf cmd_endwhile_wf cmd_repeat_wf cmd_endrepeat_wf cmd_break_wf cmd_continue_wf cmd_alarm_wf
      cmd_error_wf cmd_sub_wf cmd_endsub_wf cmd_call_wf cmd_return_wf)

section \<open>Reachable states\<close>

lemma onNamedSubError_wf: "wf_flow s \<Longrightarrow> wf_flow (snd (onNamedSubError env status s))"
proof (induction env status s rule: onNamedSubError.induct)
  case (1 env status s)
  show ?case
  proof (cases "stack_idx s \<ge> 0")
    case False
    then show ?thesis using "1.prems" by (simp add: onNamedSubError.simps)
  next
    case True
    show ?thesis
    proof (cases "find (\<lambda>sub. sub_file sub = hal_file (stream s) \<and> sub_o_label sub > NGC_MAX_PARAM_ID) (subs s)")
      case None
      then show ?thesis using True "1.prems" wf_init [of "s\<lparr>closing := False\<rparr>"]
        by (simp add: onNamedSubError.simps [of env status s] wf_flow_below)
    next
      case (Some sub)
      define s3 where "s3 = set_last_error status (stack_unwind_sub env (sub_o_label sub)
        (warn_named_sub status (sub_o_label sub) s))"
      have "wf_flow (warn_named_sub status (sub_o_label sub) s)"
        using "1.prems" by (rule wf_flow_cong [rotated -1]) simp_all
      then have w3: "wf_flow s3" unfolding s3_def set_last_error_def by (simp add: wf_unwind_sub)
      have IH: "wf_flow (snd (onNamedSubError env status s3))"
        if "rd_streams (stream s3) \<noteq> []" "\<not> (status = Status_OK \<or> status = 255)"
          "rd_status_handler (last (rd_streams (stream s3))) = Handler_named_sub"
        using "1.IH" [OF True Some refl s3_def that w3] .
      have fin: "wf_flow (ngc_flowctrl_init (x\<lparr>closing := False\<rparr>))" if "wf_flow x" for x :: "('a, 'b) flow"
        using wf_init [of "x\<lparr>closing := False\<rparr>"] that by (simp add: wf_flow_below)
      show ?thesis
        using IH w3 True Some
        by (subst onNamedSubError.simps)
          (simp add: Let_def case_prod_unfold s3_def [symmetric] fin del: set_last_error_sel(5) split: handler.split)
    qed
  qed
qed

text \<open>What can happen to the interpreter: flow control commands, errors and the end of a named
  subroutine's file, the end of a macro, a restart, and between those anything that leaves
  the stack and the call levels alone: the other blocks of the program, which store
  parameters and read the program, and the start and end of other redirections.\<close>

inductive flow_step :: "('m, 'f) flow_env \<Rightarrow> ('m, 'f) flow \<Rightarrow> ('m, 'f) flow \<Rightarrow> bool" for env where
  step_command: "ngc_flowctrl env lbl lnr line pos sk s = (st, pos', sk', s') \<Longrightarrow> flow_step env s s'"
| step_error: "flow_step env s (snd (onNamedSubError env st s))"
| step_eof: "flow_step env s (snd (onNamedSubEOF env f st s))"
| step_unwind: "flow_step env s (ngc_flowctrl_unwind_stack f s)"
| step_init: "flow_step env s (ngc_flowctrl_init s)"
| step_param: "flow_step env s (s\<lparr>params := snd (ngc_param_set k v (params s))\<rparr>)"
| step_named: "flow_step env s (s\<lparr>params := snd (ngc_named_param_set n v (params s))\<rparr>)"
| step_stream: "flow_step env s (s\<lparr>stream := sf, fl_mallocs := m\<rparr>)"

inductive flow_reachable :: "('m, 'f) flow_env \<Rightarrow> ('m, 'f) flow \<Rightarrow> bool" for env where
  reach_init: "flow_reachable env (init_flow sf)"
| reach_step: "flow_reachable env s \<Longrightarrow> flow_step env s s' \<Longrightarrow> flow_reachable env s'"

lemma wf_init_flow: "wf_flow (init_flow sf)"
  using wf_calls_init
  by (simp add: wf_flow_def wf_below_def init_flow_def call_slots_def)
    (simp add: level_contexts_def init_params_def)

lemma ngc_flowctrl_wf:
  assumes "wf_flow s" "ngc_flowctrl env lbl lnr line pos sk s = (st, pos', sk', s')"
  shows "wf_flow s'"
proof (cases "read_command line pos")
  case (Inl a)
  then obtain op pos1 where c: "read_command line pos = Inl (op, pos1)" by (cases a) auto
  obtain st1 pos2 s1 where f: "flow_command env op lbl lnr line pos1 s = (st1, pos2, s1)"
    using prod_cases3 by blast
  have w: "wf_below s1" "st1 = Status_OK \<Longrightarrow> wf_flow s1"
    using flow_command_wf [OF assms(1), of env op lbl lnr line pos1] by (auto simp: f cmd_wf_def)
  show ?thesis using assms(2) w(2) wf_init [OF w(1)] by (auto simp: ngc_flowctrl_def c f Let_def split: if_splits)
next
  case (Inr b)
  then show ?thesis using assms by (auto simp: ngc_flowctrl_def split: prod.splits)
qed

lemma onNamedSubEOF_wf: "wf_flow s \<Longrightarrow> wf_flow (snd (onNamedSubEOF env f st s))"
  by (simp add: onNamedSubEOF_def wf_unwind_stack)

lemma flow_step_wf: "flow_step env s s' \<Longrightarrow> wf_flow s \<Longrightarrow> wf_flow s'"
proof (induction rule: flow_step.induct)
  case (step_param s k v)
  then show ?case by (rule wf_flow_cong [rotated -1]) simp_all
next
  case (step_named s n v)
  then show ?case by (rule wf_flow_cong [rotated -1]) simp_all
qed (auto intro: ngc_flowctrl_wf onNamedSubError_wf onNamedSubEOF_wf wf_unwind_stack
    simp: wf_init wf_flow_below)

lemma flow_reachable_wf: "flow_reachable env s \<Longrightarrow> wf_flow s"
  by (induction rule: flow_reachable.induct) (auto intro: wf_init_flow flow_step_wf)


text \<open>An environment for examples: one file, and expressions that are all true.\<close>

definition mini_env :: "(nat, u8 list) flow_env" where
  "mini_env = \<lparr>env_vfs = mem_vfs, env_eval = \<lambda>line pos p. (0, f32_1, length line), env_ro_get = \<lambda>_. 0,
     env_status_message = \<lambda>st. st, env_other_handler = \<lambda>_ st. st, env_on_macro_return = False,
     env_debug_out = False, env_mem = zero_entry, env_junk = 0\<rparr>"

lemmas flow_eval = ngc_flowctrl_def read_command_def try_word_def starts_with_def cstr_at_def flow_command_def
  skipping_def last_op_def stack_push_def NGC_STACK_DEPTH_def upd_top_def top_def mini_env_def init_flow_def
  mem_sfile_def




text \<open>
  The flag that skips the body of a subroutine definition survives errors and restarts:
  once it is set and no file is being read (a file that ended inside a subroutine
  definition), no flow control command clears it, and every command that is accepted tells
  the parser to skip the blocks that follow.
\<close>

theorem skip_sub_never_cleared:
  assumes "skip_sub s" "hal_file (stream s) = 0"
    "ngc_flowctrl env lbl lnr line pos sk s = (st, pos', sk', s')"
  shows "skip_sub s' \<and> hal_file (stream s') = 0 \<and> skip_sub (ngc_flowctrl_init s') \<and>
    (st = Status_OK \<longrightarrow> sk')"
proof (cases "read_command line pos")
  case (Inl a)
  then obtain op pos1 where c: "read_command line pos = Inl (op, pos1)" by (cases a) auto
  obtain st1 pos2 s1 where f: "flow_command env op lbl lnr line pos1 s = (st1, pos2, s1)"
    using prod_cases3 by blast
  have sk: "skipping s" using assms(1) by (simp add: skipping_def)
  have up: "skip_sub (snd (stack_pull s)) = skip_sub s" "stream (snd (stack_pull s)) = stream s"
    by (simp_all add: stack_pull_def Let_def)
  have s1: "skip_sub s1 \<and> hal_file (stream s1) = 0"
    using f assms(1,2) sk up
    by (cases op)
      (auto simp: flow_command_def cmd_if_def cmd_elseif_def cmd_else_def cmd_endif_def cmd_do_def cmd_while_def
        cmd_endwhile_def cmd_repeat_def cmd_endrepeat_def cmd_break_def cmd_continue_def cmd_alarm_def
        cmd_error_def cmd_sub_def cmd_endsub_def cmd_call_def cmd_return_def Let_def case_prod_unfold
        split: if_splits)
  with assms(3) show ?thesis by (auto simp: ngc_flowctrl_def c f Let_def skipping_def split: if_splits)
next
  case (Inr b)
  have "st \<noteq> Status_OK"
    using Inr assms(3)
    by (auto simp: ngc_flowctrl_def read_command_def Let_def flow_status split: if_splits prod.splits)
  with Inr show ?thesis using assms by (auto simp: ngc_flowctrl_def split: prod.splits)
qed

theorem skip_sub_never_cleared_witness:
  "\<exists>s s'. skip_sub s \<and> hal_file (stream s) = 0 \<and>
     ngc_flowctrl mini_env 5 1 ''IF[1]'' 0 False s = (Status_OK, 2, True, s') \<and> skip_sub s'"
proof -
  define s where "s = (init_flow ((mem_sfile [])\<lparr>hal_file := 0\<rparr>) :: (nat, u8 list) flow)\<lparr>skip_sub := True\<rparr>"
  define s' where "s' = snd (snd (snd (ngc_flowctrl mini_env 5 1 ''IF[1]'' 0 False s)))"
  have a: "skip_sub s" "hal_file (stream s) = 0" by (simp_all add: s_def init_flow_def)
  have e: "ngc_flowctrl mini_env 5 1 ''IF[1]'' 0 False s = (Status_OK, 2, True, s')"
    unfolding s'_def prod_eq_iff by (simp add: s_def flow_eval cmd_if_def)
  from skip_sub_never_cleared [OF a e] a e show ?thesis by blast
qed

section \<open>Conditionals\<close>

text \<open>The blocks of a branch are run unless blocks are skipped.\<close>

definition run_blocks :: "(('m, 'f) flow \<Rightarrow> ('m, 'f) flow) \<Rightarrow> ('m, 'f) flow \<Rightarrow> ('m, 'f) flow" where
  "run_blocks body s = (if skipping s then s else body s)"

record ('m, 'f) branch =
  br_line :: string
  br_pos :: nat
  br_body :: "('m, 'f) flow \<Rightarrow> ('m, 'f) flow"

fun run_elseifs :: "('m, 'f) flow_env \<Rightarrow> u32 \<Rightarrow> ('m, 'f) branch list \<Rightarrow> ('m, 'f) flow \<Rightarrow>
    (u8 \<times> bool) list \<times> ('m, 'f) flow" where
  "run_elseifs env lbl [] s = ([], s)"
| "run_elseifs env lbl (b # bs) s =
     (let (st, _, s1) = cmd_elseif env lbl (br_line b) (br_pos b) s;
          (rs, s2) = run_elseifs env lbl bs (run_blocks (br_body b) s1)
      in ((st, \<not> skipping s1) # rs, s2))"

text \<open>A conditional: for each command its status and whether its branch is run.\<close>

definition run_if :: "('m, 'f) flow_env \<Rightarrow> u32 \<Rightarrow> u32 \<Rightarrow> ('m, 'f) branch \<Rightarrow> ('m, 'f) branch list \<Rightarrow>
    (('m, 'f) flow \<Rightarrow> ('m, 'f) flow) \<Rightarrow> ('m, 'f) flow \<Rightarrow> (u8 \<times> bool) list \<times> ('m, 'f) flow" where
  "run_if env lbl lnr b bs else_body s =
     (let (st, _, s1) = cmd_if env lbl lnr (br_line b) (br_pos b) s;
          (rs, s2) = run_elseifs env lbl bs (run_blocks (br_body b) s1);
          (st3, _, s3) = cmd_else lbl 0 s2;
          (st4, _, s4) = cmd_endif lbl 0 (run_blocks else_body s3)
      in ((st, \<not> skipping s1) # rs @ [(st3, \<not> skipping s3), (st4, \<not> skipping s4)], s4))"

text \<open>Blocks that leave the stack as they found it.\<close>

definition balanced :: "(('m, 'f) flow \<Rightarrow> ('m, 'f) flow) \<Rightarrow> bool" where
  "balanced body \<longleftrightarrow> (\<forall>s. stack (body s) = stack s \<and> stack_idx (body s) = stack_idx s \<and>
     skip_sub (body s) = skip_sub s)"

text \<open>Inside the conditional; \<open>h\<close> tells whether a branch has been chosen.\<close>

definition in_if :: "('m, 'f) flow \<Rightarrow> u32 \<Rightarrow> bool \<Rightarrow> ('m, 'f) flow \<Rightarrow> bool" where
  "in_if s0 lbl h s \<longleftrightarrow> stack_idx s = stack_idx s0 + 1 \<and> \<not> skip_sub s \<and> (\<not> h \<longrightarrow> params s = params s0) \<and>
     (\<exists>e. stack s = (stack s0)[nat (stack_idx s0 + 1) := e] \<and> o_label e = lbl \<and> handled e = h \<and>
        operation e \<in> {NGCFlowCtrl_If, NGCFlowCtrl_ElseIf} \<and> (\<not> h \<longrightarrow> skip e))"

definition room :: "('m, 'f) flow \<Rightarrow> bool" where
  "room s \<longleftrightarrow> length (stack s) = 20 \<and> -1 \<le> stack_idx s \<and> stack_idx s < 19"

lemma top_in:
  "room s0 \<Longrightarrow> stack_idx s = stack_idx s0 + 1 \<Longrightarrow> stack s = (stack s0)[nat (stack_idx s0 + 1) := e] \<Longrightarrow>
   top s = e \<and> stack (upd_top f s) = (stack s0)[nat (stack_idx s0 + 1) := f e] \<and> stack_idx s \<ge> 0"
  by (simp add: room_def top_def upd_top_def nat_less_iff)

lemma elseif_step:
  assumes r: "room s0" and i: "in_if s0 lbl h s"
    and ev: "\<not> h \<Longrightarrow> env_eval env line pos (params s0) = (Status_OK, v, pos')"
  shows "\<exists>p s1. cmd_elseif env lbl line pos s = (Status_OK, p, s1) \<and>
    (skipping s1 \<longleftrightarrow> h \<or> f32_is_zero v) \<and>
    (\<forall>body. balanced body \<longrightarrow> in_if s0 lbl (h \<or> \<not> f32_is_zero v) (run_blocks body s1))"
proof -
  from i obtain e where e: "stack s = (stack s0)[nat (stack_idx s0 + 1) := e]" "o_label e = lbl"
    "handled e = h" "operation e \<in> {NGCFlowCtrl_If, NGCFlowCtrl_ElseIf}"
    and s: "stack_idx s = stack_idx s0 + 1" "\<not> skip_sub s" "\<not> h \<Longrightarrow> params s = params s0" "\<not> h \<Longrightarrow> skip e"
    unfolding in_if_def by blast
  have t: "top s = e" "stack_idx s \<ge> 0" using top_in [OF r s(1) e(1), of id] by auto
  have lo: "last_op s = operation e" using t by (simp add: last_op_def)
  let ?s1 = "upd_top (\<lambda>e. e\<lparr>skip := handled e\<rparr>) s"
  have s1: "stack ?s1 = (stack s0)[nat (stack_idx s0 + 1) := e\<lparr>skip := h\<rparr>]" "stack_idx ?s1 = stack_idx s0 + 1"
    using top_in [OF r s(1) e(1), of "\<lambda>e. e\<lparr>skip := handled e\<rparr>"] s(1) e(3) by auto
  note t1 = top_in [OF r s1(2,1)]
  show ?thesis
  proof (cases h)
    case True
    have "cmd_elseif env lbl line pos s = (Status_OK, pos, ?s1)"
      using e lo t t1 True by (auto simp: cmd_elseif_def Let_def)
    moreover have "skipping ?s1" using t1 True by (simp add: skipping_def)
    ultimately show ?thesis
      using True e s s1 by (auto simp: run_blocks_def in_if_def)
  next
    case False
    let ?f = "\<lambda>e. if f32_is_zero v then e\<lparr>skip := True\<rparr>
        else e\<lparr>skip := False, operation := NGCFlowCtrl_ElseIf, handled := True\<rparr>"
    let ?s2 = "upd_top ?f ?s1"
    have c: "cmd_elseif env lbl line pos s = (Status_OK, pos', ?s2)"
      using e lo t t1 False ev s(3) by (auto simp: cmd_elseif_def Let_def)
    have s2: "stack ?s2 = (stack s0)[nat (stack_idx s0 + 1) := ?f (e\<lparr>skip := h\<rparr>)]" "stack_idx ?s2 = stack_idx s0 + 1"
      using t1 [of ?f] s1(2) by auto
    note t2 = top_in [OF r s2(2,1), of id]
    have k: "skipping ?s2 \<longleftrightarrow> f32_is_zero v" using t2 s(2) by (auto simp: skipping_def)
    have "in_if s0 lbl (\<not> f32_is_zero v) (run_blocks body ?s2)" if b: "balanced body" for body
      using b e s(2,3) False s2 k by (auto simp: run_blocks_def in_if_def balanced_def)
    with c k False show ?thesis by auto
  qed
qed

lemma run_elseifs_out:
  assumes r: "room s0" and ev: "\<forall>b\<in>set bs. \<exists>p. env_eval env (br_line b) (br_pos b) (params s0) = (Status_OK, val b, p)"
    and bal: "\<forall>b\<in>set bs. balanced (br_body b)" and i: "in_if s0 lbl h s"
  shows "\<exists>s1. run_elseifs env lbl bs s =
      (map (\<lambda>j. (Status_OK, \<not> h \<and> j = length (takeWhile (\<lambda>b. f32_is_zero (val b)) bs))) [0 ..< length bs], s1) \<and>
    in_if s0 lbl (h \<or> (\<exists>b\<in>set bs. \<not> f32_is_zero (val b))) s1"
  using ev bal i
proof (induction bs arbitrary: h s)
  case (Cons b bs)
  from Cons.prems(1) obtain p where p: "env_eval env (br_line b) (br_pos b) (params s0) = (Status_OK, val b, p)" by auto
  from elseif_step [OF r Cons.prems(3) p] obtain p1 s1 where
    c: "cmd_elseif env lbl (br_line b) (br_pos b) s = (Status_OK, p1, s1)"
    and k: "skipping s1 \<longleftrightarrow> h \<or> f32_is_zero (val b)"
    and i1: "in_if s0 lbl (h \<or> \<not> f32_is_zero (val b)) (run_blocks (br_body b) s1)"
    using Cons.prems(2) by auto
  from Cons.IH [OF _ _ i1] Cons.prems obtain s2 where
    "run_elseifs env lbl bs (run_blocks (br_body b) s1) =
      (map (\<lambda>j. (Status_OK, \<not> (h \<or> \<not> f32_is_zero (val b)) \<and> j = length (takeWhile (\<lambda>b. f32_is_zero (val b)) bs))) [0 ..< length bs], s2)"
    "in_if s0 lbl ((h \<or> \<not> f32_is_zero (val b)) \<or> (\<exists>b\<in>set bs. \<not> f32_is_zero (val b))) s2"
    by auto
  then show ?case
    using c k by (auto simp: map_upt_Suc_0 simp del: upt_Suc)
qed auto

lemma if_step:
  assumes w: "wf_flow s0" and r: "room s0" and ns: "\<not> skipping s0"
    and ev: "env_eval env line pos (params s0) = (Status_OK, v, p)" and bal: "balanced body"
  shows "\<exists>s1. cmd_if env lbl lnr line pos s0 = (Status_OK, p, s1) \<and> (skipping s1 \<longleftrightarrow> f32_is_zero v) \<and>
    in_if s0 lbl (\<not> f32_is_zero v) (run_blocks body s1)"
proof -
  let ?n = "nat (stack_idx s0 + 1)"
  obtain st s1 where p: "stack_push lbl lnr NGCFlowCtrl_If s0 = (st, s1)" by fastforce
  have st: "st = Status_OK" "stack_idx s1 = stack_idx s0 + 1" "params s1 = params s0" "skip_sub s1 = skip_sub s0"
    and stk: "\<exists>e. stack s1 = (stack s0)[?n := e] \<and> o_label e = lbl \<and> operation e = NGCFlowCtrl_If"
    using p r by (auto simp: stack_push_def room_def NGC_STACK_DEPTH_def upd_top_def)
  then obtain e where e: "stack s1 = (stack s0)[?n := e]" "o_label e = lbl" "operation e = NGCFlowCtrl_If" by blast
  let ?f = "\<lambda>e. e\<lparr>skip := f32_is_zero v, handled := \<not> f32_is_zero v\<rparr>"
  let ?s2 = "upd_top ?f s1"
  have s2: "stack ?s2 = (stack s0)[?n := ?f e]" "stack_idx ?s2 = stack_idx s0 + 1"
    using top_in [OF r st(2) e(1), of ?f] st(2) by auto
  have k: "skipping ?s2 \<longleftrightarrow> f32_is_zero v"
    using top_in [OF r s2(2,1), of id] st ns by (auto simp: skipping_def)
  have "in_if s0 lbl (\<not> f32_is_zero v) (run_blocks body ?s2)"
    using bal e st ns s2 k by (auto simp: run_blocks_def in_if_def balanced_def skipping_def)
  moreover have "cmd_if env lbl lnr line pos s0 = (Status_OK, p, ?s2)"
    using ns ev p st(1) by (simp add: cmd_if_def)
  ultimately show ?thesis using k by blast
qed

lemma else_endif_step:
  assumes r: "room s0" and ns: "\<not> skipping s0" and z: "stack s0 ! nat (stack_idx s0 + 1) = zero_entry"
    and i: "in_if s0 lbl h s" and bal: "balanced body"
  shows "\<exists>s1 s2. cmd_else lbl 0 s = (Status_OK, 0, s1) \<and> (skipping s1 \<longleftrightarrow> h) \<and>
    cmd_endif lbl 0 (run_blocks body s1) = (Status_OK, 0, s2) \<and> \<not> skipping s2 \<and>
    stack s2 = stack s0 \<and> stack_idx s2 = stack_idx s0 \<and> skip_sub s2 = skip_sub s0"
proof -
  let ?n = "nat (stack_idx s0 + 1)"
  from i obtain e where e: "stack s = (stack s0)[?n := e]" "o_label e = lbl"
    "handled e = h" "operation e \<in> {NGCFlowCtrl_If, NGCFlowCtrl_ElseIf}"
    and s: "stack_idx s = stack_idx s0 + 1" "\<not> skip_sub s"
    unfolding in_if_def by blast
  let ?f = "\<lambda>e. if handled e then e\<lparr>skip := True\<rparr> else e\<lparr>skip := False, operation := NGCFlowCtrl_Else\<rparr>"
  have t: "top s = e" "stack_idx s \<ge> 0" using top_in [OF r s(1) e(1), of id] by auto
  have c: "cmd_else lbl 0 s = (Status_OK, 0, upd_top ?f s)"
    using e t by (auto simp: cmd_else_def last_op_def)
  have s1: "stack (upd_top ?f s) = (stack s0)[?n := ?f e]" "stack_idx (upd_top ?f s) = stack_idx s0 + 1"
    using top_in [OF r s(1) e(1), of ?f] s by auto
  have k: "skipping (upd_top ?f s) \<longleftrightarrow> h"
    using top_in [OF r s1(2,1), of id] e s by (auto simp: skipping_def)
  let ?s2 = "run_blocks body (upd_top ?f s)"
  have s2: "stack ?s2 = (stack s0)[?n := ?f e]" "stack_idx ?s2 = stack_idx s0 + 1" "\<not> skip_sub ?s2"
    using s1 s bal by (auto simp: run_blocks_def balanced_def)
  have t2: "top ?s2 = ?f e" "stack_idx ?s2 \<ge> 0" using top_in [OF r s2(2,1), of id] by auto
  have op: "operation (?f e) \<in> {NGCFlowCtrl_If, NGCFlowCtrl_ElseIf, NGCFlowCtrl_Else}" "o_label (?f e) = lbl"
    using e by auto
  have ce: "cmd_endif lbl 0 ?s2 = (Status_OK, 0, snd (stack_pull ?s2))"
    using t2 op by (simp add: cmd_endif_def last_op_def)
  have "stack (snd (stack_pull ?s2)) = (stack s0)[?n := zero_entry]"
    using t2(2) s2(1,2) by (simp add: stack_pull_def Let_def)
  also have "\<dots> = stack s0" using z by (metis list_update_id)
  finally have "stack (snd (stack_pull ?s2)) = stack s0" .
  moreover have "stack_idx (snd (stack_pull ?s2)) = stack_idx s0" "\<not> skip_sub (snd (stack_pull ?s2))"
    using t2(2) s2 by (simp_all add: stack_pull_def Let_def)
  ultimately show ?thesis using c k ce ns by (auto simp: skipping_def top_def)
qed

lemma map_upt_add_2: "map f [0 ..< n + 2] = f 0 # map (\<lambda>i. f (Suc i)) [0 ..< n] @ [f (Suc n)]"
  by (simp only: add_2_eq_Suc' map_upt_Suc_0 [of f "Suc n"]) simp

lemma run_if_branches:
  assumes "flow_reachable env0 s" "\<not> skipping s" "stack_idx s < 19"
    "\<forall>b\<in>set (b0 # bs). balanced (br_body b) \<and>
       (\<exists>p. env_eval env (br_line b) (br_pos b) (params s) = (Status_OK, val b, p))" "balanced else_body"
  shows "\<exists>s'. run_if env lbl lnr b0 bs else_body s =
      (map (\<lambda>j. (Status_OK, j = length (takeWhile (\<lambda>b. f32_is_zero (val b)) (b0 # bs)))) [0 ..< length bs + 2]
       @ [(Status_OK, True)], s') \<and>
    stack s' = stack s \<and> stack_idx s' = stack_idx s \<and> skip_sub s' = skip_sub s"
proof -
  have w: "wf_flow s" using assms(1) by (rule flow_reachable_wf)
  then have r: "room s" using assms(3) by (auto simp: room_def wf_flow_def wf_below_def)
  have z: "stack s ! nat (stack_idx s + 1) = zero_entry"
    using w assms(3) by (auto simp: wf_flow_def wf_below_def)
  let ?k = "length (takeWhile (\<lambda>b. f32_is_zero (val b)) bs)"
  let ?h = "\<not> f32_is_zero (val b0)"
  obtain p where ev: "env_eval env (br_line b0) (br_pos b0) (params s) = (Status_OK, val b0, p)"
    using assms(4) by auto
  obtain s1 where 1: "cmd_if env lbl lnr (br_line b0) (br_pos b0) s = (Status_OK, p, s1)"
    "skipping s1 \<longleftrightarrow> f32_is_zero (val b0)" "in_if s lbl ?h (run_blocks (br_body b0) s1)"
    using if_step [where body = "br_body b0" and lbl = lbl and lnr = lnr, OF w r assms(2) ev] assms(4) by auto
  obtain s2 where 2: "run_elseifs env lbl bs (run_blocks (br_body b0) s1) =
      (map (\<lambda>j. (Status_OK, \<not> ?h \<and> j = ?k)) [0 ..< length bs], s2)"
    "in_if s lbl (?h \<or> (\<exists>b\<in>set bs. \<not> f32_is_zero (val b))) s2"
    using run_elseifs_out [OF r _ _ 1(3), of bs env val] assms(4) by auto
  obtain s3 s4 where 3: "cmd_else lbl 0 s2 = (Status_OK, 0, s3)"
    "skipping s3 \<longleftrightarrow> ?h \<or> (\<exists>b\<in>set bs. \<not> f32_is_zero (val b))"
    "cmd_endif lbl 0 (run_blocks else_body s3) = (Status_OK, 0, s4)" "\<not> skipping s4"
    "stack s4 = stack s \<and> stack_idx s4 = stack_idx s \<and> skip_sub s4 = skip_sub s"
    using else_endif_step [OF r assms(2) z 2(2) assms(5)] by blast
  have k: "?k = length bs \<longleftrightarrow> (\<forall>b\<in>set bs. f32_is_zero (val b))"
    by (metis takeWhile_eq_all_conv takeWhile_eq_take take_all_iff order_refl length_takeWhile_le length_take min.absorb2)
  have "map (\<lambda>j. (Status_OK, j = length (takeWhile (\<lambda>b. f32_is_zero (val b)) (b0 # bs)))) [0 ..< length bs + 2] =
      (Status_OK, ?h) # map (\<lambda>j. (Status_OK, \<not> ?h \<and> j = ?k)) [0 ..< length bs] @ [(Status_OK, \<not> skipping s3)]"
    unfolding map_upt_add_2 using k 3(2) by (cases "f32_is_zero (val b0)") auto
  then show ?thesis using 1 2 3 by (simp add: run_if_def)
qed

text \<open>
  C17. A conditional runs exactly one of its branches: the first one whose condition is not
  zero when it is reached, the else branch if there is none; the conditions after it are
  not evaluated. No command of it fails and afterwards the stack is as before it. The
  branches may change anything but the stack.
\<close>

theorem run_if_one_branch:
  assumes "flow_reachable env0 s" "\<not> skipping s" "stack_idx s < 19"
    "\<forall>b\<in>set (b0 # bs). balanced (br_body b) \<and>
       (\<exists>p. env_eval env (br_line b) (br_pos b) (params s) = (Status_OK, val b, p))" "balanced else_body"
  shows "\<exists>s'. run_if env lbl lnr b0 bs else_body s =
      (map (\<lambda>j. (Status_OK, j = length (takeWhile (\<lambda>b. f32_is_zero (val b)) (b0 # bs)))) [0 ..< length bs + 2]
       @ [(Status_OK, True)], s') \<and>
    stack s' = stack s \<and> stack_idx s' = stack_idx s \<and> skip_sub s' = skip_sub s"
  using assms by (rule run_if_branches)

text \<open>Three conditions 0, 1 and 1: the second branch is run.\<close>

theorem run_if_one_branch_witness:
  "\<exists>s'. run_if (mini_env\<lparr>env_eval := \<lambda>line pos p. (0, if line = ''IF[0]'' then f32_0 else f32_1, 5)\<rparr>) 7 1
      \<lparr>br_line = ''IF[0]'', br_pos = 2, br_body = \<lambda>s. s\<rparr>
      [\<lparr>br_line = ''ELSEIF[1]'', br_pos = 6, br_body = \<lambda>s. s\<rparr>, \<lparr>br_line = ''ELSEIF[2]'', br_pos = 6, br_body = \<lambda>s. s\<rparr>]
      (\<lambda>s. s) (init_flow (mem_sfile [])) =
    ([(0, False), (0, True), (0, False), (0, False), (0, True)], s') \<and> stack_idx s' = -1"
proof -
  let ?s = "init_flow (mem_sfile []) :: (nat, u8 list) flow"
  let ?val = "\<lambda>b :: (nat, u8 list) branch. if br_line b = ''IF[0]'' then f32_0 else f32_1"
  let ?env = "mini_env\<lparr>env_eval := \<lambda>line pos p. (0, if line = ''IF[0]'' then f32_0 else f32_1, 5)\<rparr>"
  let ?b0 = "\<lparr>br_line = ''IF[0]'', br_pos = 2, br_body = \<lambda>s. s\<rparr> :: (nat, u8 list) branch"
  let ?bs = "[\<lparr>br_line = ''ELSEIF[1]'', br_pos = 6, br_body = \<lambda>s. s\<rparr>,
     \<lparr>br_line = ''ELSEIF[2]'', br_pos = 6, br_body = \<lambda>s. s\<rparr>] :: (nat, u8 list) branch list"
  have r: "flow_reachable mini_env ?s" by (rule reach_init)
  have a: "\<not> skipping ?s" "stack_idx ?s < 19" by (simp_all add: skipping_def init_flow_def)
  have b: "balanced (\<lambda>s. s)" by (simp add: balanced_def)
  have "\<forall>b\<in>set (?b0 # ?bs). balanced (br_body b) \<and>
       (\<exists>p. env_eval ?env (br_line b) (br_pos b) (params ?s) = (Status_OK, ?val b, p))"
    by (simp add: b)
  from run_if_one_branch [OF r a this b, of 7 1] obtain s' where
    "run_if ?env 7 1 ?b0 ?bs (\<lambda>s. s) ?s = ([(0, False), (0, True), (0, False), (0, False), (0, True)], s')"
    "stack_idx s' = -1"
    by (auto simp: init_flow_def upt_rec)
  then show ?thesis by blast
qed

lemma unat_minus_of_nat:
  fixes w :: "'a :: len word"
  assumes "k \<le> unat w"
  shows "unat (w - of_nat k) = unat w - k"
proof -
  have "w - of_nat k = of_nat (unat w - k)" using assms by (simp add: of_nat_diff)
  moreover have "unat w - k < 2 ^ LENGTH('a)"
    using le_less_trans [OF diff_le_self unsigned_less] .
  ultimately show ?thesis by (simp add: unat_of_nat take_bit_nat_eq_self)
qed

section \<open>Repeat loops\<close>

text \<open>One pass: the blocks of the body and the command at its end.\<close>

definition repeat_pass :: "('m, 'f) flow_env \<Rightarrow> u32 \<Rightarrow> (('m, 'f) flow \<Rightarrow> ('m, 'f) flow) \<Rightarrow>
    ('m, 'f) flow \<Rightarrow> ('m, 'f) flow" where
  "repeat_pass env lbl body s = snd (snd (cmd_endrepeat env lbl 0 (run_blocks body s)))"

text \<open>Inside the loop, with entry \<open>e\<close>.\<close>

definition in_repeat :: "('m, 'f) flow \<Rightarrow> u32 \<Rightarrow> ngc_stack_entry \<Rightarrow> ('m, 'f) flow \<Rightarrow> bool" where
  "in_repeat s0 lbl e s \<longleftrightarrow> stack_idx s = stack_idx s0 + 1 \<and> \<not> skip_sub s \<and> hal_file (stream s) \<noteq> 0 \<and>
     stack s = (stack s0)[nat (stack_idx s0 + 1) := e] \<and> o_label e = lbl \<and> operation e = NGCFlowCtrl_Repeat"

lemma hal_file_reposition [simp]: "hal_file (stream_reposition v f p l s) = hal_file s"
  by (simp add: stream_reposition_def onLineNumberAssigned_def Let_def split: prod.split)

lemma in_repeat_skipping: "room s0 \<Longrightarrow> in_repeat s0 lbl e s \<Longrightarrow> skipping s \<longleftrightarrow> skip e"
  using top_in [of s0 s e id] by (auto simp: in_repeat_def skipping_def)

lemma stack_pull_restores:
  assumes "room s0" "stack_idx s = stack_idx s0 + 1" "stack s = (stack s0)[nat (stack_idx s0 + 1) := e]"
    "stack s0 ! nat (stack_idx s0 + 1) = zero_entry"
  shows "stack (snd (stack_pull s)) = stack s0 \<and> stack_idx (snd (stack_pull s)) = stack_idx s0 \<and>
    skip_sub (snd (stack_pull s)) = skip_sub s \<and> stream (snd (stack_pull s)) = stream s"
proof -
  have "stack_idx s \<ge> 0" using assms(1,2) by (simp add: room_def)
  moreover have "(stack s0)[nat (stack_idx s0 + 1) := zero_entry] = stack s0" using assms(4) by (metis list_update_id)
  ultimately show ?thesis using assms(2,3) by (simp add: stack_pull_def Let_def)
qed

lemma repeat_pass_step:
  assumes r: "room s0" and z: "stack s0 ! nat (stack_idx s0 + 1) = zero_entry" and i: "in_repeat s0 lbl e s"
    and b: "balanced body" "\<And>t. hal_file (stream (body t)) = hal_file (stream t)"
  shows "if skip e \<or> repeats e - 1 = 0 \<or> repeats e = 0
    then stack (repeat_pass env lbl body s) = stack s0 \<and> stack_idx (repeat_pass env lbl body s) = stack_idx s0 \<and>
         \<not> skip_sub (repeat_pass env lbl body s)
    else in_repeat s0 lbl (e\<lparr>repeats := repeats e - 1\<rparr>) (repeat_pass env lbl body s) \<and>
         stream (repeat_pass env lbl body s) =
           stream_reposition (env_vfs env) (se_file e) (se_file_pos e) (se_line_number e) (stream (body s))"
proof -
  let ?t = "run_blocks body s"
  from i have s: "stack_idx s = stack_idx s0 + 1" "stack s = (stack s0)[nat (stack_idx s0 + 1) := e]"
    by (auto simp: in_repeat_def)
  have k: "skipping s \<longleftrightarrow> skip e" by (rule in_repeat_skipping [OF r i])
  have t: "stack_idx ?t = stack_idx s0 + 1" "stack ?t = (stack s0)[nat (stack_idx s0 + 1) := e]"
    "\<not> skip_sub ?t" "hal_file (stream ?t) \<noteq> 0"
    using i b by (auto simp: run_blocks_def in_repeat_def balanced_def)
  have top: "top ?t = e" "stack_idx ?t \<ge> 0" using top_in [OF r t(1,2), of id] by auto
  have kt: "skipping ?t \<longleftrightarrow> skip e" using top t by (auto simp: skipping_def)
  let ?f = "\<lambda>e. e\<lparr>repeats := repeats e - 1\<rparr>"
  have u: "stack (upd_top ?f ?t) = (stack s0)[nat (stack_idx s0 + 1) := ?f e]"
    "stack_idx (upd_top ?f ?t) = stack_idx s0 + 1" using top_in [OF r t(1,2), of ?f] t by auto
  have topu: "top (upd_top ?f ?t) = ?f e" using top_in [OF r u(2,1), of id] by auto
  have e: "o_label e = lbl" "operation e = NGCFlowCtrl_Repeat" using i by (auto simp: in_repeat_def)
  have c: "repeat_pass env lbl body s =
    (if skip e \<or> repeats e = 0 then snd (stack_pull ?t)
     else if repeats e - 1 = 0 then snd (stack_pull (upd_top ?f ?t)) else reposition_top env (upd_top ?f ?t))"
    using t(4) top e kt topu by (auto simp: repeat_pass_def cmd_endrepeat_def last_op_def Let_def)
  note p1 = stack_pull_restores [OF r t(1,2) z] and p2 = stack_pull_restores [OF r u(2,1) z]
  have "stream (reposition_top env (upd_top ?f ?t)) =
      stream_reposition (env_vfs env) (se_file e) (se_file_pos e) (se_line_number e) (stream (body s))"
    if "\<not> skip e"
    using that k topu by (simp add: reposition_top_def run_blocks_def)
  moreover have "in_repeat s0 lbl (?f e) (reposition_top env (upd_top ?f ?t))"
    using u t(3,4) e by (simp add: in_repeat_def) (simp add: reposition_top_def)
  ultimately show ?thesis using c p1 p2 t(3) by simp
qed

lemma repeat_passes:
  assumes r: "room s0" and z: "stack s0 ! nat (stack_idx s0 + 1) = zero_entry"
    and b: "balanced body" "\<And>t. hal_file (stream (body t)) = hal_file (stream t)"
    and i: "in_repeat s0 lbl e s1" "\<not> skip e" and k: "k < unat (repeats e)"
  shows "in_repeat s0 lbl (e\<lparr>repeats := repeats e - of_nat k\<rparr>) ((repeat_pass env lbl body ^^ k) s1)"
  using k
proof (induction k)
  case 0
  then show ?case using i(1) by simp
next
  case (Suc k)
  then have IH: "in_repeat s0 lbl (e\<lparr>repeats := repeats e - of_nat k\<rparr>) ((repeat_pass env lbl body ^^ k) s1)" by simp
  have "unat (repeats e - of_nat k) = unat (repeats e) - k" "unat (repeats e - of_nat (Suc k)) = unat (repeats e) - Suc k"
    using Suc.prems by (intro unat_minus_of_nat; simp)+
  then have "unat (repeats e - of_nat k) \<noteq> 0" "unat (repeats e - of_nat (Suc k)) \<noteq> 0"
    using Suc.prems by linarith+
  then have "repeats e - of_nat k \<noteq> 0" "repeats e - of_nat k - 1 \<noteq> 0"
    by (auto simp: diff_diff_eq add.commute)
  then show ?case
    using repeat_pass_step [OF r z IH b] i(2) by (simp add: diff_diff_eq add.commute)
qed

lemma repeat_runs:
  assumes "flow_reachable env0 s" "\<not> skipping s" "stack_idx s < 19" "hal_file (stream s) \<noteq> 0"
    "env_eval env line pos (params s) = (Status_OK, v, p)" "\<not> f32_is_nan v"
    "balanced body" "\<forall>t. hal_file (stream (body t)) = hal_file (stream t)"
    "n = (if f32_rint_le_zero v then 0 else unat (f32_rint_u32 v))"
  shows "\<exists>s1. cmd_repeat env lbl lnr line pos s = (Status_OK, p, s1) \<and>
    (f32_rint_le_zero v \<longrightarrow> skipping s1 \<and> stack (repeat_pass env lbl body s1) = stack s \<and>
       stack_idx (repeat_pass env lbl body s1) = stack_idx s) \<and>
    (\<not> f32_rint_le_zero v \<longrightarrow> n > 0 \<and>
       (\<forall>k < n. \<not> skipping ((repeat_pass env lbl body ^^ k) s1)) \<and>
       (\<forall>k. Suc k < n \<longrightarrow> stream ((repeat_pass env lbl body ^^ Suc k) s1) =
          stream_reposition (env_vfs env) (hal_file (stream s)) (vfs_tell (env_vfs env) (hal_file (stream s)) (fs (stream s)))
            lnr (stream (body ((repeat_pass env lbl body ^^ k) s1)))) \<and>
       stack ((repeat_pass env lbl body ^^ n) s1) = stack s \<and>
       stack_idx ((repeat_pass env lbl body ^^ n) s1) = stack_idx s)"
proof -
  have w: "wf_flow s" using assms(1) by (rule flow_reachable_wf)
  then have r: "room s" using assms(3) by (auto simp: room_def wf_flow_def wf_below_def)
  have z: "stack s ! nat (stack_idx s + 1) = zero_entry"
    using w assms(3) by (auto simp: wf_flow_def wf_below_def)
  have b: "balanced body" "\<And>t. hal_file (stream (body t)) = hal_file (stream t)" using assms(7,8) by auto
  let ?file = "hal_file (stream s)" and ?pos = "vfs_tell (env_vfs env) (hal_file (stream s)) (fs (stream s))"
  define e where "e = zero_entry\<lparr>o_label := lbl, se_line_number := lnr, se_file := ?file,
     operation := NGCFlowCtrl_Repeat, se_sub := exec_sub s\<rparr>"
  define e1 where "e1 = (if f32_rint_le_zero v then e\<lparr>skip := True\<rparr>
     else e\<lparr>skip := False, se_file_pos := ?pos, repeats := f32_rint_u32 v\<rparr>)"
  define s1 where "s1 = s\<lparr>stack_idx := stack_idx s + 1, stack := (stack s)[nat (stack_idx s + 1) := e1]\<rparr>"
  have c: "cmd_repeat env lbl lnr line pos s = (Status_OK, p, s1)"
    using assms(2,4,5) r z
    by (simp add: cmd_repeat_def stack_push_def NGC_STACK_DEPTH_def room_def upd_top_def top_def e_def e1_def s1_def
        nat_less_iff zero_entry_def)
  have i: "in_repeat s lbl e1 s1"
    using assms(2,4) by (auto simp: in_repeat_def s1_def e1_def e_def skipping_def)
  show ?thesis
  proof (cases "f32_rint_le_zero v")
    case True
    then have k: "skip e1" by (simp add: e1_def)
    have "skipping s1" using in_repeat_skipping [OF r i] k by simp
    with True k repeat_pass_step [OF r z i b, of env] c show ?thesis by auto
  next
    case False
    then have e1: "\<not> skip e1" "repeats e1 = f32_rint_u32 v" "se_file e1 = ?file" "se_file_pos e1 = ?pos"
      "se_line_number e1 = lnr" by (simp_all add: e1_def e_def)
    have n: "n = unat (repeats e1)" using False e1 assms(9) by simp
    have n0: "n > 0" using f32_rint_u32_pos [OF False assms(6)] n e1(2) by (simp add: unat_gt_0)
    have IH: "in_repeat s lbl (e1\<lparr>repeats := repeats e1 - of_nat k\<rparr>) ((repeat_pass env lbl body ^^ k) s1)"
      if "k < n" for k using repeat_passes [OF r z b i e1(1)] that n by simp
    have ns: "\<not> skipping ((repeat_pass env lbl body ^^ k) s1)" if "k < n" for k
      using in_repeat_skipping [OF r IH [OF that]] e1(1) by simp
    have u: "unat (repeats e1 - of_nat k) = n - k" if "k \<le> n" for k
      using that n by (simp add: unat_minus_of_nat)
    have st: "stream ((repeat_pass env lbl body ^^ Suc k) s1) =
        stream_reposition (env_vfs env) ?file ?pos lnr (stream (body ((repeat_pass env lbl body ^^ k) s1)))"
      if "Suc k < n" for k
    proof -
      have "unat (repeats e1 - of_nat k) \<noteq> 0" "unat (repeats e1 - of_nat (Suc k)) \<noteq> 0"
        using u [of k] u [of "Suc k"] that by linarith+
      then have "repeats e1 - of_nat k \<noteq> 0" "repeats e1 - of_nat k - 1 \<noteq> 0"
        by (auto simp: diff_diff_eq add.commute)
      then show ?thesis
        using repeat_pass_step [OF r z IH b, of k env] that e1 by simp
    qed
    obtain m where m: "n = Suc m" using n0 by (cases n) auto
    have "unat (repeats e1 - of_nat n) = 0" using u [of n] by simp
    then have "repeats e1 - of_nat m - 1 = 0" by (simp add: m diff_diff_eq add.commute unat_eq_zero)
    then have "stack ((repeat_pass env lbl body ^^ n) s1) = stack s \<and>
        stack_idx ((repeat_pass env lbl body ^^ n) s1) = stack_idx s"
      using repeat_pass_step [OF r z IH b, of m env] m by simp
    with c n0 ns st False show ?thesis by blast
  qed
qed

text \<open>
  C16. A repeat loop runs its body as often as its argument, rounded, says: the body is run
  in each of \<open>n\<close> passes, before each pass but the first the file is set back to the block
  after the repeat command, and after the last one the stack is as before the loop. With
  an argument that is not positive the body is skipped.
\<close>

theorem repeat_runs_n_times:
  assumes "flow_reachable env0 s" "\<not> skipping s" "stack_idx s < 19" "hal_file (stream s) \<noteq> 0"
    "env_eval env line pos (params s) = (Status_OK, v, p)" "\<not> f32_is_nan v"
    "balanced body" "\<forall>t. hal_file (stream (body t)) = hal_file (stream t)"
    "n = (if f32_rint_le_zero v then 0 else unat (f32_rint_u32 v))"
  shows "\<exists>s1. cmd_repeat env lbl lnr line pos s = (Status_OK, p, s1) \<and>
    (f32_rint_le_zero v \<longrightarrow> skipping s1 \<and> stack (repeat_pass env lbl body s1) = stack s \<and>
       stack_idx (repeat_pass env lbl body s1) = stack_idx s) \<and>
    (\<not> f32_rint_le_zero v \<longrightarrow> n > 0 \<and>
       (\<forall>k < n. \<not> skipping ((repeat_pass env lbl body ^^ k) s1)) \<and>
       (\<forall>k. Suc k < n \<longrightarrow> stream ((repeat_pass env lbl body ^^ Suc k) s1) =
          stream_reposition (env_vfs env) (hal_file (stream s)) (vfs_tell (env_vfs env) (hal_file (stream s)) (fs (stream s)))
            lnr (stream (body ((repeat_pass env lbl body ^^ k) s1)))) \<and>
       stack ((repeat_pass env lbl body ^^ n) s1) = stack s \<and>
       stack_idx ((repeat_pass env lbl body ^^ n) s1) = stack_idx s)"
  using assms by (rule repeat_runs)

theorem repeat_runs_n_times_witness:
  "\<exists>s1. cmd_repeat (mini_env\<lparr>env_eval := \<lambda>line pos p. (0, 0x40400000, 9)\<rparr>) 7 1 ''REPEAT[3]'' 6
      (init_flow (mem_sfile [])) = (0, 9, s1) \<and>
    (\<forall>k < 3. \<not> skipping ((repeat_pass (mini_env\<lparr>env_eval := \<lambda>line pos p. (0, 0x40400000, 9)\<rparr>) 7 (\<lambda>s. s) ^^ k) s1)) \<and>
    stack_idx ((repeat_pass (mini_env\<lparr>env_eval := \<lambda>line pos p. (0, 0x40400000, 9)\<rparr>) 7 (\<lambda>s. s) ^^ 3) s1) = -1"
proof -
  let ?s = "init_flow (mem_sfile []) :: (nat, u8 list) flow"
  let ?env = "mini_env\<lparr>env_eval := \<lambda>line pos p. (0, 0x40400000, 9)\<rparr>"
  have r: "flow_reachable mini_env ?s" by (rule reach_init)
  have a: "\<not> skipping ?s" "stack_idx ?s < 19" "hal_file (stream ?s) \<noteq> 0"
    by (simp_all add: skipping_def init_flow_def mem_sfile_def)
  have e: "env_eval ?env ''REPEAT[3]'' 6 (params ?s) = (0, 0x40400000, 9)" by simp
  have v: "\<not> f32_is_nan 0x40400000" "\<not> f32_rint_le_zero 0x40400000" "f32_rint_u32 0x40400000 = 3"
    by (simp_all add: f32_defs)
  have b: "balanced (\<lambda>s. s)" "\<forall>t :: (nat, u8 list) flow. hal_file (stream t) = hal_file (stream t)"
    by (simp_all add: balanced_def)
  have n: "3 = (if f32_rint_le_zero 0x40400000 then 0 else unat (f32_rint_u32 0x40400000))"
    by (simp add: v)
  from repeat_runs_n_times [OF r a e v(1) b n, of 7 1] v(2) show ?thesis
    by (auto simp: init_flow_def)
qed

section \<open>Subroutine calls\<close>

lemma call_body_trans: "call_body s1 s2 \<Longrightarrow> call_body s0 s1 \<Longrightarrow> call_body s0 s2"
proof (induction rule: call_body.induct)
  case (body_call s s1 c s2 s3 b s4)
  then show ?case using call_body.body_call by blast
qed (auto intro: call_body.intros)

lemma store_args_body: "call_body p (snd (store_args k vs st p))"
proof (induction vs arbitrary: k st p)
  case (Cons v vs)
  have "call_body p (snd (ngc_param_set (of_nat k) v p))" by (intro body_set body_nil)
  then show ?case
    using Cons.IH call_body_trans [OF Cons.IH, of p "snd (ngc_param_set (of_nat k) v p)"]
    by (simp add: case_prod_unfold Let_def)
qed (simp add: body_nil)



lemma enter_sub_effect:
  assumes w: "wf_flow s" and e: "enter_sub env lbl lnr sub vs s = (Status_OK, s1)"
  shows "\<exists>p0 p1. ngc_call_push (slot_addr (stack_idx s + 1)) (params s) = (True, p0) \<and>
    p1 = snd (store_args 1 vs Status_OK p0) \<and> fst (store_args 1 vs Status_OK p0) = Status_OK \<and>
    params s1 = snd (ngc_named_param_set ''_value_returned'' f32_0 (snd (ngc_named_param_set ''_value'' f32_0 p1))) \<and>
    stack_idx s1 = stack_idx s + 1 \<and> stack_idx s1 \<ge> 0 \<and> skip_sub s1 = skip_sub s \<and> exec_sub s1 = sub_addr sub \<and>
    top s1 = zero_entry\<lparr>o_label := lbl, se_line_number := lnr, se_file := hal_file (stream s),
        operation := NGCFlowCtrl_Call, se_sub := sub_addr sub,
        se_file_pos := vfs_tell (env_vfs env) (hal_file (stream s)) (fs (stream s)), repeats := 1\<rparr> \<and>
    (\<forall>i. int i \<le> stack_idx s \<longrightarrow> stack s1 ! i = stack s ! i) \<and>
    stream s1 = stream_reposition (env_vfs env) (sub_file sub) (sub_file_pos sub) (sub_line_number sub) (stream s)"
proof -
  obtain st t where p: "stack_push lbl lnr NGCFlowCtrl_Call s = (st, t)" by fastforce
  have st: "st = Status_OK" using e p by (auto simp: enter_sub_def split: if_splits)
  have c: "wf_below t" "stack_idx t = stack_idx s + 1" "stack_idx t \<ge> 0"
      "top t = zero_entry\<lparr>o_label := lbl, se_line_number := lnr, se_file := hal_file (stream s),
                 operation := NGCFlowCtrl_Call, se_sub := exec_sub s\<rparr>"
      "\<And>i. int i \<le> stack_idx s \<Longrightarrow> stack t ! i = stack s ! i"
      "stream t = stream s" "skip_sub t = skip_sub s"
      "ngc_call_push (slot_addr (stack_idx s + 1)) (params s) = (True, params t)"
    using stack_push_cases [OF p w] st by (auto simp: flow_status)
  let ?f = "\<lambda>e. e\<lparr>se_sub := sub_addr sub, se_file := hal_file (stream t),
       se_file_pos := vfs_tell (env_vfs env) (hal_file (stream t)) (fs (stream t)), repeats := 1\<rparr>"
  let ?t = "upd_top ?f (t\<lparr>exec_sub := sub_addr sub\<rparr>)"
  have u: "top ?t = ?f (top t)" using c(1,3) by simp
  have ui: "stack ?t ! i = stack t ! i" if "int i \<le> stack_idx s" for i
    using that c(2) by (simp add: upd_top_def)
  from e p st have ok: "fst (store_args 1 vs Status_OK (params t)) = Status_OK"
    and s1: "s1 = set_named ''_value_returned'' f32_0 (set_named ''_value'' f32_0
        (?t\<lparr>params := snd (store_args 1 vs Status_OK (params t))\<rparr>))
       \<lparr>stream := stream_reposition (env_vfs env) (sub_file sub) (sub_file_pos sub) (sub_line_number sub) (stream t)\<rparr>"
    by (auto simp: enter_sub_def Let_def case_prod_unfold set_named_def split: if_splits)
  have tt: "top s1 = top ?t" "stack s1 = stack ?t" by (simp_all add: s1 set_named_def top_def)
  show ?thesis
    using c(2-8) ok u ui
    unfolding tt by (auto simp: s1 set_named_def zero_entry_def)
qed

lemma ngc_param_get_named [simp]:
  "ngc_param_get ro k (snd (ngc_named_param_set n v p)) = ngc_param_get ro k p"
  by (simp add: ngc_param_get_def param_context_def ngc_named_param_set_frame)



lemma slot_fresh:
  "wf_flow s \<Longrightarrow> slot_addr (stack_idx s + 1) \<notin> set (0 # level_contexts (params s))"
  by (auto simp: wf_flow_def wf_below_def call_slots_def slot_addr_def)

lemma cmd_call_numbered:
  assumes "\<not> skipping s" "lbl \<le> NGC_MAX_PARAM_ID" "cmd_call env lbl lnr line pos s = (Status_OK, p, s1)"
  shows "\<exists>sub vs. find (\<lambda>sub. sub_o_label sub = lbl \<and> sub_file sub = hal_file (stream s)) (subs s) = Some sub \<and>
    call_args env 30 line pos (params s) = (Status_OK, p, vs) \<and>
    enter_sub env lbl lnr sub (fill_args env (params s) vs) s = (Status_OK, s1)"
  using assms leD [OF assms(2)]
  by (auto simp: cmd_call_def Let_def flow_status split: option.splits prod.splits if_splits)


text \<open>
  C8. When a subroutine that was called ends, the program continues after the call:
  the file is set back to where it was then, the stack is what it was before the call, the
  local parameters of the caller read as before it, and blocks are not skipped. The body
  may store parameters and call subroutines; at its end the stack is as at its start.
\<close>

theorem cmd_call_endsub_returns:
  assumes "flow_reachable env0 s" "\<not> skipping s" "lbl \<le> NGC_MAX_PARAM_ID"
    "cmd_call env lbl lnr line pos s = (Status_OK, p, s1)"
    "stack s2 = stack s1" "stack_idx s2 = stack_idx s1" "skip_sub s2 = skip_sub s1"
    "hal_file (stream s2) \<noteq> 0" "call_body (params s1) (params s2)"
    "cmd_endsub env lbl line' pos' s2 = (st, p', s3)"
  shows "st = Status_OK \<and> stack s3 = stack s \<and> stack_idx s3 = stack_idx s \<and> \<not> skipping s3 \<and>
    stream s3 = stream_reposition (env_vfs env) (hal_file (stream s))
      (vfs_tell (env_vfs env) (hal_file (stream s)) (fs (stream s))) lnr (stream s2) \<and>
    call_level (params s3) = call_level (params s) \<and> call_context (params s3) = call_context (params s) \<and>
    (\<forall>k. k \<le> 30 \<longrightarrow> ngc_param_get ro k (params s3) = ngc_param_get ro k (params s))"
proof -
  have w: "wf_flow s" using assms(1) by (rule flow_reachable_wf)
  obtain sub vs where en: "enter_sub env lbl lnr sub vs s = (Status_OK, s1)"
    using cmd_call_numbered [OF assms(2-4)] by auto
  from enter_sub_effect [OF w en] obtain p0 where p0: "ngc_call_push (slot_addr (stack_idx s + 1)) (params s) = (True, p0)"
    "params s1 = snd (ngc_named_param_set ''_value_returned'' f32_0 (snd (ngc_named_param_set ''_value'' f32_0
       (snd (store_args 1 vs Status_OK p0)))))"
    and s1: "stack_idx s1 = stack_idx s + 1" "stack_idx s1 \<ge> 0" "skip_sub s1 = skip_sub s"
      "top s1 = zero_entry\<lparr>o_label := lbl, se_line_number := lnr, se_file := hal_file (stream s),
        operation := NGCFlowCtrl_Call, se_sub := sub_addr sub,
        se_file_pos := vfs_tell (env_vfs env) (hal_file (stream s)) (fs (stream s)), repeats := 1\<rparr>"
      "\<forall>i. int i \<le> stack_idx s \<longrightarrow> stack s1 ! i = stack s ! i"
    by auto
  have b: "call_body p0 (params s2)"
    using call_body_trans [OF assms(9)] p0(2) store_args_body body_named by metis
  have t: "top s2 = top s1" using assms(5,6) by (simp add: top_def)
  have ns: "\<not> skip_sub s2" using assms(2,7) s1(3) by (simp add: skipping_def)
  define s4 where "s4 = snd (stack_pull (reposition_top env s2))"
  have un: "stack_unwind_sub env lbl s2 = s4\<lparr>exec_sub := (if stack_idx s4 \<ge> 0 then se_sub (top s4) else 0)\<rparr>"
    using t s1(2,4) leD [OF assms(3)] assms(6)
    by (simp add: stack_unwind_sub_def Let_def s4_def pull_until.simps [of lbl s2])
  have s4: "params s4 = snd (ngc_call_pop (params s2))" "stack s4 = (stack s2)[nat (stack_idx s2) := zero_entry]"
    "stack_idx s4 = stack_idx s" "skip_sub s4 = skip_sub s2" "stream s4 = stream (reposition_top env s2)"
    using t s1 assms(6) by (simp_all add: s4_def stack_pull_def Let_def top_def)
  have w1: "wf_flow s1" using enter_sub_wf [OF w, of env lbl lnr sub vs] en by simp
  have stk: "stack s4 = stack s"
  proof (rule nth_equalityI)
    show len: "length (stack s4) = length (stack s)"
      using w w1 s4(2) assms(5) by (simp add: wf_flow_def wf_below_def)
    fix i assume "i < length (stack s4)"
    then have i: "i < 20" using len w by (simp add: wf_flow_def wf_below_def)
    show "stack s4 ! i = stack s ! i"
    proof (cases "int i \<le> stack_idx s")
      case True
      then show ?thesis using s1(1,5) assms(5,6) by (simp add: s4(2))
    next
      case False
      then have "stack s ! i = zero_entry" using i w by (simp add: wf_flow_def wf_below_def)
      moreover have "stack s4 ! i = zero_entry"
      proof (cases "i = nat (stack_idx s2)")
        case True
        then show ?thesis using i w1 assms(5) by (simp add: s4(2) wf_flow_def wf_below_def)
      next
        case False
        then have "stack_idx s1 < int i" using \<open>\<not> int i \<le> stack_idx s\<close> s1(1) assms(6) by linarith
        then show ?thesis using False i w1 assms(5) by (simp add: s4(2) wf_flow_def wf_below_def)
      qed
      ultimately show ?thesis by simp
    qed
  qed
  have wc: "wf_calls (params s)" using w by (simp add: wf_flow_def wf_below_def)
  note iso = call_isolation [OF wc slot_fresh [OF w] p0(1) b prod.collapse [symmetric], of ro "\<lambda>_. 0", folded s4(1)]
  have r: "st = Status_OK" "s3 = (snd (return_value env line' pos' (stack_unwind_sub env lbl s2)))\<lparr>skip_sub := False\<rparr>"
    using assms(8,10) ns by (auto simp: cmd_endsub_def Let_def case_prod_unfold)
  have rv: "stack (snd (return_value env l q x)) = stack x" "stack_idx (snd (return_value env l q x)) = stack_idx x"
    "stream (snd (return_value env l q x)) = stream x"
    "same_calls (params x) (params (snd (return_value env l q x)))"
    "ngc_param_get ro k (params (snd (return_value env l q x))) = ngc_param_get ro k (params x)" for l q k and x :: "('a, 'b) flow"
    by (simp_all add: return_value_def case_prod_unfold Let_def set_named_def same_calls_trans [OF same_calls_named same_calls_named])
  have "\<not> skipping s3" using assms(2) stk s4(3) by (simp add: r(2) skipping_def top_def rv un)
  moreover have "stream s3 = stream_reposition (env_vfs env) (hal_file (stream s))
      (vfs_tell (env_vfs env) (hal_file (stream s)) (fs (stream s))) lnr (stream s2)"
    using t s1(4) by (simp add: r(2) rv un s4(5) reposition_top_def)
  moreover have "same_calls (params s4) (params s3)" using rv(4) [of "stack_unwind_sub env lbl s2"] by (simp add: r(2) un)
  ultimately show ?thesis
    using r(1) stk s4(3) iso by (simp add: same_calls_def) (simp add: r(2) rv un)
qed

text \<open>The state after the definition of subroutine 1 in an empty file.\<close>

definition mini_sub_state :: "(nat, u8 list) flow" where
  "mini_sub_state = (init_flow (mem_sfile []))\<lparr>subs :=
     [\<lparr>sub_addr = 1, sub_o_label = 1, sub_file = 1, sub_file_pos = 0, sub_line_number = 3\<rparr>], next_addr := 2\<rparr>"

lemma mini_sub_reachable: "flow_reachable mini_env mini_sub_state"
proof -
  have a: "ngc_flowctrl mini_env 1 3 ''SUB'' 0 False (init_flow (mem_sfile [])) =
      (0, 3, True, mini_sub_state\<lparr>skip_sub := True\<rparr>)"
    by (simp add: flow_eval mini_sub_state_def cmd_sub_def add_sub_def malloc_def mem_vfs_def NGC_MAX_PARAM_ID_def Let_def)
  have b: "ngc_flowctrl mini_env 1 4 ''ENDSUB'' 0 True (mini_sub_state\<lparr>skip_sub := True\<rparr>) = (0, 6, False, mini_sub_state)"
    by (simp add: flow_eval mini_sub_state_def cmd_endsub_def)
  show ?thesis
    using reach_step [OF reach_step [OF reach_init step_command [OF a]] step_command [OF b]] .
qed

lemma store_zeros: "store_args k (replicate n f32_0) st p = (st, p)"
  by (induction n arbitrary: k) simp_all

lemma mini_fill: "fill_args mini_env (params mini_sub_state) [f32_1] = f32_1 # replicate 29 f32_0"
proof -
  have "snd (ngc_param_get (env_ro_get mini_env) k (params mini_sub_state)) = f32_0" for k
    by (simp add: ngc_param_get_def mini_env_def mini_sub_state_def init_flow_def init_params_def f32_0_def split: option.split)
  then show ?thesis by (simp add: fill_args_def map_replicate_const del: upt_Suc)
qed

definition mini_called :: "(nat, u8 list) flow" where
  "mini_called = snd (snd (cmd_call mini_env 1 9 ''CALL[1]'' 4 mini_sub_state))"

lemma mini_call: "cmd_call mini_env 1 9 ''CALL[1]'' 4 mini_sub_state = (0, 7, mini_called)"
proof -
  have "call_args mini_env 30 ''CALL[1]'' 4 (params mini_sub_state) = (0, 7, [f32_1])"
    by (simp add: numeral_eq_Suc cstr_at_def NUL_def mini_env_def)
  moreover have "fst (enter_sub mini_env 1 9 \<lparr>sub_addr = 1, sub_o_label = 1, sub_file = 1, sub_file_pos = 0, sub_line_number = 3\<rparr>
      (fill_args mini_env (params mini_sub_state) [f32_1]) mini_sub_state) = 0"
    unfolding mini_fill enter_sub_def
    by (simp add: store_zeros stack_push_def mini_sub_state_def init_flow_def NGC_STACK_DEPTH_def ngc_call_push_def
        NGC_MAX_CALL_LEVEL_def init_params_def ngc_param_set_def ngc_ro_params_def malloc_def case_prod_unfold Let_def)
  ultimately show ?thesis
    unfolding mini_called_def
    by (simp add: cmd_call_def mini_sub_state_def init_flow_def skipping_def mem_sfile_def NGC_MAX_PARAM_ID_def prod_eq_iff case_prod_unfold Let_def)
qed


theorem cmd_call_endsub_returns_witness:
  "\<exists>s1 s3. cmd_call mini_env 1 9 ''CALL[1]'' 4 mini_sub_state = (0, 7, s1) \<and> stack_idx s1 = 0 \<and>
     cmd_endsub mini_env 1 ''ENDSUB'' 6 s1 = (0, 6, s3) \<and> stack_idx s3 = -1 \<and> call_level (params s3) = -1"
proof -
  have a: "\<not> skipping mini_sub_state" "(1 :: u32) \<le> NGC_MAX_PARAM_ID"
    by (simp_all add: skipping_def mini_sub_state_def init_flow_def NGC_MAX_PARAM_ID_def)
  have w: "wf_flow mini_sub_state" by (rule flow_reachable_wf [OF mini_sub_reachable])
  obtain sub vs where "enter_sub mini_env 1 9 sub vs mini_sub_state = (0, mini_called)"
    using cmd_call_numbered [OF a mini_call] by auto
  from enter_sub_effect [OF w this] have i: "stack_idx mini_called = 0" and h: "hal_file (stream mini_called) \<noteq> 0"
    by (auto simp: mini_sub_state_def init_flow_def mem_sfile_def)
  obtain st p3 s3 where e: "cmd_endsub mini_env 1 ''ENDSUB'' 6 mini_called = (st, p3, s3)" using prod_cases3 by blast
  have p3: "p3 = 6" using e h by (auto simp: cmd_endsub_def return_value_def mini_env_def Let_def split: if_splits prod.splits)
  from cmd_call_endsub_returns [OF mini_sub_reachable a mini_call refl refl refl h body_nil e, of "\<lambda>_. 0"]
  have "st = 0 \<and> stack_idx s3 = -1 \<and> call_level (params s3) = -1"
    by (simp add: mini_sub_state_def init_flow_def init_params_def)
  with e p3 i mini_call show ?thesis by blast
qed

end
