(* ===== verification/System_states.thy ===== *)
theory System_states
  imports Prelude
begin

text \<open>
  The system states and the flags of the realtime executor, \<^verbatim>\<open>grbl/system.h\<close>. A state is one bit of a word, so
  that the code can test for several states at once.
\<close>

definition STATE_IDLE :: u32 where "STATE_IDLE = 0"

definition STATE_ALARM :: u32 where "STATE_ALARM = 0x001"

definition STATE_CHECK_MODE :: u32 where "STATE_CHECK_MODE = 0x002"

definition STATE_HOMING :: u32 where "STATE_HOMING = 0x004"

definition STATE_CYCLE :: u32 where "STATE_CYCLE = 0x008"

definition STATE_HOLD :: u32 where "STATE_HOLD = 0x010"

definition STATE_JOG :: u32 where "STATE_JOG = 0x020"

definition STATE_SAFETY_DOOR :: u32 where "STATE_SAFETY_DOOR = 0x040"

definition STATE_SLEEP :: u32 where "STATE_SLEEP = 0x080"

definition STATE_ESTOP :: u32 where "STATE_ESTOP = 0x100"

definition STATE_TOOL_CHANGE :: u32 where "STATE_TOOL_CHANGE = 0x200"

lemmas state_defs = STATE_IDLE_def STATE_ALARM_def STATE_CHECK_MODE_def STATE_HOMING_def STATE_CYCLE_def
  STATE_HOLD_def STATE_JOG_def STATE_SAFETY_DOOR_def STATE_SLEEP_def STATE_ESTOP_def STATE_TOOL_CHANGE_def

definition EXEC_STATUS_REPORT :: u32 where "EXEC_STATUS_REPORT = 0x0001"

definition EXEC_CYCLE_START :: u32 where "EXEC_CYCLE_START = 0x0002"

definition EXEC_CYCLE_COMPLETE :: u32 where "EXEC_CYCLE_COMPLETE = 0x0004"

definition EXEC_FEED_HOLD :: u32 where "EXEC_FEED_HOLD = 0x0008"

definition EXEC_RESET :: u32 where "EXEC_RESET = 0x0020"

definition EXEC_SAFETY_DOOR :: u32 where "EXEC_SAFETY_DOOR = 0x0040"

definition EXEC_MOTION_CANCEL :: u32 where "EXEC_MOTION_CANCEL = 0x0080"

definition EXEC_SLEEP :: u32 where "EXEC_SLEEP = 0x0200"

definition EXEC_TOOL_CHANGE :: u32 where "EXEC_TOOL_CHANGE = 0x0400"

definition EXEC_DOOR_CLOSED :: u32 where "EXEC_DOOR_CLOSED = 0x8000"

lemmas exec_defs = EXEC_STATUS_REPORT_def EXEC_CYCLE_START_def EXEC_CYCLE_COMPLETE_def EXEC_FEED_HOLD_def
  EXEC_RESET_def EXEC_SAFETY_DOOR_def EXEC_MOTION_CANCEL_def EXEC_SLEEP_def EXEC_TOOL_CHANGE_def
  EXEC_DOOR_CLOSED_def

definition has :: "u32 \<Rightarrow> u32 \<Rightarrow> bool" where
  "has w m \<longleftrightarrow> w AND m \<noteq> 0"

end
