(* ===== verification/State_machine.thy ===== *)
theory State_machine
  imports System_states Float32
begin

unbundle bit_operations_syntax

text \<open>
  The main state machine, \<^verbatim>\<open>grbl/state_machine.c\<close>: the system state, the handler that waits for the
  next event, feed hold, tool change, sleep and the safety door with its parking motions.
  The calls into the rest of the firmware that only have an effect there (motors, spindle,
  coolant, reports) are recorded, in order, in \<open>out\<close>. What the state machine reads from
  the rest of the firmware (signals, settings, the current planner block, the parser
  state) is in a record \<open>w\<close> that every operation takes. The firmware is configured with
  one spindle (\<^verbatim>\<open>N_SYS_SPINDLE\<close> is 1). Spindle and coolant are restored with delays in which
  events are processed (\<^verbatim>\<open>delay_sec\<close> calls \<^verbatim>\<open>protocol_exec_rt_system\<close>): \<open>w_during\<close> is what
  these do, and \<open>w_again\<close> what the delays of further restores do that are started from within
  such a delay. Where it matters they are runs of this state machine, see \<open>sm_step\<close>.
\<close>

section \<open>Data\<close>

definition Alarm_None :: u8 where "Alarm_None = 0"

definition Alarm_EStop :: u8 where "Alarm_EStop = 10"

definition Alarm_SelftestFailed :: u8 where "Alarm_SelftestFailed = 16"

definition Alarm_Spindle :: u8 where "Alarm_Spindle = 14"

datatype parking_state =
  Parking_DoorClosed | Parking_DoorAjar | Parking_Retracting | Parking_Cancel | Parking_Resuming

datatype hold_state = Hold_NotHolding | Hold_Complete | Hold_Pending

datatype state_handler =
    H_idle | H_cycle | H_await_hold | H_noop | H_await_motion_cancel | H_await_resume
  | H_await_toolchanged | H_await_waypoint_retract | H_restore | H_await_resumed
  | H_await_restart_retract

record spindle =
  sp_hal :: ptr
  sp_state :: u8
  sp_rpm :: f32

record restore_condition =
  rc_coolant :: u8
  rc_spindle :: spindle

record step_control =
  end_motion :: bool
  execute_hold :: bool
  execute_sys_motion :: bool
  update_spindle_rpm :: bool

record spindle_stop =
  ss_enabled :: bool
  ss_initiate :: bool
  ss_restore :: bool
  ss_restore_cycle :: bool

record plan_data =
  pd_system_motion :: bool
  pd_no_feed_override :: bool
  pd_feed_rate :: f32
  pd_coolant :: u8
  pd_spindle :: spindle

record parking_data =
  pk_active :: bool
  pk_motion :: bool
  pk_restart :: bool
  pk_restoring :: bool
  pk_target :: "f32 list"
  pk_restore_target :: "f32 list"
  pk_retract_waypoint :: f32
  pk_plan_data :: plan_data

record plan_block =
  bl_spindle :: spindle
  bl_coolant :: u8
  bl_synchronized :: bool
  bl_units_per_rev :: bool

datatype action =
    St_go_idle | Spindle_all_off | Spindle_off | Spindle_restore spindle | Spindle_deenergize ptr
  | Coolant_set u8 | Coolant_restore u8 | Feedback nat | St_update_plan bool | St_prep_buffer
  | St_wake_up | St_reset | Plan_reset | Plan_reinitialize | Sync_position | Parking_restore_buffer
  | Parking_motion "f32 list" f32 | Suspend_read bool | Tool_changed | Enqueue_spindle_stop
  | Alarm_message u8 | State_changed u32

record sm =
  sys_state :: u32
  pending_state :: u32
  stateHandler :: state_handler
  suspend :: bool
  step_control :: step_control
  parking_state :: parking_state
  holding_state :: hold_state
  soft_limit :: bool
  feed_hold_pending :: bool
  is_homing :: bool
  is_parking :: bool
  steppers_deenergize :: bool
  blocking_event :: bool
  spindle_stop :: spindle_stop
  alarm :: u8
  alarm_pending :: u8
  rt_exec_state :: u32
  rt_exec_alarm :: u8
  restore_cond :: restore_condition
  park :: parking_data
  out :: "action list"

datatype sync_result = Sync_ok | Sync_timeout | Sync_reset

record world =
  w_block :: "plan_block option"
  w_gc_spindle :: spindle
  w_laser :: "ptr \<Rightarrow> bool"
  w_spindle_on :: "ptr \<Rightarrow> bool"
  w_spindle_set_ok :: bool
  w_sync :: sync_result
  w_spindle_stopped :: bool
  w_coolant :: u8
  w_gc_coolant :: u8
  w_door_ajar :: bool
  w_tool_change :: bool
  w_probing :: bool
  w_abort :: bool
  w_plan_ok :: bool
  w_homed :: u8
  w_mpos :: "f32 list"
  w_feed_hold_disable :: bool
  w_override_sync :: bool
  w_parking_disable :: bool
  w_parking_enabled :: bool
  w_parking_axis :: nat
  w_parking_target :: f32
  w_pullout_increment :: f32
  w_pullout_rate :: f32
  w_parking_rate :: f32
  w_keep_coolant_on :: bool
  w_disable_laser_during_hold :: bool
  w_restore_after_feed_hold :: bool
  w_suspend_read :: bool
  w_driver_started :: bool
  w_fadd :: "f32 \<Rightarrow> f32 \<Rightarrow> f32"
  w_during :: "sm \<Rightarrow> sm"
  w_again :: "(sm \<Rightarrow> sm) list"

definition no_step_control :: step_control where
  "no_step_control = \<lparr>end_motion = False, execute_hold = False, execute_sys_motion = False,
     update_spindle_rpm = False\<rparr>"

definition no_spindle_stop :: spindle_stop where
  "no_spindle_stop = \<lparr>ss_enabled = False, ss_initiate = False, ss_restore = False, ss_restore_cycle = False\<rparr>"

definition sp_on :: "u8 \<Rightarrow> bool" where
  "sp_on st \<longleftrightarrow> bit st 0"

definition emit :: "action \<Rightarrow> sm \<Rightarrow> sm" where
  "emit a s = s\<lparr>out := out s @ [a]\<rparr>"

definition emits :: "action list \<Rightarrow> sm \<Rightarrow> sm" where
  "emits as s = s\<lparr>out := out s @ as\<rparr>"

definition set_exec_state :: "u32 \<Rightarrow> sm \<Rightarrow> sm" where
  "set_exec_state f s = s\<lparr>rt_exec_state := rt_exec_state s OR f\<rparr>"

definition set_exec_alarm :: "u8 \<Rightarrow> sm \<Rightarrow> sm" where
  "set_exec_alarm a s = s\<lparr>rt_exec_alarm := a\<rparr>"

definition upd_step :: "(step_control \<Rightarrow> step_control) \<Rightarrow> sm \<Rightarrow> sm" where
  "upd_step f s = s\<lparr>step_control := f (step_control s)\<rparr>"

definition upd_park :: "(parking_data \<Rightarrow> parking_data) \<Rightarrow> sm \<Rightarrow> sm" where
  "upd_park f s = s\<lparr>park := f (park s)\<rparr>"

definition clear_park_flags :: "parking_data \<Rightarrow> parking_data" where
  "clear_park_flags p = p\<lparr>pk_active := False, pk_motion := False, pk_restart := False, pk_restoring := False\<rparr>"

section \<open>Spindle, coolant and hold\<close>

text \<open>\<^verbatim>\<open>spindle_restore\<close> of a laser sets the flag that has the stepper module update the power;
  it delays only if the laser is ramped up.\<close>

definition state_spindle_restore :: "world \<Rightarrow> spindle \<Rightarrow> sm \<Rightarrow> sm" where
  "state_spindle_restore w sp s =
     (if sp_hal sp \<noteq> 0
      then
        let s1 = emit (Spindle_restore sp) s
        in if w_laser w (sp_hal sp)
           then upd_step (\<lambda>c. c\<lparr>update_spindle_rpm := w_spindle_set_ok w\<rparr>) (w_during w s1)
           else w_during w s1
      else s)"

definition state_restore_conditions :: "world \<Rightarrow> restore_condition \<Rightarrow> sm \<Rightarrow> sm" where
  "state_restore_conditions w rc s =
     (if \<not> w_parking_enabled w \<or> \<not> pk_restart (park s)
      then
        let s1 = upd_park (\<lambda>p. p\<lparr>pk_restoring := True\<rparr>) s;
            s2 = state_spindle_restore w (rc_spindle rc) s1;
            s3 = (if w_gc_coolant w \<noteq> w_coolant w
                  then emit (Coolant_set (rc_coolant rc)) (w_during w (emit (Coolant_restore (rc_coolant rc)) s2))
                  else s2);
            s4 = upd_park (\<lambda>p. p\<lparr>pk_restoring := False\<rparr>) s3
        in s4\<lparr>spindle_stop := no_spindle_stop\<rparr>
      else s)"

definition enter_sleep :: "sm \<Rightarrow> sm" where
  "enter_sleep s = (emits [St_go_idle, Spindle_all_off, Coolant_set 0, Feedback 11] s)\<lparr>stateHandler := H_noop\<rparr>"

definition saved_spindle :: "world \<Rightarrow> spindle \<Rightarrow> spindle" where
  "saved_spindle w old =
     (case w_block w of
        Some b \<Rightarrow> if sp_hal (bl_spindle b) = sp_hal (w_gc_spindle w) then bl_spindle b
                  else if sp_hal (w_gc_spindle w) \<noteq> 0 then w_gc_spindle w else old\<lparr>sp_hal := 0\<rparr>
      | None \<Rightarrow> if sp_hal (w_gc_spindle w) \<noteq> 0 then w_gc_spindle w else old\<lparr>sp_hal := 0\<rparr>)"

definition park_plan_init :: "world \<Rightarrow> plan_data" where
  "park_plan_init w = \<lparr>pd_system_motion = True, pd_no_feed_override = True, pd_feed_rate = 0, pd_coolant = 0,
     pd_spindle = \<lparr>sp_hal = sp_hal (w_gc_spindle w), sp_state = 0, sp_rpm = 0\<rparr>\<rparr>"

text \<open>The pointer in \<open>rc_spindle\<close> may be null, the source reads \<^verbatim>\<open>hal->cap.laser\<close> through it all
  the same: \<open>w_laser w 0\<close> is what is read at that address (flash memory on this processor).\<close>

definition initiate_hold :: "world \<Rightarrow> u32 \<Rightarrow> sm \<Rightarrow> bool \<times> sm" where
  "initiate_hold w new_state s =
     (let s1 = (if w_parking_enabled w then upd_park (\<lambda>p. p\<lparr>pk_plan_data := park_plan_init w\<rparr>) s else s);
          rc = \<lparr>rc_coolant = (case w_block w of Some b \<Rightarrow> bl_coolant b | None \<Rightarrow> w_gc_coolant w OR w_coolant w),
                rc_spindle = saved_spindle w (rc_spindle (restore_cond s1))\<rparr>;
          s2 = s1\<lparr>restore_cond := rc\<rparr>;
          s3 = (if w_laser w (sp_hal (rc_spindle rc)) \<and> w_disable_laser_during_hold w
                then emit Enqueue_spindle_stop s2 else s2);
          s4 = (if has (sys_state s3) (STATE_CYCLE OR STATE_JOG)
                then (upd_step (\<lambda>c. c\<lparr>execute_hold := True\<rparr>) (emit (St_update_plan False) s3))
                       \<lparr>stateHandler := H_await_hold\<rparr>
                else s3);
          s5 = (if new_state = STATE_HOLD then s4\<lparr>holding_state := Hold_Pending\<rparr>
                else upd_park clear_park_flags (s4\<lparr>parking_state := Parking_Retracting\<rparr>));
          s6 = s5\<lparr>suspend := \<not> soft_limit s5,
                  pending_state := (if sys_state s5 = STATE_JOG then new_state else STATE_IDLE)\<rparr>
      in (sys_state s6 = STATE_CYCLE, s6))"

definition state_door_reopened :: "world \<Rightarrow> sm \<Rightarrow> bool" where
  "state_door_reopened w s \<longleftrightarrow> w_parking_enabled w \<and> pk_restart (park s)"

section \<open>Changing the state\<close>

definition alarm_is_critical :: "u8 \<Rightarrow> bool" where
  "alarm_is_critical a \<longleftrightarrow> a \<in> {1, 2, 10, 17, 20}"

text \<open>The end of \<^verbatim>\<open>state_set\<close>.\<close>

definition state_set_end :: "u32 \<Rightarrow> sm \<Rightarrow> sm" where
  "state_set_end org s =
     (let s1 = s\<lparr>is_homing := (sys_state s = STATE_HOMING)\<rparr>;
          s2 = (if \<not> has (sys_state s1) (STATE_ALARM OR STATE_ESTOP) then s1\<lparr>alarm := Alarm_None\<rparr> else s1)
      in if sys_state s2 \<noteq> org then emit (State_changed (sys_state s2)) s2 else s2)"

text \<open>The alarm, emergency stop, homing and check mode states.\<close>

definition state_set_locked :: "u32 \<Rightarrow> sm \<Rightarrow> sm" where
  "state_set_locked new s =
     (if new \<noteq> sys_state s
      then state_set_end (sys_state s) (s\<lparr>sys_state := new, suspend := False, stateHandler := H_noop\<rparr>)
      else s)"

definition system_raise_alarm :: "world \<Rightarrow> u8 \<Rightarrow> sm \<Rightarrow> sm" where
  "system_raise_alarm w a s =
     (if sys_state s = STATE_HOMING \<and> \<not> has (rt_exec_state s) EXEC_RESET then set_exec_alarm a s
      else if alarm s \<noteq> a
      then
        if \<not> (sys_state s = STATE_ESTOP \<or> blocking_event s)
        then
          let s1 = s\<lparr>alarm := a, alarm_pending := (if a = alarm_pending s then Alarm_None else alarm_pending s),
                     blocking_event := alarm_is_critical a\<rparr>;
              s2 = state_set_locked (if a = Alarm_EStop then STATE_ESTOP else STATE_ALARM) s1
          in if w_driver_started w \<or> alarm s2 = Alarm_SelftestFailed then emit (Alarm_message a) s2 else s2
        else s\<lparr>alarm_pending := a\<rparr>
      else s)"

definition state_set_idle :: "sm \<Rightarrow> sm" where
  "state_set_idle s =
     (if sys_state s \<noteq> STATE_IDLE
      then
        let s1 = upd_park clear_park_flags
                   (s\<lparr>suspend := False, step_control := no_step_control, parking_state := Parking_DoorClosed,
                      holding_state := Hold_NotHolding, sys_state := STATE_IDLE, pending_state := STATE_IDLE,
                      stateHandler := H_idle\<rparr>);
            s2 = (if feed_hold_pending s1 then set_exec_state EXEC_FEED_HOLD (s1\<lparr>pending_state := STATE_HOLD\<rparr>) else s1)
        in state_set_end (sys_state s) s2
      else s)"

text \<open>A cycle is started from idle only, and only if there is a block. A block that is
  synchronised to the spindle first waits for two index pulses, at most 5 seconds; on a
  timeout or reset the function returns from there.\<close>

definition state_set_cycle :: "world \<Rightarrow> sm \<Rightarrow> sm" where
  "state_set_cycle w s =
     (if sys_state s = STATE_CYCLE then s
      else if sys_state s = STATE_IDLE
      then
        (case w_block w of
           None \<Rightarrow> state_set_end (sys_state s) s
         | Some b \<Rightarrow>
             let s1 = emit St_prep_buffer (s\<lparr>sys_state := STATE_CYCLE, steppers_deenergize := False\<rparr>);
                 start = state_set_end STATE_IDLE ((emit St_wake_up s1)\<lparr>stateHandler := H_cycle\<rparr>)
             in if bl_synchronized b
                then
                  if \<not> bl_units_per_rev b
                  then (case w_sync w of
                          Sync_ok \<Rightarrow> start
                        | Sync_timeout \<Rightarrow> system_raise_alarm w Alarm_Spindle s1
                        | Sync_reset \<Rightarrow> set_exec_state EXEC_RESET s1)
                  else if w_spindle_stopped w then system_raise_alarm w Alarm_Spindle s1
                  else start
                else start)
      else state_set_end (sys_state s) s)"

definition state_set_jog :: "sm \<Rightarrow> sm" where
  "state_set_jog s =
     (if sys_state s \<noteq> STATE_JOG
      then state_set_end (sys_state s)
             (s\<lparr>pending_state := (if sys_state s = STATE_TOOL_CHANGE then STATE_TOOL_CHANGE else pending_state s),
                sys_state := STATE_JOG, stateHandler := H_cycle\<rparr>)
      else s)"

definition state_set_tool_change :: "sm \<Rightarrow> sm" where
  "state_set_tool_change s =
     (if sys_state s \<noteq> STATE_TOOL_CHANGE
      then state_set_end (sys_state s) (s\<lparr>sys_state := STATE_TOOL_CHANGE, stateHandler := H_await_toolchanged\<rparr>)
      else s)"

definition state_set_hold :: "world \<Rightarrow> sm \<Rightarrow> sm" where
  "state_set_hold w s =
     (if sys_state s \<noteq> STATE_HOLD
      then
        state_set_end (sys_state s)
          (if \<not> (has (sys_state s) STATE_JOG \<or> w_feed_hold_disable w) \<or>
              pending_state s = STATE_HOLD \<and> feed_hold_pending s
           then
             let (cycling, s1) = initiate_hold w STATE_HOLD s;
                 s2 = (if \<not> cycling then s1\<lparr>holding_state := Hold_Complete, stateHandler := H_await_resume\<rparr> else s1)
             in s2\<lparr>sys_state := STATE_HOLD, feed_hold_pending := False\<rparr>
           else if w_override_sync w \<and> w_feed_hold_disable w
           then s\<lparr>feed_hold_pending := True\<rparr>
           else s)
      else s)"

section \<open>Parking\<close>

definition mc_parking_motion :: "world \<Rightarrow> f32 list \<Rightarrow> sm \<Rightarrow> bool \<times> sm" where
  "mc_parking_motion w target s =
     (if w_abort w then (False, s)
      else if w_plan_ok w
      then (True, emits [Parking_motion target (pd_feed_rate (pk_plan_data (park s))), St_prep_buffer, St_wake_up]
                    (upd_step (\<lambda>c. c\<lparr>execute_sys_motion := True, end_motion := False\<rparr>) s))
      else (False, s))"

definition door_parking_state :: "world \<Rightarrow> parking_state" where
  "door_parking_state w = (if w_door_ajar w then Parking_DoorAjar else Parking_DoorClosed)"

definition end_sys_motion :: "sm \<Rightarrow> sm" where
  "end_sys_motion s =
     (if execute_sys_motion (step_control s)
      then emit Parking_restore_buffer (upd_step (\<lambda>c. c\<lparr>execute_sys_motion := False\<rparr>) s)
      else s)"

text \<open>The first part of \<^verbatim>\<open>state_await_resume\<close>, all of it for a cycle complete event alone; tells
  whether the function returns there.\<close>

definition resume_complete :: "world \<Rightarrow> sm \<Rightarrow> bool \<times> sm" where
  "resume_complete w s =
     (if w_parking_enabled w
      then
        let s1 = (end_sys_motion s)\<lparr>parking_state := door_parking_state w\<rparr>
        in if sys_state s1 = STATE_SLEEP then (True, enter_sleep s1) else (False, s1)
      else (False, s))"

definition axis_value :: "world \<Rightarrow> f32 list \<Rightarrow> f32" where
  "axis_value w t = (if w_parking_axis w < length t then t ! w_parking_axis w else 0)"

definition upd_plan :: "(plan_data \<Rightarrow> plan_data) \<Rightarrow> sm \<Rightarrow> sm" where
  "upd_plan f s = upd_park (\<lambda>p. p\<lparr>pk_plan_data := f (pk_plan_data p)\<rparr>) s"

definition waypoint_deenergize :: "world \<Rightarrow> sm \<Rightarrow> sm" where
  "waypoint_deenergize w s =
     (let s2 = upd_plan (\<lambda>d. d\<lparr>pd_spindle := (pd_spindle d)\<lparr>sp_state := 0, sp_rpm := 0\<rparr>\<rparr>) (end_sys_motion s);
          s3 = emit (Spindle_deenergize (sp_hal (pd_spindle (pk_plan_data (park s2))))) s2;
          s4 = (if \<not> w_keep_coolant_on w
                then emit (Coolant_set 0) (upd_plan (\<lambda>d. d\<lparr>pd_coolant := 0\<rparr>) s3) else s3)
      in s4\<lparr>stateHandler := H_await_resume\<rparr>)"

definition waypoint_motion :: "world \<Rightarrow> sm \<Rightarrow> bool \<times> sm" where
  "waypoint_motion w s =
     (if pk_motion (park s) \<and> f32_less (axis_value w (pk_target (park s))) (w_parking_target w)
      then mc_parking_motion w ((pk_target (park s))[w_parking_axis w := w_parking_target w])
             (upd_plan (\<lambda>d. d\<lparr>pd_feed_rate := w_parking_rate w\<rparr>) s)
      else (False, s))"

definition state_await_waypoint_retract :: "world \<Rightarrow> u32 \<Rightarrow> sm \<Rightarrow> sm" where
  "state_await_waypoint_retract w rt s =
     (if has rt EXEC_CYCLE_COMPLETE
      then
        let (await, s1) = waypoint_motion w (waypoint_deenergize w s)
        in if \<not> await then snd (resume_complete w s1) else s1
      else s)"

text \<open>Spindle and coolant off, without a parking motion.\<close>

definition door_deenergize :: "world \<Rightarrow> sm \<Rightarrow> sm" where
  "door_deenergize w s =
     (let s1 = emit Spindle_all_off s;
          s2 = (if is_parking s1 \<or> sys_state s1 = STATE_SLEEP \<or> \<not> w_keep_coolant_on w
                then emit (Coolant_set 0) s1 else s1)
      in s2\<lparr>parking_state := door_parking_state w\<rparr>)"

text \<open>The retract to the waypoint: its target and the motion.\<close>

definition retract_target :: "world \<Rightarrow> sm \<Rightarrow> sm" where
  "retract_target w s =
     (if pk_restart (park s) then upd_park (\<lambda>p. p\<lparr>pk_target := w_mpos w\<rparr>) s
      else upd_park (\<lambda>p.
        let wp = w_fadd w (w_pullout_increment w) (axis_value w (pk_restore_target p))
        in p\<lparr>pk_target := pk_restore_target p,
             pk_retract_waypoint := (if f32_less wp (w_parking_target w) then wp else w_parking_target w)\<rparr>) s)"

definition retract_motion :: "world \<Rightarrow> sm \<Rightarrow> bool \<times> sm" where
  "retract_motion w s =
     (if f32_less (axis_value w (pk_target (park s))) (pk_retract_waypoint (park s))
      then
        let s3 = upd_park (\<lambda>p. p\<lparr>pk_target := (pk_target p)[w_parking_axis w := pk_retract_waypoint p]\<rparr>) s;
            s4 = upd_plan (\<lambda>d. d\<lparr>pd_feed_rate := w_pullout_rate w, pd_coolant := rc_coolant (restore_cond s3),
                                 pd_spindle := rc_spindle (restore_cond s3)\<rparr>) s3
        in mc_parking_motion w (pk_target (park s4)) s4
      else (False, s))"

definition retract_to_waypoint :: "world \<Rightarrow> sm \<Rightarrow> sm" where
  "retract_to_waypoint w s =
     (let (await, s3) = retract_motion w (retract_target w (s\<lparr>stateHandler := H_await_waypoint_retract\<rparr>));
          s4 = (if \<not> pk_restart (park s3) then upd_park (\<lambda>p. p\<lparr>pk_motion := await\<rparr>) s3 else s3)
      in if \<not> await then state_await_waypoint_retract w EXEC_CYCLE_COMPLETE s4 else s4)"

definition store_restore_target :: "world \<Rightarrow> sm \<Rightarrow> sm" where
  "store_restore_target w s =
     (if \<not> pk_active (park s)
      then upd_park (\<lambda>p. p\<lparr>pk_active := True, pk_restore_target := w_mpos w\<rparr>) s else s)"

definition door_manager :: "world \<Rightarrow> sm \<Rightarrow> bool \<times> sm" where
  "door_manager w s =
     (let s1 = s\<lparr>spindle_stop := no_spindle_stop\<rparr>;
          s2 = store_restore_target w s1;
          (changed, s3) =
            (if w_parking_enabled w \<and> \<not> w_parking_disable w \<and> w_laser w (sp_hal (w_gc_spindle w))
             then
               if bit (w_homed w) (w_parking_axis w) \<and>
                  f32_less (axis_value w (pk_restore_target (park s2))) (w_parking_target w)
               then (True, retract_to_waypoint w s2)
               else (False, door_deenergize w s2)
             else (False, door_deenergize w s1))
      in (changed, s3\<lparr>is_parking := False\<rparr>))"

definition await_hold_begin :: "sm \<Rightarrow> sm" where
  "await_hold_begin s =
     (let s1 = (emit Plan_reinitialize s)\<lparr>step_control := no_step_control\<rparr>
      in if alarm_pending s1 \<noteq> Alarm_None then set_exec_alarm (alarm_pending s1) s1 else s1)"

definition await_hold_stop :: "world \<Rightarrow> sm \<Rightarrow> bool \<times> sm" where
  "await_hold_stop w s =
     (if sys_state s = STATE_TOOL_CHANGE then (False, emits [Spindle_all_off, Coolant_set 0] s)
      else if sys_state s = STATE_SLEEP \<or> sys_state s = STATE_SAFETY_DOOR then door_manager w s
      else (False, s))"

definition state_await_hold :: "world \<Rightarrow> u32 \<Rightarrow> sm \<Rightarrow> sm" where
  "state_await_hold w rt s =
     (if has rt EXEC_CYCLE_COMPLETE
      then
        let (changed, s1) = await_hold_stop w (await_hold_begin s)
        in if \<not> changed
           then if soft_limit s1 then state_set_idle s1
                else s1\<lparr>holding_state := Hold_Complete, stateHandler := H_await_resume\<rparr>
           else s1
      else s)"

definition state_set_door_or_sleep :: "world \<Rightarrow> u32 \<Rightarrow> sm \<Rightarrow> sm" where
  "state_set_door_or_sleep w new s =
     (if new = sys_state s then s
      else if new = STATE_SAFETY_DOOR \<and>
              has (sys_state s) (STATE_ALARM OR STATE_ESTOP OR STATE_SLEEP OR STATE_CHECK_MODE)
      then s
      else
        let s0 = (if new = STATE_SAFETY_DOOR then emit (Feedback 6) s else s);
            (cycling, s1) = initiate_hold w new (s0\<lparr>parking_state := Parking_Retracting\<rparr>);
            s2 = (if \<not> cycling
                  then if pending_state s1 \<noteq> new
                       then state_await_hold w EXEC_CYCLE_COMPLETE (s1\<lparr>sys_state := new\<rparr>) else s1
                  else s1\<lparr>sys_state := new\<rparr>);
            s3 = (if sys_state s2 = STATE_SLEEP \<and> stateHandler s2 \<noteq> H_await_waypoint_retract
                  then enter_sleep s2 else s2)
        in state_set_end (sys_state s) s3)"

text \<open>The function as the other modules call it; other values than the states are ignored.\<close>

definition state_set :: "world \<Rightarrow> u32 \<Rightarrow> sm \<Rightarrow> sm" where
  "state_set w new s =
     (if new = STATE_IDLE then state_set_idle s
      else if new = STATE_CYCLE then state_set_cycle w s
      else if new = STATE_JOG then state_set_jog s
      else if new = STATE_TOOL_CHANGE then state_set_tool_change s
      else if new = STATE_HOLD then state_set_hold w s
      else if new = STATE_SAFETY_DOOR \<or> new = STATE_SLEEP then state_set_door_or_sleep w new s
      else if new = STATE_ALARM \<or> new = STATE_ESTOP \<or> new = STATE_HOMING \<or> new = STATE_CHECK_MODE
      then state_set_locked new s
      else if new \<noteq> sys_state s then state_set_end (sys_state s) s else s)"

section \<open>The handlers\<close>

definition state_idle :: "world \<Rightarrow> u32 \<Rightarrow> sm \<Rightarrow> sm" where
  "state_idle w rt s =
     (let s1 = (if has rt EXEC_CYCLE_START then state_set_cycle w s else s);
          s2 = (if has rt EXEC_FEED_HOLD then state_set_hold w s1 else s1);
          s3 = (if has rt EXEC_TOOL_CHANGE then state_set_tool_change (emit (Suspend_read True) s2) else s2)
      in if has rt EXEC_SLEEP then state_set_door_or_sleep w STATE_SLEEP s3 else s3)"

text \<open>\<^verbatim>\<open>EXEC_MOTION_CANCEL_FAST\<close> is the same bit as \<^verbatim>\<open>EXEC_MOTION_CANCEL\<close>.\<close>

definition state_cycle :: "world \<Rightarrow> u32 \<Rightarrow> sm \<Rightarrow> sm" where
  "state_cycle w rt s =
     (if rt = EXEC_CYCLE_START then s
      else
        let s1 = (if has rt EXEC_TOOL_CHANGE then emit (Suspend_read True) s else s);
            s2 = (if has rt EXEC_CYCLE_COMPLETE
                  then if w_tool_change w then state_set_tool_change s1 else state_set_idle s1
                  else s1);
            s3 = (if has rt EXEC_MOTION_CANCEL
                  then (upd_step (\<lambda>c. c\<lparr>execute_hold := True\<rparr>) (emit (St_update_plan True) s2))
                         \<lparr>suspend := True, stateHandler := H_await_motion_cancel\<rparr>
                  else s2)
        in if has rt EXEC_FEED_HOLD then state_set_hold w s3 else s3)"

definition state_await_toolchanged :: "world \<Rightarrow> u32 \<Rightarrow> sm \<Rightarrow> sm" where
  "state_await_toolchanged w rt s =
     (if has rt EXEC_CYCLE_START
      then
        let s1 = (if \<not> w_tool_change w
                  then emit Tool_changed (if w_suspend_read w then emit (Suspend_read False) s else s)
                  else s);
            s2 = s1\<lparr>pending_state := (if w_tool_change w then STATE_TOOL_CHANGE else STATE_IDLE)\<rparr>
        in set_exec_state EXEC_STATUS_REPORT (state_set_cycle w (state_set_idle s2))
      else s)"

definition state_await_motion_cancel :: "world \<Rightarrow> u32 \<Rightarrow> sm \<Rightarrow> sm" where
  "state_await_motion_cancel w rt s =
     (if has rt EXEC_CYCLE_COMPLETE
      then
        let s1 = (if sys_state s = STATE_JOG
                  then (emits [Plan_reset, St_reset, Sync_position] (s\<lparr>step_control := no_step_control\<rparr>))
                         \<lparr>suspend := False\<rparr>
                  else s);
            s2 = state_set w (pending_state s1) s1
        in if alarm_pending s2 \<noteq> Alarm_None then set_exec_alarm (alarm_pending s2) s2
           else if w_tool_change w then state_set_tool_change s2 else s2
      else s)"

definition state_await_resumed_complete :: "world \<Rightarrow> sm \<Rightarrow> sm" where
  "state_await_resumed_complete w s =
     (let s1 = upd_park clear_park_flags (s\<lparr>parking_state := Parking_DoorClosed\<rparr>);
          s2 = (if execute_sys_motion (step_control s1)
                then emit Parking_restore_buffer (s1\<lparr>step_control := no_step_control\<rparr>) else s1)
      in state_set_cycle w (state_set_idle s2))"

definition state_await_restart_retract :: "world \<Rightarrow> u32 \<Rightarrow> sm \<Rightarrow> sm" where
  "state_await_restart_retract w rt s =
     (if has rt EXEC_CYCLE_COMPLETE
      then state_await_hold w EXEC_CYCLE_COMPLETE ((end_sys_motion s)\<lparr>stateHandler := H_await_hold\<rparr>)
      else s)"

definition restart_retract :: "world \<Rightarrow> sm \<Rightarrow> sm" where
  "restart_retract w s =
     (let s1 = upd_park (\<lambda>p. p\<lparr>pk_restart := True\<rparr>)
                 ((emit (Feedback 6) s)\<lparr>stateHandler := H_await_restart_retract, parking_state := Parking_Retracting\<rparr>)
      in if execute_sys_motion (step_control s1)
         then upd_step (\<lambda>c. c\<lparr>execute_hold := True, execute_sys_motion := True\<rparr>) (emit (St_update_plan False) s1)
         else state_await_restart_retract w EXEC_CYCLE_COMPLETE s1)"

definition state_await_resumed :: "world \<Rightarrow> u32 \<Rightarrow> sm \<Rightarrow> sm" where
  "state_await_resumed w rt s =
     (if has rt EXEC_SAFETY_DOOR then restart_retract w s
      else if has rt EXEC_CYCLE_COMPLETE then state_await_resumed_complete w s
      else s)"

text \<open>The last call of \<^verbatim>\<open>state_restore\<close> is of the handler it has set, unless that was changed while
  the conditions were restored; it may be \<^verbatim>\<open>state_restore\<close> again, when the door was opened and
  the resume started again in the delays. The number of such nested restores is the length of
  \<open>w_again\<close>; they see the same signals.\<close>

fun cycle_complete_of :: "state_handler \<Rightarrow> world \<Rightarrow> sm \<Rightarrow> sm" where
  "cycle_complete_of H_await_resumed w s = state_await_resumed w EXEC_CYCLE_COMPLETE s"
| "cycle_complete_of H_await_hold w s = state_await_hold w EXEC_CYCLE_COMPLETE s"
| "cycle_complete_of H_await_waypoint_retract w s = state_await_waypoint_retract w EXEC_CYCLE_COMPLETE s"
| "cycle_complete_of H_await_resume w s = snd (resume_complete w s)"
| "cycle_complete_of H_await_restart_retract w s = state_await_restart_retract w EXEC_CYCLE_COMPLETE s"
| "cycle_complete_of H_await_motion_cancel w s = state_await_motion_cancel w EXEC_CYCLE_COMPLETE s"
| "cycle_complete_of H_cycle w s = state_cycle w EXEC_CYCLE_COMPLETE s"
| "cycle_complete_of _ w s = s"

text \<open>Restore of the conditions, then the motion back to the work piece; tells whether the handler
  is then called.\<close>

definition restore_begin :: "world \<Rightarrow> sm \<Rightarrow> sm" where
  "restore_begin w s =
     (let s1 = (upd_park (\<lambda>p. p\<lparr>pk_restart := False\<rparr>) (end_sys_motion s))\<lparr>stateHandler := H_await_resumed\<rparr>
      in state_restore_conditions w (restore_cond s1) s1)"

definition restore_motion :: "world \<Rightarrow> sm \<Rightarrow> bool \<times> sm" where
  "restore_motion w s =
     (if pk_motion (park s)
      then
        let s1 = upd_plan (\<lambda>d. d\<lparr>pd_feed_rate := w_pullout_rate w, pd_coolant := rc_coolant (restore_cond s),
                   pd_spindle := (pd_spindle d)\<lparr>sp_state := sp_state (rc_spindle (restore_cond s)),
                                                sp_rpm := sp_rpm (rc_spindle (restore_cond s))\<rparr>\<rparr>)
                   (s\<lparr>parking_state := Parking_Resuming\<rparr>)
        in mc_parking_motion w (pk_restore_target (park s1)) s1
      else (False, s))"

function state_restore :: "world \<Rightarrow> u32 \<Rightarrow> sm \<Rightarrow> sm" where
  "state_restore w rt s =
     (if has rt EXEC_SAFETY_DOOR
      then if pk_restoring (park s) then upd_park (\<lambda>p. p\<lparr>pk_restart := True\<rparr>) s else restart_retract w s
      else if has rt EXEC_CYCLE_COMPLETE
      then
        let s2 = restore_begin w s
        in if pk_restart (park s2) then restart_retract w s2
           else
             let (await, s3) = restore_motion w s2
             in if await then s3
                else if stateHandler s3 = H_restore
                then (case w_again w of
                        [] \<Rightarrow> s3
                      | f # fs \<Rightarrow> state_restore (w\<lparr>w_during := f, w_again := fs\<rparr>) EXEC_CYCLE_COMPLETE s3)
                else cycle_complete_of (stateHandler s3) w s3
      else s)"
  by pat_completeness auto

termination by (relation "measure (\<lambda>(w, rt, s). length (w_again w))") auto

declare state_restore.simps [simp del]

text \<open>Cycle start in a feed hold: spindle and coolant are restored if that is configured.\<close>

definition resume_hold :: "world \<Rightarrow> sm \<Rightarrow> sm" where
  "resume_hold w s =
     (let sp = rc_spindle (restore_cond s); on = w_spindle_on w (sp_hal sp)
      in if \<not> w_restore_after_feed_hold w
         then (if \<not> on then emit Spindle_off s else s)\<lparr>spindle_stop := no_spindle_stop\<rparr>
         else
           let s1 = (if sp_on (sp_state sp) \<noteq> on then state_spindle_restore w sp (emit (Feedback 10) s) else s);
               s2 = (if rc_coolant (restore_cond s1) \<noteq> w_coolant w
                     then emit (Coolant_set (rc_coolant (restore_cond s1)))
                            (w_during w (emit (Coolant_restore (rc_coolant (restore_cond s1))) s1))
                     else s1)
           in emit (Feedback 0) (s2\<lparr>spindle_stop := no_spindle_stop\<rparr>))"

definition resume_motion :: "world \<Rightarrow> sm \<Rightarrow> bool \<times> sm" where
  "resume_motion w s =
     (if pk_motion (park s)
      then
        let s2 = upd_park (\<lambda>p. p\<lparr>pk_restart := False\<rparr>) s
        in if f32_le (axis_value w (pk_restore_target (park s2))) (w_parking_target w)
           then mc_parking_motion w ((pk_restore_target (park s2))[w_parking_axis w := pk_retract_waypoint (park s2)])
                  (upd_plan (\<lambda>d. d\<lparr>pd_feed_rate := w_parking_rate w\<rparr>) s2)
           else (False, s2)
      else (False, s))"

definition resume_door :: "world \<Rightarrow> sm \<Rightarrow> sm" where
  "resume_door w s =
     (if pk_restart (park s) \<or> \<not> w_door_ajar w
      then
        let (await, s2) = resume_motion w (s\<lparr>stateHandler := H_restore, parking_state := Parking_Resuming\<rparr>)
        in if \<not> await then state_restore w EXEC_CYCLE_COMPLETE s2 else s2
      else s)"

definition state_await_resume :: "world \<Rightarrow> u32 \<Rightarrow> sm \<Rightarrow> sm" where
  "state_await_resume w rt s =
     (let (ret, s1) = (if has rt EXEC_CYCLE_COMPLETE then resume_complete w s else (False, s))
      in if ret then s1
         else
           let s2 = (if has rt EXEC_SLEEP then state_set_door_or_sleep w STATE_SLEEP s1 else s1)
           in if has rt EXEC_SAFETY_DOOR then s2\<lparr>parking_state := door_parking_state w\<rparr>
              else if has rt EXEC_CYCLE_START
              then
                let s3 = (if sys_state s2 = STATE_HOLD \<and> spindle_stop s2 = no_spindle_stop
                          then s2\<lparr>spindle_stop := (spindle_stop s2)\<lparr>ss_restore_cycle := True\<rparr>\<rparr> else s2);
                    s4 = (if sys_state s3 = STATE_TOOL_CHANGE \<or> sys_state s3 = STATE_SLEEP then s3
                          else if sys_state s3 = STATE_SAFETY_DOOR then resume_door w s3
                          else resume_hold w s3)
                in if \<not> has (sys_state s4) (STATE_SLEEP OR STATE_SAFETY_DOOR)
                   then state_set_cycle w ((state_set_idle s4)\<lparr>step_control := step_control s4\<rparr>)
                   else s4
              else if has rt EXEC_DOOR_CLOSED \<and> \<not> w_door_ajar w
              then s2\<lparr>parking_state := Parking_DoorClosed\<rparr>
              else s2)"

definition run_handler :: "world \<Rightarrow> u32 \<Rightarrow> sm \<Rightarrow> sm" where
  "run_handler w rt s =
     (case stateHandler s of
        H_idle \<Rightarrow> state_idle w rt s
      | H_cycle \<Rightarrow> state_cycle w rt s
      | H_await_hold \<Rightarrow> state_await_hold w rt s
      | H_noop \<Rightarrow> s
      | H_await_motion_cancel \<Rightarrow> state_await_motion_cancel w rt s
      | H_await_resume \<Rightarrow> state_await_resume w rt s
      | H_await_toolchanged \<Rightarrow> state_await_toolchanged w rt s
      | H_await_waypoint_retract \<Rightarrow> state_await_waypoint_retract w rt s
      | H_restore \<Rightarrow> state_restore w rt s
      | H_await_resumed \<Rightarrow> state_await_resumed w rt s
      | H_await_restart_retract \<Rightarrow> state_await_restart_retract w rt s)"

definition state_update :: "world \<Rightarrow> u32 \<Rightarrow> sm \<Rightarrow> sm" where
  "state_update w rt s =
     run_handler w rt
       (if has rt EXEC_SAFETY_DOOR \<and> sys_state s \<noteq> STATE_SAFETY_DOOR
        then state_set_door_or_sleep w STATE_SAFETY_DOOR s else s)"

definition parking_num :: "parking_state \<Rightarrow> u8" where
  "parking_num p = (case p of Parking_DoorClosed \<Rightarrow> 0 | Parking_DoorAjar \<Rightarrow> 1 | Parking_Retracting \<Rightarrow> 2
     | Parking_Cancel \<Rightarrow> 3 | Parking_Resuming \<Rightarrow> 4)"

definition hold_num :: "hold_state \<Rightarrow> u8" where
  "hold_num h = (case h of Hold_NotHolding \<Rightarrow> 0 | Hold_Complete \<Rightarrow> 1 | Hold_Pending \<Rightarrow> 2)"

definition state_get_substate :: "world \<Rightarrow> sm \<Rightarrow> u8" where
  "state_get_substate w s =
     (if sys_state s = STATE_CYCLE then if feed_hold_pending s then 1 else if w_probing w then 2 else 0
      else if sys_state s = STATE_HOLD then hold_num (holding_state s) - 1
      else if sys_state s = STATE_ESTOP \<or> sys_state s = STATE_ALARM then alarm s
      else if sys_state s = STATE_SAFETY_DOOR then parking_num (parking_state s)
      else 0)"

text \<open>Spindle overrides in hold states.\<close>

definition state_suspend_manager :: "world \<Rightarrow> sm \<Rightarrow> sm" where
  "state_suspend_manager w s =
     (if stateHandler s \<noteq> H_await_resume \<or> \<not> sp_on (sp_state (w_gc_spindle w)) then s
      else if spindle_stop s \<noteq> no_spindle_stop
      then
        let sp = rc_spindle (restore_cond s);
            s1 = (if ss_initiate (spindle_stop s)
                  then let s1 = s\<lparr>spindle_stop := no_spindle_stop\<rparr>
                       in if sp_hal sp \<noteq> 0 \<and> w_spindle_on w (sp_hal sp)
                          then (emit (Spindle_deenergize (sp_hal sp)) s1)
                                 \<lparr>spindle_stop := no_spindle_stop\<lparr>ss_enabled := True\<rparr>\<rparr>
                          else s1
                  else s)
        in if ss_restore (spindle_stop s1)
           then (state_spindle_restore w sp (emit (Feedback 10) s1))\<lparr>spindle_stop := no_spindle_stop\<rparr>
           else s1
      else if update_spindle_rpm (step_control s) \<and> w_spindle_on w (sp_hal (rc_spindle (restore_cond s)))
      then upd_step (\<lambda>c. c\<lparr>update_spindle_rpm := False\<rparr>)
             (state_spindle_restore w (rc_spindle (restore_cond s)) s)
      else s)"

definition init_sm :: sm where
  "init_sm = \<lparr>sys_state = STATE_IDLE, pending_state = STATE_IDLE, stateHandler = H_idle, suspend = False,
     step_control = no_step_control, parking_state = Parking_DoorClosed, holding_state = Hold_NotHolding,
     soft_limit = False, feed_hold_pending = False, is_homing = False, is_parking = False,
     steppers_deenergize = False, blocking_event = False, spindle_stop = no_spindle_stop, alarm = 0,
     alarm_pending = 0, rt_exec_state = 0, rt_exec_alarm = 0,
     restore_cond = \<lparr>rc_coolant = 0, rc_spindle = \<lparr>sp_hal = 0, sp_state = 0, sp_rpm = 0\<rparr>\<rparr>,
     park = \<lparr>pk_active = False, pk_motion = False, pk_restart = False, pk_restoring = False, pk_target = [],
       pk_restore_target = [], pk_retract_waypoint = 0,
       pk_plan_data = \<lparr>pd_system_motion = False, pd_no_feed_override = False, pd_feed_rate = 0, pd_coolant = 0,
         pd_spindle = \<lparr>sp_hal = 0, sp_state = 0, sp_rpm = 0\<rparr>\<rparr>\<rparr>, out = []\<rparr>"

section \<open>State and handler\<close>

text \<open>The handlers a state may have.\<close>

definition handler_ok :: "u32 \<Rightarrow> state_handler \<Rightarrow> bool" where
  "handler_ok st h \<longleftrightarrow>
     (st = STATE_IDLE \<and> h \<in> {H_idle, H_await_motion_cancel}) \<or>
     (st = STATE_CYCLE \<and> h \<in> {H_cycle, H_await_motion_cancel, H_idle}) \<or>
     (st = STATE_JOG \<and> h \<in> {H_cycle, H_await_motion_cancel, H_await_hold, H_await_resume}) \<or>
     (st = STATE_HOLD \<and> h \<in> {H_await_hold, H_await_resume}) \<or>
     (st = STATE_TOOL_CHANGE \<and> h \<in> {H_await_toolchanged, H_await_motion_cancel}) \<or>
     (st = STATE_SAFETY_DOOR \<and> h \<in> {H_await_hold, H_await_resume, H_await_waypoint_retract, H_restore,
        H_await_resumed, H_await_restart_retract}) \<or>
     (st = STATE_SLEEP \<and> h \<in> {H_noop, H_await_waypoint_retract, H_await_resume}) \<or>
     (st \<in> {STATE_ALARM, STATE_ESTOP, STATE_HOMING, STATE_CHECK_MODE} \<and> h = H_noop)"

definition sm_ok :: "sm \<Rightarrow> bool" where
  "sm_ok s \<longleftrightarrow> handler_ok (sys_state s) (stateHandler s)"

lemma state_ne [simp]:
  "STATE_IDLE \<noteq> STATE_ALARM" "STATE_IDLE \<noteq> STATE_CHECK_MODE" "STATE_IDLE \<noteq> STATE_HOMING"
  "STATE_IDLE \<noteq> STATE_CYCLE" "STATE_IDLE \<noteq> STATE_HOLD" "STATE_IDLE \<noteq> STATE_JOG"
  "STATE_IDLE \<noteq> STATE_SAFETY_DOOR" "STATE_IDLE \<noteq> STATE_SLEEP" "STATE_IDLE \<noteq> STATE_ESTOP"
  "STATE_IDLE \<noteq> STATE_TOOL_CHANGE" "STATE_ALARM \<noteq> STATE_CHECK_MODE" "STATE_ALARM \<noteq> STATE_HOMING"
  "STATE_ALARM \<noteq> STATE_CYCLE" "STATE_ALARM \<noteq> STATE_HOLD" "STATE_ALARM \<noteq> STATE_JOG"
  "STATE_ALARM \<noteq> STATE_SAFETY_DOOR" "STATE_ALARM \<noteq> STATE_SLEEP" "STATE_ALARM \<noteq> STATE_ESTOP"
  "STATE_ALARM \<noteq> STATE_TOOL_CHANGE" "STATE_CHECK_MODE \<noteq> STATE_HOMING" "STATE_CHECK_MODE \<noteq> STATE_CYCLE"
  "STATE_CHECK_MODE \<noteq> STATE_HOLD" "STATE_CHECK_MODE \<noteq> STATE_JOG" "STATE_CHECK_MODE \<noteq> STATE_SAFETY_DOOR"
  "STATE_CHECK_MODE \<noteq> STATE_SLEEP" "STATE_CHECK_MODE \<noteq> STATE_ESTOP" "STATE_CHECK_MODE \<noteq> STATE_TOOL_CHANGE"
  "STATE_HOMING \<noteq> STATE_CYCLE" "STATE_HOMING \<noteq> STATE_HOLD" "STATE_HOMING \<noteq> STATE_JOG"
  "STATE_HOMING \<noteq> STATE_SAFETY_DOOR" "STATE_HOMING \<noteq> STATE_SLEEP" "STATE_HOMING \<noteq> STATE_ESTOP"
  "STATE_HOMING \<noteq> STATE_TOOL_CHANGE" "STATE_CYCLE \<noteq> STATE_HOLD" "STATE_CYCLE \<noteq> STATE_JOG"
  "STATE_CYCLE \<noteq> STATE_SAFETY_DOOR" "STATE_CYCLE \<noteq> STATE_SLEEP" "STATE_CYCLE \<noteq> STATE_ESTOP"
  "STATE_CYCLE \<noteq> STATE_TOOL_CHANGE" "STATE_HOLD \<noteq> STATE_JOG" "STATE_HOLD \<noteq> STATE_SAFETY_DOOR"
  "STATE_HOLD \<noteq> STATE_SLEEP" "STATE_HOLD \<noteq> STATE_ESTOP" "STATE_HOLD \<noteq> STATE_TOOL_CHANGE"
  "STATE_JOG \<noteq> STATE_SAFETY_DOOR" "STATE_JOG \<noteq> STATE_SLEEP" "STATE_JOG \<noteq> STATE_ESTOP"
  "STATE_JOG \<noteq> STATE_TOOL_CHANGE" "STATE_SAFETY_DOOR \<noteq> STATE_SLEEP" "STATE_SAFETY_DOOR \<noteq> STATE_ESTOP"
  "STATE_SAFETY_DOOR \<noteq> STATE_TOOL_CHANGE" "STATE_SLEEP \<noteq> STATE_ESTOP" "STATE_SLEEP \<noteq> STATE_TOOL_CHANGE"
  "STATE_ESTOP \<noteq> STATE_TOOL_CHANGE"
  by (simp_all add: state_defs)

lemmas state_ne_sym [simp] = state_ne [symmetric]

lemma has_states [simp]:
  "has STATE_IDLE m = False" "has STATE_JOG STATE_JOG" "has STATE_CYCLE (STATE_CYCLE OR STATE_JOG)"
  "has STATE_JOG (STATE_CYCLE OR STATE_JOG)" "\<not> has STATE_HOLD (STATE_CYCLE OR STATE_JOG)"
  "\<not> has STATE_CYCLE STATE_JOG" "\<not> has STATE_HOLD (STATE_SLEEP OR STATE_SAFETY_DOOR)"
  "has STATE_SAFETY_DOOR (STATE_SLEEP OR STATE_SAFETY_DOOR)" "has STATE_SLEEP (STATE_SLEEP OR STATE_SAFETY_DOOR)"
  by (simp_all add: has_def state_defs)

lemma sm_sel [simp]:
  "sys_state (emit a s) = sys_state s" "stateHandler (emit a s) = stateHandler s"
  "sys_state (emits as s) = sys_state s" "stateHandler (emits as s) = stateHandler s"
  "sys_state (set_exec_state f s) = sys_state s" "stateHandler (set_exec_state f s) = stateHandler s"
  "sys_state (set_exec_alarm b s) = sys_state s" "stateHandler (set_exec_alarm b s) = stateHandler s"
  "sys_state (upd_step g s) = sys_state s" "stateHandler (upd_step g s) = stateHandler s"
  "sys_state (upd_park h s) = sys_state s" "stateHandler (upd_park h s) = stateHandler s"
  "sys_state (upd_plan k s) = sys_state s" "stateHandler (upd_plan k s) = stateHandler s"
  "sys_state (end_sys_motion s) = sys_state s" "stateHandler (end_sys_motion s) = stateHandler s"
  "sys_state (state_set_end org s) = sys_state s" "stateHandler (state_set_end org s) = stateHandler s"
  "sys_state (snd (mc_parking_motion w t s)) = sys_state s" "stateHandler (snd (mc_parking_motion w t s)) = stateHandler s"
  "sys_state (door_deenergize w s) = sys_state s" "stateHandler (door_deenergize w s) = stateHandler s"
  "sys_state (enter_sleep s) = sys_state s" "stateHandler (enter_sleep s) = H_noop"
  by (simp_all add: emit_def emits_def set_exec_state_def set_exec_alarm_def upd_step_def upd_park_def upd_plan_def
      end_sys_motion_def state_set_end_def mc_parking_motion_def door_deenergize_def enter_sleep_def Let_def)


lemma resume_complete_sel [simp]:
  "sys_state (snd (resume_complete w s)) = sys_state s"
  "stateHandler (snd (resume_complete w s)) =
     (if w_parking_enabled w \<and> sys_state s = STATE_SLEEP then H_noop else stateHandler s)"
  by (simp_all add: resume_complete_def Let_def)

lemma has_complete [simp]: "has EXEC_CYCLE_COMPLETE EXEC_CYCLE_COMPLETE" "\<not> has EXEC_CYCLE_COMPLETE EXEC_SAFETY_DOOR"
  by (simp_all add: has_def exec_defs)

lemma park_sel [simp]:
  "sys_state (waypoint_deenergize w s) = sys_state s" "stateHandler (waypoint_deenergize w s) = H_await_resume"
  "sys_state (snd (waypoint_motion w s)) = sys_state s" "stateHandler (snd (waypoint_motion w s)) = stateHandler s"
  "sys_state (retract_target w s) = sys_state s" "stateHandler (retract_target w s) = stateHandler s"
  "sys_state (snd (retract_motion w s)) = sys_state s" "stateHandler (snd (retract_motion w s)) = stateHandler s"
  "sys_state (store_restore_target w s) = sys_state s" "stateHandler (store_restore_target w s) = stateHandler s"
  "sys_state (await_hold_begin s) = sys_state s" "stateHandler (await_hold_begin s) = stateHandler s"
  by (simp_all add: waypoint_deenergize_def waypoint_motion_def retract_target_def retract_motion_def
      store_restore_target_def await_hold_begin_def Let_def)



lemma state_set_idle_sel:
  "sys_state (state_set_idle s) = STATE_IDLE"
  "stateHandler (state_set_idle s) = (if sys_state s = STATE_IDLE then stateHandler s else H_idle)"
  by (simp_all add: state_set_idle_def Let_def)












text \<open>A property of the state and its handler, and what the delays keep of it.\<close>

definition fits :: "(u32 \<Rightarrow> state_handler \<Rightarrow> bool) \<Rightarrow> sm \<Rightarrow> bool" where
  "fits Q s \<longleftrightarrow> Q (sys_state s) (stateHandler s)"

definition delays :: "world \<Rightarrow> (sm \<Rightarrow> sm) list" where
  "delays w = w_during w # w_again w"

definition delays_keep :: "(u32 \<Rightarrow> state_handler \<Rightarrow> bool) \<Rightarrow> world \<Rightarrow> bool" where
  "delays_keep Q w \<longleftrightarrow> (\<forall>f\<in>set (delays w). \<forall>s. fits Q s \<longrightarrow> fits Q (f s))"




lemma fits_cong: "sys_state s' = sys_state s \<Longrightarrow> stateHandler s' = stateHandler s \<Longrightarrow> fits Q s' = fits Q s"
  by (simp add: fits_def)

lemma fits_simps [simp]:
  "fits Q (emit a s) = fits Q s" "fits Q (upd_step g s) = fits Q s" "fits Q (upd_park h s) = fits Q s"
  "fits Q (s\<lparr>spindle_stop := ss\<rparr>) = fits Q s"
  by (rule fits_cong; simp)+

lemma delays_keep_during: "delays_keep Q w \<Longrightarrow> fits Q s \<Longrightarrow> fits Q (w_during w s)"
  by (simp add: delays_keep_def delays_def)


lemma sm_ok_cong: "sys_state s' = sys_state s \<Longrightarrow> stateHandler s' = stateHandler s \<Longrightarrow> sm_ok s' = sm_ok s"
  by (simp add: sm_ok_def)

lemma sm_ok_simps [simp]:
  "sm_ok (emit a s) = sm_ok s" "sm_ok (emits as s) = sm_ok s" "sm_ok (set_exec_state f s) = sm_ok s"
  "sm_ok (set_exec_alarm b s) = sm_ok s" "sm_ok (upd_step g s) = sm_ok s" "sm_ok (upd_park h s) = sm_ok s"
  "sm_ok (upd_plan k s) = sm_ok s" "sm_ok (end_sys_motion s) = sm_ok s" "sm_ok (s\<lparr>spindle_stop := ss\<rparr>) = sm_ok s"
  "sm_ok (s\<lparr>parking_state := ps\<rparr>) = sm_ok s" "sm_ok (s\<lparr>pending_state := st\<rparr>) = sm_ok s"
  "sm_ok (s\<lparr>step_control := sc\<rparr>) = sm_ok s" "sm_ok (s\<lparr>suspend := d\<rparr>) = sm_ok s"
  by (rule sm_ok_cong; simp)+

lemma spindle_restore_fits: "delays_keep Q w \<Longrightarrow> fits Q s \<Longrightarrow> fits Q (state_spindle_restore w sp s)"
  by (simp add: state_spindle_restore_def Let_def delays_keep_during)


lemma resume_hold_fits: "delays_keep Q w \<Longrightarrow> fits Q s \<Longrightarrow> fits Q (resume_hold w s)"
  by (simp add: resume_hold_def Let_def delays_keep_during spindle_restore_fits)



lemma sm_ok_mc_parking [simp]: "sm_ok (snd (mc_parking_motion w t s)) = sm_ok s"
  by (rule sm_ok_cong) simp_all








lemma restore_motion_sel [simp]:
  "sys_state (snd (restore_motion w s)) = sys_state s" "stateHandler (snd (restore_motion w s)) = stateHandler s"
  by (simp_all add: restore_motion_def Let_def)


lemma resume_motion_sel [simp]:
  "sys_state (snd (resume_motion w s)) = sys_state s" "stateHandler (snd (resume_motion w s)) = stateHandler s"
  by (simp_all add: resume_motion_def Let_def)








section \<open>Interrupted restores\<close>

text \<open>What is left when another state is entered in the delays of a door restore: after them
  \<^verbatim>\<open>state_restore\<close> installs the handlers of the retract whatever the state then is.\<close>

definition handler_left :: "u32 \<Rightarrow> state_handler \<Rightarrow> bool" where
  "handler_left st h \<longleftrightarrow> h \<in> {H_await_resume, H_await_restart_retract} \<or> st \<in> {STATE_IDLE, STATE_CYCLE} \<and> h = H_await_hold"

definition handler_weak :: "u32 \<Rightarrow> state_handler \<Rightarrow> bool" where
  "handler_weak st h \<longleftrightarrow> handler_ok st h \<or> handler_left st h"

definition sm_weak :: "sm \<Rightarrow> bool" where
  "sm_weak s \<longleftrightarrow> handler_weak (sys_state s) (stateHandler s)"



lemma sm_weak_left: "handler_left (sys_state s) (stateHandler s) \<Longrightarrow> sm_weak s"
  by (simp add: sm_weak_def handler_weak_def)


lemma sm_weak_cong: "sys_state s' = sys_state s \<Longrightarrow> stateHandler s' = stateHandler s \<Longrightarrow> sm_weak s' = sm_weak s"
  by (simp add: sm_weak_def)

lemma sm_weak_simps [simp]:
  "sm_weak (emit a s) = sm_weak s" "sm_weak (set_exec_alarm b s) = sm_weak s" "sm_weak (set_exec_state f s) = sm_weak s"
  "sm_weak (s\<lparr>spindle_stop := ss\<rparr>) = sm_weak s" "sm_weak (upd_park h s) = sm_weak s" "sm_weak (state_set_end org s) = sm_weak s"
  "sm_weak (s\<lparr>parking_state := ps\<rparr>) = sm_weak s" "sm_weak (s\<lparr>step_control := sc\<rparr>) = sm_weak s"
  by (rule sm_weak_cong; simp)+























section \<open>Reachable states\<close>

text \<open>The state machine is driven by events, by the other modules setting a state or raising an
  alarm, and by the suspend manager; between these anything but state and handler may change.
  Delays within these are again any runs of the state machine. With \<open>False\<close> as first argument
  the runs are those in which the machine never is in another state than the door state at the
  end of a delay it has entered in the door state.\<close>

definition stays_in_door :: "(sm \<Rightarrow> sm) \<Rightarrow> bool" where
  "stays_in_door f \<longleftrightarrow> (\<forall>s. sys_state s = STATE_SAFETY_DOOR \<longrightarrow> sys_state (f s) = STATE_SAFETY_DOOR)"

inductive sm_step :: "bool \<Rightarrow> sm \<Rightarrow> sm \<Rightarrow> bool" for intr :: bool where
  sm_update: "(\<And>f x. f \<in> set (delays w) \<Longrightarrow> (sm_step intr)\<^sup>*\<^sup>* x (f x)) \<Longrightarrow>
     (\<And>f. f \<in> set (delays w) \<Longrightarrow> intr \<or> stays_in_door f) \<Longrightarrow> sm_step intr s (state_update w rt s)"
| sm_set: "sm_step intr s (state_set w new s)"
| sm_alarm: "sm_step intr s (system_raise_alarm w a s)"
| sm_suspend: "(\<And>f x. f \<in> set (delays w) \<Longrightarrow> (sm_step intr)\<^sup>*\<^sup>* x (f x)) \<Longrightarrow>
     sm_step intr s (state_suspend_manager w s)"
| sm_other: "sys_state s' = sys_state s \<Longrightarrow> stateHandler s' = stateHandler s \<Longrightarrow> sm_step intr s s'"

inductive sm_reachable :: "bool \<Rightarrow> sm \<Rightarrow> bool" for intr :: bool where
  sm_init: "sm_reachable intr init_sm"
| sm_next: "sm_reachable intr s \<Longrightarrow> sm_step intr s s' \<Longrightarrow> sm_reachable intr s'"






text \<open>A world to run examples in: one block to execute, no parking, nothing happens in delays.\<close>

definition mini_world :: world where
  "mini_world = \<lparr>w_block = Some \<lparr>bl_spindle = \<lparr>sp_hal = 1, sp_state = 1, sp_rpm = f32_1\<rparr>, bl_coolant = 0,
       bl_synchronized = False, bl_units_per_rev = False\<rparr>,
     w_gc_spindle = \<lparr>sp_hal = 1, sp_state = 1, sp_rpm = f32_1\<rparr>, w_laser = \<lambda>_. False, w_spindle_on = \<lambda>_. True,
     w_spindle_set_ok = True, w_sync = Sync_ok, w_spindle_stopped = False, w_coolant = 0, w_gc_coolant = 0,
     w_door_ajar = True, w_tool_change = False, w_probing = False, w_abort = False, w_plan_ok = True, w_homed = 7,
     w_mpos = [0, 0, 0], w_feed_hold_disable = False, w_override_sync = False, w_parking_disable = False,
     w_parking_enabled = False, w_parking_axis = 2, w_parking_target = f32_1, w_pullout_increment = f32_1,
     w_pullout_rate = f32_1, w_parking_rate = f32_1, w_keep_coolant_on = False, w_disable_laser_during_hold = False,
     w_restore_after_feed_hold = True, w_suspend_read = True, w_driver_started = True, w_fadd = \<lambda>a b. f32_1,
     w_during = \<lambda>s. s, w_again = []\<rparr>"

lemma sm_run:
  assumes "sm_reachable intr s" "w_during w = (\<lambda>s. s)" "w_again w = []"
  shows "sm_reachable intr (state_update w rt s)"
  by (rule sm_next [OF assms(1) sm_update]) (auto simp: delays_def assms stays_in_door_def)

lemma mini_world_run: "sm_reachable intr s \<Longrightarrow> sm_reachable intr (state_update mini_world rt s)"
  by (rule sm_run) (simp_all add: mini_world_def)

text \<open>A laser that is ramped up, with parking: while it is, the door is opened again; in the
  delay of the coolant an alarm follows.\<close>

definition park_world :: "bool \<Rightarrow> world" where
  "park_world ajar = mini_world\<lparr>w_parking_enabled := True, w_laser := \<lambda>_. True, w_door_ajar := ajar,
     w_parking_target := 0x40000000\<rparr>"



lemma park_world_reachable: "sm_reachable intr s \<Longrightarrow> sm_reachable intr (state_update (park_world ajar) rt s)"
  by (rule sm_run) (simp_all add: park_world_def mini_world_def)










text \<open>What an alarm in a delay leaves.\<close>

definition locked_noop :: "u32 \<Rightarrow> state_handler \<Rightarrow> bool" where
  "locked_noop st h \<longleftrightarrow> st \<in> {STATE_ALARM, STATE_ESTOP} \<and> h = H_noop"

lemma restart_retract_locked:
  assumes "sys_state s \<in> {STATE_ALARM, STATE_ESTOP}"
  shows "sys_state (restart_retract w s) \<in> {STATE_ALARM, STATE_ESTOP, STATE_IDLE}"
  using assms
  by (auto simp: restart_retract_def state_await_restart_retract_def state_await_hold_def await_hold_stop_def Let_def
      state_set_idle_sel)

lemma restore_locked:
  assumes "\<forall>x. sm_ok x \<longrightarrow> fits locked_noop (w_during w x)" "sys_state s = STATE_SAFETY_DOOR"
    "sp_hal (rc_spindle (restore_cond s)) \<noteq> 0"
  shows "sys_state (state_restore w EXEC_CYCLE_COMPLETE s) \<in> {STATE_ALARM, STATE_ESTOP, STATE_IDLE}"
proof -
  have l: "fits locked_noop x \<Longrightarrow> sm_ok x" for x by (auto simp: fits_def locked_noop_def sm_ok_def handler_ok_def)
  have rc: "restore_cond (upd_park h x) = restore_cond x" "restore_cond (end_sys_motion x) = restore_cond x" for h x
    by (simp_all add: upd_park_def end_sys_motion_def emit_def upd_step_def)
  define s1 where "s1 = (upd_park (\<lambda>p. p\<lparr>pk_restart := False\<rparr>) (end_sys_motion s))\<lparr>stateHandler := H_await_resumed\<rparr>"
  have 1: "sm_ok s1" "sp_hal (rc_spindle (restore_cond s1)) \<noteq> 0" "\<not> pk_restart (park s1)"
    using assms(2,3) by (simp_all add: s1_def sm_ok_def handler_ok_def rc) (simp add: upd_park_def)
  have sr: "fits locked_noop (state_spindle_restore w sp x)" if "sm_ok x" "sp_hal sp \<noteq> 0" for x sp
    using assms(1) that by (simp add: state_spindle_restore_def Let_def)
  have "fits locked_noop (restore_begin w s)"
    using 1 sr assms(1) l by (auto simp: restore_begin_def state_restore_conditions_def Let_def s1_def [symmetric])
  then have 2: "sys_state (restore_begin w s) \<in> {STATE_ALARM, STATE_ESTOP}" "stateHandler (restore_begin w s) = H_noop"
    by (simp_all add: fits_def locked_noop_def)
  moreover obtain a s3 where "restore_motion w (restore_begin w s) = (a, s3)" by fastforce
  moreover from this restore_motion_sel [of w "restore_begin w s"] 2
  have "sys_state s3 \<in> {STATE_ALARM, STATE_ESTOP}" "stateHandler s3 = H_noop" by simp_all
  ultimately show ?thesis
    using restart_retract_locked [OF 2(1), of w] by (auto simp: state_restore.simps [of w] Let_def)
qed

text \<open>
  C99. Cycle start in a feed hold, or in the safety door state with the door closed and no
  parking motion to make: an alarm or emergency stop in the delays of the restore of spindle
  and coolant is overridden. When they return the state is set to idle, which clears the alarm
  state, and the cycle is started: the steppers are woken up with the emergency stop pressed.
\<close>

theorem resume_overrides_alarm:
  assumes "stateHandler s = H_await_resume"
    "sys_state s = STATE_HOLD \<or> sys_state s = STATE_SAFETY_DOOR \<and> \<not> w_door_ajar w \<and>
       \<not> pk_motion (park s) \<and> sp_hal (rc_spindle (restore_cond s)) \<noteq> 0"
    "\<forall>x. sm_ok x \<longrightarrow> sys_state (w_during w x) \<in> {STATE_ALARM, STATE_ESTOP} \<and> stateHandler (w_during w x) = H_noop"
    "w_block w = Some b" "\<not> bl_synchronized b"
    "s' = state_update w EXEC_CYCLE_START s"
  shows "sys_state s' = STATE_CYCLE \<and> stateHandler s' = H_cycle \<and> alarm s' = Alarm_None \<and>
    (\<exists>as. out s' = as @ [St_prep_buffer, St_wake_up, State_changed STATE_CYCLE])"
proof -
  have d: "\<forall>x. sm_ok x \<longrightarrow> fits locked_noop (w_during w x)" using assms(3) by (simp add: fits_def locked_noop_def)
  have l: "locked_noop st h \<Longrightarrow> handler_ok st h" for st h by (auto simp: locked_noop_def handler_ok_def)
  have c: "\<not> has EXEC_CYCLE_START EXEC_SAFETY_DOOR" "\<not> has EXEC_CYCLE_START EXEC_CYCLE_COMPLETE"
    "\<not> has EXEC_CYCLE_START EXEC_SLEEP" "has EXEC_CYCLE_START EXEC_CYCLE_START"
    by (simp_all add: has_def exec_defs)
  define s3 where "s3 = (if sys_state s = STATE_HOLD \<and> spindle_stop s = no_spindle_stop
      then s\<lparr>spindle_stop := (spindle_stop s)\<lparr>ss_restore_cycle := True\<rparr>\<rparr> else s)"
  define r where "r = (if sys_state s = STATE_HOLD then resume_hold w s3 else resume_door w s3)"
  have 3: "sys_state s3 = sys_state s" "stateHandler s3 = H_await_resume" using assms(1) by (simp_all add: s3_def)
  have r: "sys_state r \<in> {STATE_HOLD, STATE_ALARM, STATE_ESTOP, STATE_IDLE}"
  proof (cases "sys_state s = STATE_HOLD")
    case True
    let ?Q = "\<lambda>st h. st = STATE_HOLD \<and> h = H_await_resume \<or> locked_noop st h"
    have "handler_ok STATE_HOLD H_await_resume" by (simp add: handler_ok_def)
    then have q: "fits ?Q x \<Longrightarrow> sm_ok x" for x using l unfolding fits_def sm_ok_def by metis
    let ?w = "w\<lparr>w_again := []\<rparr>"
    have "fits ?Q (w_during w x)" if "fits ?Q x" for x
      using d [rule_format, OF q [OF that]] unfolding fits_def by blast
    then have "delays_keep ?Q ?w" unfolding delays_keep_def delays_def by simp
    moreover have "fits ?Q s3" using 3 True by (simp add: fits_def)
    ultimately have "fits ?Q (resume_hold ?w s3)" by (rule resume_hold_fits)
    moreover have "state_spindle_restore ?w = state_spindle_restore w"
      by (intro ext) (simp add: state_spindle_restore_def Let_def)
    then have "resume_hold ?w s3 = resume_hold w s3" by (simp add: resume_hold_def Let_def)
    ultimately have "fits ?Q (resume_hold w s3)" by simp
    then show ?thesis using True by (auto simp: r_def fits_def locked_noop_def)
  next
    case False
    then have s: "s3 = s" "sys_state s = STATE_SAFETY_DOOR" "\<not> w_door_ajar w" "\<not> pk_motion (park s)"
      "sp_hal (rc_spindle (restore_cond s)) \<noteq> 0" using assms(2) by (auto simp: s3_def)
    then show ?thesis
      using restore_locked [OF d, of "s\<lparr>stateHandler := H_restore, parking_state := Parking_Resuming\<rparr>"]
      by (simp add: r_def resume_door_def resume_motion_def)
  qed
  let ?i = "(state_set_idle r)\<lparr>step_control := step_control r\<rparr>"
  have "\<not> has (sys_state r) (STATE_SLEEP OR STATE_SAFETY_DOOR)" using r by (auto simp: has_def state_defs)
  then have "s' = state_set_cycle w ?i"
    using assms(1,2,6) c by (auto simp: state_update_def run_handler_def state_await_resume_def Let_def r_def s3_def)
  moreover have "sys_state ?i = STATE_IDLE" by (simp add: state_set_idle_sel)
  ultimately show ?thesis
    using assms(4,5) by (simp add: state_set_cycle_def Let_def state_set_end_def emit_def has_def state_defs)
qed

text \<open>The emergency stop in the delay of the spindle.\<close>

definition closed_world :: "(sm \<Rightarrow> sm) \<Rightarrow> world" where
  "closed_world f = mini_world\<lparr>w_door_ajar := False, w_during := f\<rparr>"

theorem resume_overrides_alarm_witness:
  "\<exists>s. sm_reachable False s \<and> sys_state s = STATE_SAFETY_DOOR \<and>
     sys_state (state_update (closed_world (state_set mini_world STATE_ESTOP)) EXEC_CYCLE_START s) = STATE_CYCLE"
proof -
  let ?s = "state_update mini_world EXEC_SAFETY_DOOR init_sm" and ?w = "closed_world (state_set mini_world STATE_ESTOP)"
  have r: "sm_reachable False ?s" by (rule mini_world_run [OF sm_init])
  have e: "sys_state (state_set mini_world STATE_ESTOP x) = STATE_ESTOP \<and> stateHandler (state_set mini_world STATE_ESTOP x) = H_noop"
    if "sm_ok x" for x
    using that by (auto simp: state_set_def state_set_locked_def sm_ok_def handler_ok_def)
  have s: "sys_state ?s = STATE_SAFETY_DOOR" "stateHandler ?s = H_await_resume" "\<not> pk_motion (park ?s)"
    "sp_hal (rc_spindle (restore_cond ?s)) \<noteq> 0" by code_simp+
  have w: "\<not> w_door_ajar ?w" "w_during ?w = state_set mini_world STATE_ESTOP" "w_block ?w = Some (the (w_block mini_world))"
    "\<not> bl_synchronized (the (w_block mini_world))" by (simp_all add: closed_world_def mini_world_def)
  from resume_overrides_alarm [OF s(2) _ _ w(3,4) refl] s w(1,2) e r show ?thesis by auto
qed

section \<open>The safety door\<close>


definition turns_on :: "action \<Rightarrow> bool" where
  "turns_on a \<longleftrightarrow> (case a of Spindle_restore _ \<Rightarrow> True | Coolant_restore c \<Rightarrow> True | Coolant_set c \<Rightarrow> c \<noteq> 0 | _ \<Rightarrow> False)"



definition grows :: "sm \<Rightarrow> sm \<Rightarrow> bool" where
  "grows s s' \<longleftrightarrow> (\<exists>as. out s' = out s @ as \<and> (\<forall>a\<in>set as. \<not> turns_on a))"

lemma grows_refl [simp]: "grows s s"
  by (simp add: grows_def)


lemma out_sel [simp]:
  "out (emit a s) = out s @ [a]" "out (emits as s) = out s @ as" "out (set_exec_state f s) = out s"
  "out (set_exec_alarm b s) = out s" "out (upd_step g s) = out s" "out (upd_park h s) = out s" "out (upd_plan k s) = out s"
  by (simp_all add: emit_def emits_def set_exec_state_def set_exec_alarm_def upd_step_def upd_park_def upd_plan_def)

lemma flag_sel [simp]:
  "soft_limit (emit a s) = soft_limit s" "soft_limit (upd_step g s) = soft_limit s" "soft_limit (upd_park h s) = soft_limit s"
  "step_control (emit a s) = step_control s" "step_control (upd_step g s) = g (step_control s)"
  "step_control (upd_park h s) = step_control s" "soft_limit (set_exec_alarm b s) = soft_limit s"
  by (simp_all add: emit_def upd_step_def upd_park_def set_exec_alarm_def)




















text \<open>
  C25. Cycle start with the safety door open: unless a resume has been interrupted before
  nothing is switched or moved and the machine stays in the door state. But after the door
  was opened during a resume (\<open>pk_restart\<close>) the state of the door is not looked at: cycle start
  moves the tool back to the work piece with the door open.
\<close>

theorem cycle_start_door_ajar:
  assumes "sys_state s = STATE_SAFETY_DOOR" "stateHandler s = H_await_resume" "w_door_ajar w"
    "s' = state_update w EXEC_CYCLE_START s"
  shows "(\<not> pk_restart (park s) \<longrightarrow> s' = s) \<and>
    (pk_restart (park s) \<and> pk_motion (park s) \<and> \<not> w_abort w \<and> w_plan_ok w \<and>
     f32_le (axis_value w (pk_restore_target (park s))) (w_parking_target w) \<longrightarrow>
       stateHandler s' = H_restore \<and>
       out s' = out s @ [Parking_motion ((pk_restore_target (park s))[w_parking_axis w := pk_retract_waypoint (park s)])
                           (w_parking_rate w), St_prep_buffer, St_wake_up])"
proof -
  have b: "\<not> has EXEC_CYCLE_START EXEC_SAFETY_DOOR" "\<not> has EXEC_CYCLE_START EXEC_CYCLE_COMPLETE"
    "\<not> has EXEC_CYCLE_START EXEC_SLEEP" "has EXEC_CYCLE_START EXEC_CYCLE_START"
    by (simp_all add: has_def exec_defs)
  define r where "r = resume_door w s"
  have r: "\<not> pk_restart (park s) \<Longrightarrow> r = s"
    "pk_restart (park s) \<and> pk_motion (park s) \<and> \<not> w_abort w \<and> w_plan_ok w \<and>
     f32_le (axis_value w (pk_restore_target (park s))) (w_parking_target w) \<Longrightarrow>
     r = snd (mc_parking_motion w ((pk_restore_target (park s))[w_parking_axis w := pk_retract_waypoint (park s)])
       (upd_plan (\<lambda>d. d\<lparr>pd_feed_rate := w_parking_rate w\<rparr>)
         (upd_park (\<lambda>p. p\<lparr>pk_restart := False\<rparr>) (s\<lparr>stateHandler := H_restore, parking_state := Parking_Resuming\<rparr>))))"
    using assms(3) by (auto simp: r_def resume_door_def resume_motion_def Let_def mc_parking_motion_def upd_park_def)
  have "s' = (if has (sys_state r) (STATE_SLEEP OR STATE_SAFETY_DOOR) then r
      else state_set_cycle w ((state_set_idle r)\<lparr>step_control := step_control r\<rparr>))"
    using assms(1,2,4) b by (simp add: state_update_def run_handler_def state_await_resume_def Let_def r_def)
  with r assms(1) show ?thesis
    by (auto simp: mc_parking_motion_def upd_plan_def upd_park_def emits_def upd_step_def)
qed

text \<open>The door is opened, closed, opened again while the tool is moved back, and left open.\<close>

definition door_events :: "(bool \<times> u32) list" where
  "door_events = [(True, EXEC_SAFETY_DOOR), (True, EXEC_CYCLE_COMPLETE), (False, EXEC_CYCLE_START),
     (True, EXEC_SAFETY_DOOR), (True, EXEC_CYCLE_COMPLETE), (True, EXEC_CYCLE_COMPLETE)]"

definition door_reopened :: sm where
  "door_reopened = fold (\<lambda>(ajar, rt). state_update (park_world ajar) rt) door_events init_sm"

theorem cycle_start_door_ajar_witness:
  "sm_reachable False door_reopened \<and> w_door_ajar (park_world True) \<and>
   stateHandler (state_update (park_world True) EXEC_CYCLE_START door_reopened) = H_restore \<and>
   state_update (park_world True) EXEC_CYCLE_START
     (upd_park (\<lambda>p. p\<lparr>pk_restart := False\<rparr>) door_reopened) = upd_park (\<lambda>p. p\<lparr>pk_restart := False\<rparr>) door_reopened"
proof -
  have r: "sm_reachable False door_reopened"
    by (simp add: door_reopened_def door_events_def park_world_reachable sm_init)
  have w: "w_door_ajar (park_world True)" "\<not> w_abort (park_world True)" "w_plan_ok (park_world True)"
    by (simp_all add: park_world_def mini_world_def)
  have s: "sys_state door_reopened = STATE_SAFETY_DOOR \<and> stateHandler door_reopened = H_await_resume \<and>
    pk_restart (park door_reopened) \<and> pk_motion (park door_reopened) \<and>
    f32_le (axis_value (park_world True) (pk_restore_target (park door_reopened))) (w_parking_target (park_world True))"
    by code_simp
  from cycle_start_door_ajar [of door_reopened "park_world True", OF _ _ w(1) refl] s w(2,3)
  have a: "stateHandler (state_update (park_world True) EXEC_CYCLE_START door_reopened) = H_restore" by simp
  from cycle_start_door_ajar [of "upd_park (\<lambda>p. p\<lparr>pk_restart := False\<rparr>) door_reopened" "park_world True", OF _ _ w(1) refl] s
  show ?thesis using r w a by (simp add: upd_park_def)
qed

text \<open>
  C26. A cycle that completes in the same pass as a jog or motion cancel request arrives: the
  state becomes idle but the handler that waits for the end of the motion is installed and
  the machine is suspended. Nothing but another completed cycle or an opened safety door
  ever changes that state: cycle start, feed hold, tool change and sleep are ignored.
\<close>

theorem motion_cancel_race:
  assumes "stateHandler s = H_cycle" "sys_state s = STATE_CYCLE \<or> sys_state s = STATE_JOG"
    "has rt EXEC_CYCLE_COMPLETE" "has rt EXEC_MOTION_CANCEL" "\<not> has rt EXEC_FEED_HOLD" "\<not> has rt EXEC_SAFETY_DOOR"
    "\<not> w_tool_change w"
  shows "let s' = state_update w rt s
    in sys_state s' = STATE_IDLE \<and> stateHandler s' = H_await_motion_cancel \<and> suspend s' \<and>
       execute_hold (step_control s') \<and>
       (\<forall>evs. list_all (\<lambda>(w, rt). \<not> has rt EXEC_CYCLE_COMPLETE \<and> \<not> has rt EXEC_SAFETY_DOOR) evs \<longrightarrow>
          fold (\<lambda>(w, rt). state_update w rt) evs s' = s')"
proof -
  define s' where "s' = state_update w rt s"
  have rt: "rt \<noteq> EXEC_CYCLE_START" using assms(3) by (auto simp: has_def exec_defs)
  have h: "sys_state s' = STATE_IDLE \<and> stateHandler s' = H_await_motion_cancel \<and> suspend s' \<and> execute_hold (step_control s')"
    using assms rt by (auto simp: s'_def state_update_def run_handler_def state_cycle_def Let_def state_set_idle_def
      state_set_end_def upd_step_def emit_def upd_park_def set_exec_state_def state_defs)
  have "fold (\<lambda>(w, rt). state_update w rt) evs s' = s'"
    if "list_all (\<lambda>(w :: world, rt). \<not> has rt EXEC_CYCLE_COMPLETE \<and> \<not> has rt EXEC_SAFETY_DOOR) evs" for evs
    using that by (induction evs)
      (auto simp: state_update_def run_handler_def state_await_motion_cancel_def h)
  with h show ?thesis by (auto simp: Let_def s'_def)
qed

theorem motion_cancel_race_witness:
  "let s = state_update mini_world EXEC_CYCLE_START init_sm;
       s' = state_update mini_world (EXEC_CYCLE_COMPLETE OR EXEC_MOTION_CANCEL) s
   in sm_reachable False s \<and> sys_state s' = STATE_IDLE \<and> suspend s' \<and>
      state_update mini_world EXEC_CYCLE_START (state_update mini_world EXEC_FEED_HOLD s') = s'"
proof -
  let ?s = "state_update mini_world EXEC_CYCLE_START init_sm"
  have r: "sm_reachable False ?s" by (rule mini_world_run [OF sm_init])
  have a: "stateHandler ?s = H_cycle" "sys_state ?s = STATE_CYCLE" by code_simp+
  have b: "\<not> w_tool_change mini_world" by (simp add: mini_world_def)
  have c: "has (EXEC_CYCLE_COMPLETE OR EXEC_MOTION_CANCEL) EXEC_CYCLE_COMPLETE"
    "has (EXEC_CYCLE_COMPLETE OR EXEC_MOTION_CANCEL) EXEC_MOTION_CANCEL"
    "\<not> has (EXEC_CYCLE_COMPLETE OR EXEC_MOTION_CANCEL) EXEC_FEED_HOLD"
    "\<not> has (EXEC_CYCLE_COMPLETE OR EXEC_MOTION_CANCEL) EXEC_SAFETY_DOOR"
    "\<not> has EXEC_FEED_HOLD EXEC_CYCLE_COMPLETE" "\<not> has EXEC_FEED_HOLD EXEC_SAFETY_DOOR"
    "\<not> has EXEC_CYCLE_START EXEC_CYCLE_COMPLETE" "\<not> has EXEC_CYCLE_START EXEC_SAFETY_DOOR"
    by (simp_all add: has_def exec_defs)
  define s' where "s' = state_update mini_world (EXEC_CYCLE_COMPLETE OR EXEC_MOTION_CANCEL) ?s"
  have d: "sys_state s' = STATE_IDLE \<and> suspend s' \<and>
    (\<forall>evs. list_all (\<lambda>(w :: world, rt). \<not> has rt EXEC_CYCLE_COMPLETE \<and> \<not> has rt EXEC_SAFETY_DOOR) evs \<longrightarrow>
          fold (\<lambda>(w, rt). state_update w rt) evs s' = s')"
    using motion_cancel_race [OF a(1) disjI1 [OF a(2)] c(1-4) b] by (auto simp: Let_def s'_def)
  have "fold (\<lambda>(w, rt). state_update w rt) [(mini_world, EXEC_FEED_HOLD), (mini_world, EXEC_CYCLE_START)] s' = s'"
    using c d [THEN conjunct2, THEN conjunct2, THEN spec, of "[(mini_world, EXEC_FEED_HOLD), (mini_world, EXEC_CYCLE_START)]"]
    by simp
  with r d show ?thesis by (simp add: Let_def s'_def)
qed

end
