(* ===== verification/Modbus_rtu.thy ===== *)
theory Modbus_rtu
  imports Crc Ring
begin

text \<open>
  The Modbus RTU master of \<^verbatim>\<open>grbl/modbus_rtu.c\<close>: a state machine polled by the millisecond
  interrupt (\<open>modbus_poll\<close>), a ring of queued messages that are sent without waiting, and a
  blocking send that retries. The two run concurrently: a blocking send is split into the
  steps between its calls of \<^verbatim>\<open>grbl.on_execute_realtime\<close>, where the interrupt may run.

  The serial line is the list of received bytes not read yet and the list of events \<open>io\<close>:
  what is written, flushed and switched, and the calls of the handlers of the users of the
  link. The time and the number of bytes still being transmitted are arguments. Reading
  through a null packet pointer and indexing outside a message buffer are the value \<open>None\<close>.
\<close>

section \<open>Data\<close>

definition MODBUS_MAX_ADU_SIZE :: nat where "MODBUS_MAX_ADU_SIZE = 12"

definition MODBUS_QUEUE_LENGTH :: nat where "MODBUS_QUEUE_LENGTH = 8"

definition ModBus_UnknownException :: u8 where "ModBus_UnknownException = 252"

definition ModBus_IllegalSize :: u8 where "ModBus_IllegalSize = 253"

definition ModBus_CRCError :: u8 where "ModBus_CRCError = 254"

definition ModBus_Timeout :: u8 where "ModBus_Timeout = 255"

datatype modbus_state = ModBus_Idle | ModBus_Silent | ModBus_TX | ModBus_AwaitReply | ModBus_TimeoutException
  | ModBus_GotReply | ModBus_Exception | ModBus_Retry

record modbus_message =
  msg_context :: u32
  crc_check :: bool
  tx_length :: u8
  rx_length :: u8
  adu :: "u8 list"

text \<open>The handlers for exceptions: none, the \<^verbatim>\<open>retry_exception\<close> of this file, or one of the user's.\<close>

datatype exc_handler = No_handler | Retry_exception | User_handler nat

record modbus_callbacks =
  retries :: u8
  retry_delay :: u16
  on_rx_packet :: "nat option"
  on_rx_exception :: exc_handler
  on_rx_timeout :: exc_handler

record queue_entry =
  async :: bool
  qmsg :: modbus_message
  callbacks :: modbus_callbacks

text \<open>The pointer \<^verbatim>\<open>packet\<close>: null, to the entry of the blocking send, or into the queue.\<close>

datatype packet_ptr = P_null | P_sync | P_queue nat

record rtu_stats =
  rx_count :: u32
  tx_count :: u32
  n_retries :: u32
  n_timeouts :: u32
  crc_errors :: u32
  rx_exceptions :: u32
  latency :: u32
  no_rx :: bool

datatype event = Direction bool | Flush_rx | Flush_tx | Write "u8 list" | Rx_packet nat modbus_message
  | Rx_exception nat u8 u32 | Baud_rate u32

record rtu =
  queue :: "queue_entry list"
  sync_msg :: queue_entry
  tail :: nat
  head :: nat
  packet :: packet_ptr
  state :: modbus_state
  rx_timeout :: u32
  silence_until :: u32
  silence_timeout :: u32
  silence :: "u16 list"
  exception_code :: u8
  is_blocking :: bool
  spin_lock :: bool
  baud_rate :: u32
  cfg_rx_timeout :: u32
  has_direction :: bool
  rx :: "u8 list"
  stats :: rtu_stats
  io :: "event list"

definition no_callbacks :: modbus_callbacks where
  "no_callbacks = \<lparr>retries = 0, retry_delay = 0, on_rx_packet = None, on_rx_exception = No_handler,
     on_rx_timeout = No_handler\<rparr>"

definition no_stats :: rtu_stats where
  "no_stats = \<lparr>rx_count = 0, tx_count = 0, n_retries = 0, n_timeouts = 0, crc_errors = 0, rx_exceptions = 0,
     latency = 0, no_rx = False\<rparr>"

section \<open>Pointers and streams\<close>

text \<open>The \<^verbatim>\<open>next\<close> pointers as \<^verbatim>\<open>modbus_rtu_init\<close> links them.\<close>

definition next_entry :: "nat \<Rightarrow> nat" where
  "next_entry i = (if i = MODBUS_QUEUE_LENGTH - 1 then 0 else i + 1)"

definition entry_at :: "packet_ptr \<Rightarrow> rtu \<Rightarrow> queue_entry option" where
  "entry_at p s =
     (case p of P_null \<Rightarrow> None | P_sync \<Rightarrow> Some (sync_msg s)
      | P_queue i \<Rightarrow> if i < length (queue s) then Some (queue s ! i) else None)"

definition put_entry :: "packet_ptr \<Rightarrow> queue_entry \<Rightarrow> rtu \<Rightarrow> rtu" where
  "put_entry p e s =
     (case p of P_null \<Rightarrow> s | P_sync \<Rightarrow> s\<lparr>sync_msg := e\<rparr> | P_queue i \<Rightarrow> s\<lparr>queue := (queue s)[i := e]\<rparr>)"

definition emit :: "event \<Rightarrow> rtu \<Rightarrow> rtu" where
  "emit e s = s\<lparr>io := io s @ [e]\<rparr>"

definition upd_stats :: "(rtu_stats \<Rightarrow> rtu_stats) \<Rightarrow> rtu \<Rightarrow> rtu" where
  "upd_stats f s = s\<lparr>stats := f (stats s)\<rparr>"

text \<open>\<^verbatim>\<open>stream.read()\<close>; \<open>None\<close> is \<^verbatim>\<open>SERIAL_NO_DATA\<close>, -1.\<close>

definition stream_read :: "rtu \<Rightarrow> u8 option \<times> rtu" where
  "stream_read s = (case rx s of [] \<Rightarrow> (None, s) | b # bs \<Rightarrow> (Some b, s\<lparr>rx := bs\<rparr>))"

definition flush_rx_buffer :: "rtu \<Rightarrow> rtu" where
  "flush_rx_buffer s = emit Flush_rx (s\<lparr>rx := []\<rparr>)"

definition set_direction :: "bool \<Rightarrow> rtu \<Rightarrow> rtu" where
  "set_direction tx s = (if has_direction s then emit (Direction tx) s else s)"

section \<open>Sending a message\<close>

definition retry_exception :: "u32 \<Rightarrow> rtu \<Rightarrow> rtu" where
  "retry_exception now s =
     (case entry_at (packet s) s of
        None \<Rightarrow> s
      | Some e \<Rightarrow>
          if retries (callbacks e) \<noteq> 0
          then upd_stats (\<lambda>t. t\<lparr>n_retries := n_retries t + 1\<rparr>)
                 (s\<lparr>state := ModBus_Retry, silence_until := now + silence_timeout s + ucast (retry_delay (callbacks e))\<rparr>)
          else s)"

definition call_handler :: "exc_handler \<Rightarrow> u8 \<Rightarrow> u32 \<Rightarrow> u32 \<Rightarrow> rtu \<Rightarrow> rtu" where
  "call_handler h code ctx now s =
     (case h of No_handler \<Rightarrow> s | Retry_exception \<Rightarrow> retry_exception now s
      | User_handler n \<Rightarrow> emit (Rx_exception n code ctx) s)"

text \<open>The callbacks stored with a message.\<close>

definition entry_callbacks :: "bool \<Rightarrow> bool \<Rightarrow> modbus_callbacks option \<Rightarrow> modbus_callbacks" where
  "entry_callbacks reset_pending is_async cbs =
     (case cbs of
        None \<Rightarrow> no_callbacks
      | Some c \<Rightarrow>
          if reset_pending then no_callbacks
          else
            let c1 = (if on_rx_timeout c = No_handler then c\<lparr>on_rx_timeout := on_rx_exception c\<rparr> else c)
            in if \<not> is_async \<and> retries c1 \<noteq> 0
               then c1\<lparr>on_rx_exception := Retry_exception, on_rx_timeout := Retry_exception\<rparr>
               else c1)"

definition add_message :: "bool \<Rightarrow> packet_ptr \<Rightarrow> modbus_message \<Rightarrow> bool \<Rightarrow> modbus_callbacks option \<Rightarrow> rtu \<Rightarrow> rtu" where
  "add_message reset_pending p m is_async cbs s =
     put_entry p \<lparr>async = is_async, qmsg = m, callbacks = entry_callbacks reset_pending is_async cbs\<rparr>
       (upd_stats (\<lambda>t. t\<lparr>tx_count := tx_count t + 1\<rparr>) s)"

definition frame_of :: "modbus_message \<Rightarrow> u8 list" where
  "frame_of m = take (unat (tx_length m)) (adu m)"

definition tx_message :: "packet_ptr \<Rightarrow> rtu \<Rightarrow> rtu option" where
  "tx_message p s =
     (case entry_at p s of
        None \<Rightarrow> None
      | Some e \<Rightarrow>
          if length (adu (qmsg e)) < unat (tx_length (qmsg e)) then None
          else Some (emit (Write (frame_of (qmsg e)))
                 (flush_rx_buffer ((set_direction True s)
                    \<lparr>packet := p, state := ModBus_TX, rx_timeout := cfg_rx_timeout s\<rparr>))))"

section \<open>The interrupt\<close>

definition silence_from :: "u32 \<Rightarrow> rtu \<Rightarrow> rtu" where
  "silence_from now s = s\<lparr>silence_until := now + silence_timeout s\<rparr>"

text \<open>No reply in time. A server that refuses a request replies with a shorter message, which is
  seen here only: its address, the function with the top bit set and a code. The result of
  reading beyond the received bytes, -1, has that bit set too.\<close>

definition await_timeout :: "u32 \<Rightarrow> queue_entry \<Rightarrow> rtu \<Rightarrow> rtu option" where
  "await_timeout now e s =
     (let s1 = upd_stats (\<lambda>t. t\<lparr>n_timeouts := n_timeouts t + 1\<rparr>) s
      in if async e
         then
           let s2 = call_handler (on_rx_timeout (callbacks e)) 0 (msg_context (qmsg e)) now (s1\<lparr>state := ModBus_Silent\<rparr>);
               s3 = s2\<lparr>packet := P_null\<rparr>
           in Some (if state s3 \<noteq> ModBus_AwaitReply then silence_from now s3 else s3)
         else if adu (qmsg e) = [] then None
         else
           let (a, s2) = stream_read s1;
               (f, s3) = (if a = Some (adu (qmsg e) ! 0) then stream_read s2 else (Some 0, s2))
           in if a = Some (adu (qmsg e) ! 0) \<and> (f = None \<or> the f AND 0x80 \<noteq> 0)
              then
                let (c, s4) = stream_read s3
                in Some (silence_from now (upd_stats (\<lambda>t. t\<lparr>rx_exceptions := rx_exceptions t + 1\<rparr>)
                     (s4\<lparr>exception_code := (case c of None \<Rightarrow> ModBus_UnknownException | Some b \<Rightarrow> b),
                         state := ModBus_Exception\<rparr>)))
              else Some (silence_from now (s3\<lparr>state := ModBus_TimeoutException\<rparr>)))"

definition crc_ok :: "u8 list \<Rightarrow> bool" where
  "crc_ok bs =
     (let n = length bs; crc = modbus_crc16x (take (n - 2) bs)
      in bs ! (n - 2) = ucast crc \<and> bs ! (n - 1) = ucast (drop_bit 8 crc))"

text \<open>The reply is complete: it is read into the buffer of the message, which also counts
  \<open>rx_length\<close> down to 0; the handler of a message that is not waited for gets the length back.\<close>

definition await_reply :: "u32 \<Rightarrow> queue_entry \<Rightarrow> rtu \<Rightarrow> rtu option" where
  "await_reply now e s =
     (let n = unat (rx_length (qmsg e))
      in if n = 0 \<or> length (adu (qmsg e)) < n then None
         else if crc_check (qmsg e) \<and> n < 2 then None
         else
           let reply = take n (rx s);
               m = (qmsg e)\<lparr>adu := reply @ drop n (adu (qmsg e)), rx_length := 0\<rparr>;
               s1 = put_entry (packet s) (e\<lparr>qmsg := m\<rparr>)
                 (upd_stats (\<lambda>t. t\<lparr>rx_count := rx_count t + 1, latency := max (latency t) (cfg_rx_timeout s - rx_timeout s)\<rparr>)
                   (s\<lparr>rx := drop n (rx s)\<rparr>))
           in if crc_check m \<and> \<not> crc_ok reply
              then
                let s2 = upd_stats (\<lambda>t. t\<lparr>crc_errors := crc_errors t + 1\<rparr>) s1;
                    s3 = (if async e
                          then (call_handler (on_rx_exception (callbacks e)) ModBus_CRCError (msg_context m) now
                                  (s2\<lparr>state := ModBus_Silent\<rparr>))\<lparr>packet := P_null\<rparr>
                          else s2\<lparr>state := ModBus_Exception\<rparr>)
                in Some (silence_from now s3)
              else
                let s3 = (if async e
                          then (case on_rx_packet (callbacks e) of
                                  None \<Rightarrow> s1\<lparr>state := ModBus_Silent\<rparr>
                                | Some h \<Rightarrow> emit (Rx_packet h (m\<lparr>rx_length := rx_length (qmsg e)\<rparr>))
                                    (put_entry (packet s) (e\<lparr>qmsg := m\<lparr>rx_length := rx_length (qmsg e)\<rparr>\<rparr>)
                                      (s1\<lparr>state := ModBus_Silent\<rparr>)))\<lparr>packet := P_null\<rparr>
                          else s1\<lparr>state := ModBus_GotReply\<rparr>)
                in Some (silence_from now s3))"

definition poll_idle :: "rtu \<Rightarrow> rtu option" where
  "poll_idle s =
     (if tail s \<noteq> head s \<and> packet s = P_null \<and> \<not> is_blocking s
      then map_option (\<lambda>s1. s1\<lparr>tail := next_entry (tail s)\<rparr>) (tx_message (P_queue (tail s)) s)
      else Some s)"

definition rx_count_down :: "rtu \<Rightarrow> rtu" where
  "rx_count_down s = (if rx_timeout s \<noteq> 0 then s\<lparr>rx_timeout := rx_timeout s - 1\<rparr> else s)"

definition poll_await :: "u32 \<Rightarrow> rtu \<Rightarrow> rtu option" where
  "poll_await now s =
     (case entry_at (packet s) s of
        None \<Rightarrow> None
      | Some e \<Rightarrow>
          let s1 = rx_count_down s
          in if rx_timeout s \<noteq> 0 \<and> rx_timeout s1 = 0 then await_timeout now e s1
             else if unat (rx_length (qmsg e)) \<le> length (rx s1) then await_reply now e s1
             else Some s1)"

definition poll_state :: "u32 \<Rightarrow> nat \<Rightarrow> rtu \<Rightarrow> rtu option" where
  "poll_state now tx_buffer_count s =
     (case state s of
        ModBus_Idle \<Rightarrow> poll_idle s
      | ModBus_Silent \<Rightarrow>
          Some (if sint (silence_until s - now) \<le> 0 then s\<lparr>silence_until := 0, state := ModBus_Idle\<rparr> else s)
      | ModBus_TX \<Rightarrow>
          Some (if tx_buffer_count = 0 then set_direction False ((flush_rx_buffer s)\<lparr>state := ModBus_AwaitReply\<rparr>) else s)
      | ModBus_AwaitReply \<Rightarrow> poll_await now s
      | ModBus_TimeoutException \<Rightarrow>
          (case entry_at (packet s) s of
             None \<Rightarrow> None
           | Some e \<Rightarrow>
               let s1 = (if async e then s\<lparr>state := ModBus_Silent\<rparr> else s)
               in Some (silence_from now (upd_stats (\<lambda>t. t\<lparr>no_rx := (rx s = [])\<rparr>) s1)))
      | _ \<Rightarrow> Some s)"

definition modbus_poll :: "u32 \<Rightarrow> nat \<Rightarrow> rtu \<Rightarrow> rtu option" where
  "modbus_poll now tx_buffer_count s =
     (if spin_lock s then Some s
      else map_option (\<lambda>s1. s1\<lparr>spin_lock := False\<rparr>) (poll_state now tx_buffer_count (s\<lparr>spin_lock := True\<rparr>)))"

section \<open>The blocking send\<close>

text \<open>Where a blocking send waits: for the link to be idle, or for the reply.\<close>

datatype send_point =
    Await_idle modbus_message "modbus_callbacks option"
  | Await_end modbus_message "modbus_callbacks option"

datatype send_result = Returned bool | Waiting send_point

definition put_crc :: "modbus_message \<Rightarrow> modbus_message" where
  "put_crc m =
     (let n = unat (tx_length m); crc = modbus_crc16x (take (n - 2) (adu m))
      in m\<lparr>adu := (adu m)[n - 1 := ucast (drop_bit 8 crc), n - 2 := ucast crc]\<rparr>)"

definition send_first :: "bool \<Rightarrow> modbus_message \<Rightarrow> modbus_callbacks option \<Rightarrow> rtu \<Rightarrow> (send_result \<times> rtu) option" where
  "send_first reset_pending m cbs s =
     (if state s \<noteq> ModBus_Idle then Some (Waiting (Await_idle m cbs), s)
      else map_option (\<lambda>s1. (Waiting (Await_end m cbs), s1)) (tx_message P_sync (add_message reset_pending P_sync m False cbs s)))"

text \<open>Queueing a message that is not waited for: not while the blocking send talks to the same
  device, and not when the queue is full. The caller is told it was sent either way.\<close>

definition send_async :: "bool \<Rightarrow> modbus_message \<Rightarrow> modbus_callbacks option \<Rightarrow> rtu \<Rightarrow> rtu option" where
  "send_async reset_pending m cbs s =
     (let add = (if next_entry (head s) \<noteq> tail s
                 then Some ((add_message reset_pending (P_queue (head s)) m True cbs s)\<lparr>head := next_entry (head s)\<rparr>)
                 else Some s)
      in if packet s = P_null \<or> adu (qmsg (sync_msg s)) ! 1 = 0 then add
         else
           case entry_at (packet s) s of
             None \<Rightarrow> None
           | Some e \<Rightarrow> if adu (qmsg e) ! 0 \<noteq> adu (qmsg (sync_msg s)) ! 0 then add else Some s)"

definition modbus_send_rtu ::
  "bool \<Rightarrow> bool \<Rightarrow> u32 \<Rightarrow> modbus_message \<Rightarrow> modbus_callbacks option \<Rightarrow> bool \<Rightarrow> rtu \<Rightarrow> (send_result \<times> rtu) option" where
  "modbus_send_rtu reset_pending blocking_event now m cbs block s =
     (if MODBUS_MAX_ADU_SIZE < unat (tx_length m) \<or> MODBUS_MAX_ADU_SIZE < unat (rx_length m)
      then (case cbs of
              None \<Rightarrow> None
            | Some c \<Rightarrow> Some (Returned False, call_handler (on_rx_exception c) ModBus_IllegalSize (msg_context m) now s))
      else if unat (tx_length m) < 2 then None
      else if block \<and> \<not> blocking_event
      then if is_blocking s then Some (Returned False, s)
           else send_first reset_pending (put_crc m) cbs (s\<lparr>is_blocking := True\<rparr>)
      else map_option (\<lambda>s1. (Returned True, s1)) (send_async reset_pending (put_crc m) cbs s))"

text \<open>One pass of the loop that waits for the reply.\<close>

definition end_timeout :: "u32 \<Rightarrow> queue_entry \<Rightarrow> rtu \<Rightarrow> rtu" where
  "end_timeout now e s =
     (let s1 = call_handler (on_rx_timeout (callbacks e)) ModBus_Timeout (msg_context (qmsg e)) now s;
          s2 = s1\<lparr>is_blocking := (retries (callbacks e) \<noteq> 0)\<rparr>
      in if \<not> is_blocking s2 then upd_stats (\<lambda>t. t\<lparr>no_rx := (rx s2 = [])\<rparr>) s2 else s2)"

definition end_exception :: "u32 \<Rightarrow> queue_entry \<Rightarrow> rtu \<Rightarrow> rtu" where
  "end_exception now e s =
     (call_handler (on_rx_exception (callbacks e)) (exception_code s) (msg_context (qmsg e)) now s)
       \<lparr>is_blocking := (retries (callbacks e) \<noteq> 0)\<rparr>"

definition end_reply :: "queue_entry \<Rightarrow> rtu \<Rightarrow> rtu" where
  "end_reply e s =
     (case on_rx_packet (callbacks e) of None \<Rightarrow> s | Some h \<Rightarrow> emit (Rx_packet h (qmsg e)) s)\<lparr>is_blocking := False\<rparr>"

definition next_callbacks :: "modbus_callbacks option \<Rightarrow> modbus_callbacks \<Rightarrow> modbus_callbacks option" where
  "next_callbacks user c =
     (let c1 = c\<lparr>retries := retries c - 1\<rparr>
      in if retries c1 \<noteq> 0 then Some c1
         else case user of
             None \<Rightarrow> None
           | Some u \<Rightarrow> Some (c1\<lparr>on_rx_exception := on_rx_exception u,
               on_rx_timeout := (if on_rx_timeout u = No_handler then on_rx_exception u else on_rx_timeout u)\<rparr>))"

definition end_retry :: "bool \<Rightarrow> u32 \<Rightarrow> modbus_message \<Rightarrow> modbus_callbacks option \<Rightarrow> queue_entry \<Rightarrow> rtu \<Rightarrow> rtu option" where
  "end_retry reset_pending now m cbs e s =
     (if sint (silence_until s - now) \<le> 0
      then
        case next_callbacks cbs (callbacks e) of
          None \<Rightarrow> None
        | Some c \<Rightarrow> tx_message P_sync ((add_message reset_pending P_sync m False (Some c) (s\<lparr>silence_until := 0\<rparr>))\<lparr>packet := P_sync\<rparr>)
      else Some s)"

definition end_step :: "bool \<Rightarrow> u32 \<Rightarrow> modbus_message \<Rightarrow> modbus_callbacks option \<Rightarrow> rtu \<Rightarrow> rtu option" where
  "end_step reset_pending now m cbs s =
     (if state s \<in> {ModBus_TimeoutException, ModBus_Exception, ModBus_GotReply, ModBus_Retry}
      then
        case entry_at (packet s) s of
          None \<Rightarrow> None
        | Some e \<Rightarrow>
            (case state s of
               ModBus_TimeoutException \<Rightarrow> Some (end_timeout now e s)
             | ModBus_Exception \<Rightarrow> Some (end_exception now e s)
             | ModBus_GotReply \<Rightarrow> Some (end_reply e s)
             | _ \<Rightarrow> end_retry reset_pending now m cbs e s)
      else Some s)"

definition send_finish :: "rtu \<Rightarrow> rtu" where
  "send_finish s =
     s\<lparr>packet := P_null, is_blocking := False,
       sync_msg := (sync_msg s)\<lparr>qmsg := (qmsg (sync_msg s))\<lparr>adu := (adu (qmsg (sync_msg s)))[1 := 0]\<rparr>\<rparr>,
       state := (if silence_until s \<noteq> 0 then ModBus_Silent else ModBus_Idle)\<rparr>"

definition send_continue :: "bool \<Rightarrow> u32 \<Rightarrow> send_point \<Rightarrow> rtu \<Rightarrow> (send_result \<times> rtu) option" where
  "send_continue reset_pending now p s =
     (case p of
        Await_idle m cbs \<Rightarrow> send_first reset_pending m cbs s
      | Await_end m cbs \<Rightarrow>
          map_option (\<lambda>s1. if is_blocking s1 then (Waiting p, s1)
                           else (Returned (state s = ModBus_GotReply), send_finish s1))
            (end_step reset_pending now m cbs s))"

section \<open>Reset and settings\<close>

definition modbus_reset :: "bool \<Rightarrow> u32 \<Rightarrow> rtu \<Rightarrow> rtu" where
  "modbus_reset abort now s =
     (let s1 = (if abort
                then
                  let s1 = (case entry_at (packet s) s of
                              None \<Rightarrow> s | Some e \<Rightarrow> put_entry (packet s) (e\<lparr>callbacks := no_callbacks\<rparr>) s)
                  in flush_rx_buffer (emit Flush_tx
                       (s1\<lparr>packet := P_null, tail := head s1, silence_until := now + 500, state := ModBus_Silent\<rparr>))
                else s)
      in if state s1 = ModBus_Retry then s1\<lparr>silence_until := now + 500, state := ModBus_Silent\<rparr> else s1)"

definition modbus_rtu_flush_queue :: "rtu \<Rightarrow> rtu" where
  "modbus_rtu_flush_queue s = s\<lparr>tail := head s\<rparr>"

definition modbus_is_busy :: "rtu \<Rightarrow> bool" where
  "modbus_is_busy s = (state s \<noteq> ModBus_Idle)"

definition baud :: "u32 list" where
  "baud = [2400, 4800, 9600, 19200, 38400, 115200]"

definition dflt_timeout :: "u16 list" where
  "dflt_timeout = [16, 8, 4, 2, 2, 2]"

definition DEFAULT_MODBUS_STREAM_BAUD :: nat where "DEFAULT_MODBUS_STREAM_BAUD = 3"

fun get_baudrate_from :: "nat \<Rightarrow> u32 \<Rightarrow> nat" where
  "get_baudrate_from 0 rate = DEFAULT_MODBUS_STREAM_BAUD"
| "get_baudrate_from (Suc i) rate = (if baud ! i = rate then i else get_baudrate_from i rate)"

definition get_baudrate :: "u32 \<Rightarrow> nat" where
  "get_baudrate rate = get_baudrate_from (length baud) rate"

text \<open>The setting is an index that the settings code has checked against the six choices.\<close>

definition modbus_set_baud :: "nat \<Rightarrow> rtu \<Rightarrow> rtu" where
  "modbus_set_baud v s =
     emit (Baud_rate (baud ! v)) (s\<lparr>baud_rate := baud ! v, silence_timeout := ucast (silence s ! v)\<rparr>)"

definition modbus_get_baud :: "rtu \<Rightarrow> nat" where
  "modbus_get_baud s = get_baudrate (baud_rate s)"

definition modbus_settings_restore :: "rtu \<Rightarrow> rtu" where
  "modbus_settings_restore s = s\<lparr>cfg_rx_timeout := 50, baud_rate := baud ! DEFAULT_MODBUS_STREAM_BAUD\<rparr>"

text \<open>Loading: \<open>nvs\<close> is what the storage holds, \<open>None\<close> when its checksum is wrong.\<close>

definition modbus_settings_load :: "(u32 \<times> u32) option \<Rightarrow> rtu \<Rightarrow> rtu" where
  "modbus_settings_load nvs s =
     (let s1 = (case nvs of
                  None \<Rightarrow> modbus_settings_restore s
                | Some (rate, timeout) \<Rightarrow>
                    let s1 = s\<lparr>baud_rate := rate, cfg_rx_timeout := timeout\<rparr>
                    in if rate \<noteq> baud ! get_baudrate rate then modbus_settings_restore s1 else s1)
      in emit (Baud_rate (baud_rate s1)) (s1\<lparr>silence_timeout := ucast (silence s1 ! get_baudrate (baud_rate s1))\<rparr>))"

definition modbus_rtu_set_silence :: "u16 list option \<Rightarrow> rtu \<Rightarrow> rtu" where
  "modbus_rtu_set_silence timeout s =
     (let s1 = s\<lparr>silence := (case timeout of None \<Rightarrow> dflt_timeout | Some t \<Rightarrow> t)\<rparr>
      in s1\<lparr>silence_timeout := ucast (silence s1 ! get_baudrate (baud_rate s1))\<rparr>)"

definition zero_msg :: modbus_message where
  "zero_msg = \<lparr>msg_context = 0, crc_check = False, tx_length = 0, rx_length = 0, adu = replicate MODBUS_MAX_ADU_SIZE 0\<rparr>"

definition zero_entry :: queue_entry where
  "zero_entry = \<lparr>async = False, qmsg = zero_msg, callbacks = no_callbacks\<rparr>"

definition modbus_rtu_init :: "bool \<Rightarrow> rtu" where
  "modbus_rtu_init direction =
     modbus_settings_restore (modbus_rtu_set_silence None
       \<lparr>queue = replicate MODBUS_QUEUE_LENGTH zero_entry, sync_msg = zero_entry, tail = 0, head = 0, packet = P_null,
        state = ModBus_Idle, rx_timeout = 0, silence_until = 0, silence_timeout = 0, silence = dflt_timeout,
        exception_code = 0, is_blocking = False, spin_lock = False, baud_rate = 0, cfg_rx_timeout = 0,
        has_direction = direction, rx = [], stats = no_stats, io = []\<rparr>)"

section \<open>No null pointer, no buffer overrun\<close>

text \<open>A message as the users of the link build it; \<open>modbus_send_rtu\<close> itself checks the upper bounds.\<close>

definition msg_ready :: "modbus_message \<Rightarrow> bool" where
  "msg_ready m \<longleftrightarrow> length (adu m) = MODBUS_MAX_ADU_SIZE \<and> 2 \<le> unat (tx_length m) \<and> unat (tx_length m) \<le> MODBUS_MAX_ADU_SIZE \<and>
     1 \<le> unat (rx_length m) \<and> unat (rx_length m) \<le> MODBUS_MAX_ADU_SIZE \<and> (crc_check m \<longrightarrow> 2 \<le> unat (rx_length m))"

definition user_callbacks :: "modbus_callbacks \<Rightarrow> bool" where
  "user_callbacks c \<longleftrightarrow> on_rx_exception c \<noteq> Retry_exception \<and> on_rx_timeout c \<noteq> Retry_exception"

definition async_ready :: "queue_entry \<Rightarrow> bool" where
  "async_ready e \<longleftrightarrow> async e \<and> msg_ready (qmsg e) \<and> user_callbacks (callbacks e)"

definition sync_ready :: "queue_entry \<Rightarrow> bool" where
  "sync_ready e \<longleftrightarrow> \<not> async e \<and> (retries (callbacks e) \<noteq> 0 \<longrightarrow>
     on_rx_exception (callbacks e) = Retry_exception \<and> on_rx_timeout (callbacks e) = Retry_exception)"

fun packet_ok :: "packet_ptr \<Rightarrow> rtu \<Rightarrow> bool" where
  "packet_ok P_null s \<longleftrightarrow> state s \<in> {ModBus_Idle, ModBus_Silent}"
| "packet_ok P_sync s \<longleftrightarrow> is_blocking s \<and> sync_ready (sync_msg s) \<and>
     (state s \<in> {ModBus_TX, ModBus_AwaitReply} \<longrightarrow> msg_ready (qmsg (sync_msg s)))"
| "packet_ok (P_queue i) s \<longleftrightarrow> i < length (queue s) \<and> next_entry i = tail s \<and> async_ready (queue s ! i) \<and>
     state s \<in> {ModBus_TX, ModBus_AwaitReply}"

definition pending :: "rtu \<Rightarrow> queue_entry list" where
  "pending s = ring_list (queue s) (tail s) (head s)"

definition ring_ok :: "rtu \<Rightarrow> bool" where
  "ring_ok s \<longleftrightarrow> length (queue s) = MODBUS_QUEUE_LENGTH \<and> head s < MODBUS_QUEUE_LENGTH \<and> tail s < MODBUS_QUEUE_LENGTH \<and>
     list_all async_ready (pending s)"

definition rtu_ok :: "rtu \<Rightarrow> bool" where
  "rtu_ok s \<longleftrightarrow> ring_ok s \<and> length (adu (qmsg (sync_msg s))) = MODBUS_MAX_ADU_SIZE \<and> packet_ok (packet s) s"

text \<open>The blocking send in progress, if there is one.\<close>

fun point_ok :: "send_point option \<Rightarrow> rtu \<Rightarrow> bool" where
  "point_ok None s \<longleftrightarrow> \<not> is_blocking s"
| "point_ok (Some (Await_idle m cbs)) s \<longleftrightarrow> is_blocking s \<and> packet s \<noteq> P_sync \<and> msg_ready m \<and> pred_option user_callbacks cbs"
| "point_ok (Some (Await_end m cbs)) s \<longleftrightarrow> is_blocking s \<and> msg_ready m \<and> pred_option user_callbacks cbs \<and>
     (retries (callbacks (sync_msg s)) \<noteq> 0 \<longrightarrow> cbs \<noteq> None) \<and> (state s = ModBus_Retry \<longrightarrow> packet s = P_sync \<and> retries (callbacks (sync_msg s)) \<noteq> 0) \<and>
     (\<forall>i. packet s \<noteq> P_queue i)"

lemma next_entry_eq: "i < MODBUS_QUEUE_LENGTH \<Longrightarrow> next_entry i = Suc i mod MODBUS_QUEUE_LENGTH"
  by (auto simp: next_entry_def MODBUS_QUEUE_LENGTH_def)

lemma next_entry_less: "i < MODBUS_QUEUE_LENGTH \<Longrightarrow> next_entry i < MODBUS_QUEUE_LENGTH"
  by (simp add: next_entry_eq MODBUS_QUEUE_LENGTH_def)

lemma next_entry_inj: "i < MODBUS_QUEUE_LENGTH \<Longrightarrow> j < MODBUS_QUEUE_LENGTH \<Longrightarrow> next_entry i = next_entry j \<Longrightarrow> i = j"
  by (auto simp: next_entry_def split: if_splits)

lemma entry_callbacks_async [simp]:
  "pred_option user_callbacks cbs \<Longrightarrow> user_callbacks (entry_callbacks r True cbs)"
  by (auto simp: entry_callbacks_def no_callbacks_def user_callbacks_def Let_def split: option.split)

lemma entry_callbacks_sync [simp]:
  "sync_ready \<lparr>async = False, qmsg = m, callbacks = entry_callbacks r False cbs\<rparr>"
  by (auto simp: sync_ready_def entry_callbacks_def no_callbacks_def Let_def split: option.split)

lemma entry_callbacks_None: "retries (entry_callbacks r b cbs) \<noteq> 0 \<Longrightarrow> cbs \<noteq> None"
  by (cases cbs) (simp_all add: entry_callbacks_def no_callbacks_def)

lemmas rtu_sel = emit_def upd_stats_def flush_rx_buffer_def set_direction_def silence_from_def

lemma pending_put:
  assumes "ring_ok s" "next_entry (head s) \<noteq> tail s"
  shows "ring_list ((queue s)[head s := e]) (tail s) (next_entry (head s)) = pending s @ [e]"
  using assms ring_list_put [of "tail s" "queue s" "head s" e] by (auto simp: ring_ok_def pending_def next_entry_eq)

lemma pending_get:
  assumes "ring_ok s" "tail s \<noteq> head s"
  shows "pending s = queue s ! tail s # ring_list (queue s) (next_entry (tail s)) (head s)"
  using assms ring_list_get [of "tail s" "queue s" "head s"] by (auto simp: ring_ok_def pending_def next_entry_eq)

text \<open>Writing to the entry that is being transmitted does not touch the queued ones.\<close>

lemma ring_list_update_free:
  assumes "t < length q" "h < length q" "i < length q" "\<And>k. k < ring_count (length q) t h \<Longrightarrow> i \<noteq> (t + k) mod length q"
  shows "ring_list (q[i := e]) t h = ring_list q t h"
  using assms by (auto simp: ring_list_def intro!: map_cong)

lemma in_flight_free:
  assumes "i < MODBUS_QUEUE_LENGTH" "h < MODBUS_QUEUE_LENGTH" "k < ring_count MODBUS_QUEUE_LENGTH (next_entry i) h"
  shows "i \<noteq> (next_entry i + k) mod MODBUS_QUEUE_LENGTH"
proof -
  have k: "k < MODBUS_QUEUE_LENGTH - 1"
  proof (rule ccontr)
    assume "\<not> ?thesis"
    then have "ring_count MODBUS_QUEUE_LENGTH (next_entry i) h = MODBUS_QUEUE_LENGTH"
      using assms ring_count_less [OF next_entry_less [OF assms(1)] assms(2)] by simp
    with ring_count_less [OF next_entry_less [OF assms(1)] assms(2)] show False by simp
  qed
  with assms(1) show ?thesis
    by (auto simp: next_entry_def MODBUS_QUEUE_LENGTH_def mod_if split: if_splits)
qed

lemma pending_in_flight:
  assumes "ring_ok s" "i < length (queue s)" "next_entry i = tail s"
  shows "ring_list ((queue s)[i := e]) (tail s) (head s) = pending s"
  unfolding pending_def
  using assms in_flight_free [of i "head s"]
  by (intro ring_list_update_free) (auto simp: ring_ok_def)


lemma frame_length: "msg_ready m \<Longrightarrow> \<not> length (adu m) < unat (tx_length m)"
  by (simp add: msg_ready_def)

lemma packet_cases:
  assumes "packet_ok (packet s) s" "state s \<notin> {ModBus_Idle, ModBus_Silent}"
  obtains (sync) "packet s = P_sync" "entry_at (packet s) s = Some (sync_msg s)" "is_blocking s" "sync_ready (sync_msg s)"
  | (queued) i where "packet s = P_queue i" "entry_at (packet s) s = Some (queue s ! i)" "i < length (queue s)"
      "next_entry i = tail s" "async_ready (queue s ! i)" "state s \<in> {ModBus_TX, ModBus_AwaitReply}"
  using assms by (cases "packet s") (auto simp: entry_at_def)

lemma user_handler [simp]:
  assumes "h \<noteq> Retry_exception"
  shows "queue (call_handler h c x now s) = queue s" "sync_msg (call_handler h c x now s) = sync_msg s"
    "tail (call_handler h c x now s) = tail s" "head (call_handler h c x now s) = head s"
    "packet (call_handler h c x now s) = packet s" "state (call_handler h c x now s) = state s"
    "is_blocking (call_handler h c x now s) = is_blocking s" "silence_until (call_handler h c x now s) = silence_until s"
    "silence_timeout (call_handler h c x now s) = silence_timeout s" "rx_timeout (call_handler h c x now s) = rx_timeout s"
    "cfg_rx_timeout (call_handler h c x now s) = cfg_rx_timeout s" "spin_lock (call_handler h c x now s) = spin_lock s"
    "rx (call_handler h c x now s) = rx s"
  using assms by (cases h; simp add: call_handler_def emit_def)+

lemma stream_read_sel [simp]:
  "queue (snd (stream_read s)) = queue s" "sync_msg (snd (stream_read s)) = sync_msg s"
  "tail (snd (stream_read s)) = tail s" "head (snd (stream_read s)) = head s"
  "packet (snd (stream_read s)) = packet s" "state (snd (stream_read s)) = state s"
  "is_blocking (snd (stream_read s)) = is_blocking s" "spin_lock (snd (stream_read s)) = spin_lock s"
  "silence_timeout (snd (stream_read s)) = silence_timeout s" "cfg_rx_timeout (snd (stream_read s)) = cfg_rx_timeout s"
  "io (snd (stream_read s)) = io s"
  by (simp_all add: stream_read_def split: list.split)

lemma rtu_ok_cong:
  assumes "rtu_ok s" "queue s' = queue s" "sync_msg s' = sync_msg s" "tail s' = tail s" "head s' = head s"
    "packet s' = packet s" "state s' = state s" "is_blocking s' = is_blocking s"
  shows "rtu_ok s'"
proof -
  have "packet_ok p s' = packet_ok p s" for p using assms by (cases p) simp_all
  then show ?thesis using assms by (simp add: rtu_ok_def ring_ok_def pending_def)
qed

lemma await_timeout_queued:
  assumes "rtu_ok s" "packet s = P_queue i" "e = queue s ! i"
  shows "\<exists>s'. await_timeout now e s = Some s' \<and> rtu_ok s' \<and> packet s' = P_null \<and> state s' = ModBus_Silent \<and>
    is_blocking s' = is_blocking s \<and> sync_msg s' = sync_msg s \<and> spin_lock s' = spin_lock s"
proof -
  have a: "async e" "on_rx_timeout (callbacks e) \<noteq> Retry_exception"
    using assms by (auto simp: rtu_ok_def async_ready_def user_callbacks_def)
  then show ?thesis using assms(1)
    by (auto simp: await_timeout_def Let_def rtu_sel rtu_ok_def ring_ok_def pending_def)
qed

lemma await_timeout_sync:
  assumes "rtu_ok s" "packet s = P_sync" "e = sync_msg s"
  shows "\<exists>s'. await_timeout now e s = Some s' \<and> rtu_ok s' \<and> packet s' = P_sync \<and>
    state s' \<in> {ModBus_Exception, ModBus_TimeoutException} \<and>
    is_blocking s' = is_blocking s \<and> sync_msg s' = sync_msg s \<and> spin_lock s' = spin_lock s"
proof -
  have a: "\<not> async e" "adu (qmsg e) \<noteq> []"
    using assms by (auto simp: rtu_ok_def sync_ready_def MODBUS_MAX_ADU_SIZE_def)
  show ?thesis using a assms
    by (auto simp: await_timeout_def Let_def case_prod_unfold rtu_sel rtu_ok_def ring_ok_def pending_def)
qed

lemma await_reply_queued:
  assumes "rtu_ok s" "packet s = P_queue i" "e = queue s ! i" "unat (rx_length (qmsg e)) \<le> length (rx s)"
  shows "\<exists>s'. await_reply now e s = Some s' \<and> rtu_ok s' \<and> packet s' = P_null \<and> state s' = ModBus_Silent \<and>
    is_blocking s' = is_blocking s \<and> sync_msg s' = sync_msg s \<and> spin_lock s' = spin_lock s"
proof -
  have i: "i < length (queue s)" "next_entry i = tail s" "ring_ok s" using assms by (simp_all add: rtu_ok_def)
  have a: "async e" "on_rx_exception (callbacks e) \<noteq> Retry_exception" and m: "msg_ready (qmsg e)"
    using assms by (auto simp: rtu_ok_def async_ready_def user_callbacks_def)
  have n: "\<not> (unat (rx_length (qmsg e)) = 0 \<or> length (adu (qmsg e)) < unat (rx_length (qmsg e)))"
    "\<not> (crc_check (qmsg e) \<and> unat (rx_length (qmsg e)) < 2)" using m by (auto simp: msg_ready_def)
  show ?thesis
    using a n assms(1,2) pending_in_flight [OF i(3,1,2)] pending_in_flight [of "s\<lparr>queue := (queue s)[i := x]\<rparr>" i for x] i
    by (auto simp: await_reply_def Let_def rtu_sel rtu_ok_def ring_ok_def pending_def put_entry_def split: option.split)
qed

lemma await_reply_sync:
  assumes "rtu_ok s" "packet s = P_sync" "e = sync_msg s" "state s = ModBus_AwaitReply"
    "unat (rx_length (qmsg e)) \<le> length (rx s)"
  shows "\<exists>s'. await_reply now e s = Some s' \<and> rtu_ok s' \<and> packet s' = P_sync \<and>
    state s' \<in> {ModBus_Exception, ModBus_GotReply} \<and>
    (state s' = ModBus_GotReply \<and> crc_check (qmsg e) \<longrightarrow> crc_ok (take (unat (rx_length (qmsg e))) (adu (qmsg (sync_msg s'))))) \<and>
    is_blocking s' = is_blocking s \<and> callbacks (sync_msg s') = callbacks (sync_msg s) \<and> spin_lock s' = spin_lock s"
proof -
  have a: "\<not> async e" and m: "msg_ready (qmsg e)" and b: "is_blocking s" and r: "ring_ok s" and sr: "sync_ready e"
    using assms by (auto simp: rtu_ok_def sync_ready_def)
  have n: "\<not> (unat (rx_length (qmsg e)) = 0 \<or> length (adu (qmsg e)) < unat (rx_length (qmsg e)))"
    "\<not> (crc_check (qmsg e) \<and> unat (rx_length (qmsg e)) < 2)" "length (adu (qmsg e)) = MODBUS_MAX_ADU_SIZE"
    using m by (auto simp: msg_ready_def)
  show ?thesis using a n assms(2,3,5) b r sr
    by (auto simp: await_reply_def Let_def rtu_sel rtu_ok_def ring_ok_def pending_def put_entry_def sync_ready_def min_def)
qed

lemma poll_await_ok:
  assumes "rtu_ok s" "state s = ModBus_AwaitReply"
  shows "\<exists>s'. poll_await now s = Some s' \<and> rtu_ok s' \<and> is_blocking s' = is_blocking s \<and>
    callbacks (sync_msg s') = callbacks (sync_msg s) \<and> spin_lock s' = spin_lock s \<and> state s' \<noteq> ModBus_Retry \<and>
    (packet s' = packet s \<or> packet s' = P_null)"
proof -
  define s1 where "s1 = rx_count_down s"
  have s1: "rtu_ok s1" "packet s1 = packet s" "sync_msg s1 = sync_msg s" "queue s1 = queue s" "rx s1 = rx s"
    "is_blocking s1 = is_blocking s" "spin_lock s1 = spin_lock s" "state s1 = state s"
    using rtu_ok_cong [OF assms(1), of s1] by (simp_all add: s1_def rx_count_down_def)
  have p: "poll_await now s = (if rx_timeout s \<noteq> 0 \<and> rx_timeout s1 = 0 then await_timeout now e s1
      else if unat (rx_length (qmsg e)) \<le> length (rx s1) then await_reply now e s1 else Some s1)"
    if "entry_at (packet s) s = Some e" for e
    unfolding poll_await_def that option.case Let_def s1_def ..
  have "packet_ok (packet s) s" "state s \<notin> {ModBus_Idle, ModBus_Silent}" using assms by (simp_all add: rtu_ok_def)
  then show ?thesis
  proof (cases rule: packet_cases)
    case sync
    then show ?thesis
      using s1 assms(2) await_timeout_sync [OF s1(1), of "sync_msg s" now] await_reply_sync [OF s1(1), of "sync_msg s" now]
      unfolding p [OF sync(2)] by auto
  next
    case (queued i)
    then show ?thesis
      using s1 assms(2) await_timeout_queued [OF s1(1), of i "queue s ! i" now] await_reply_queued [OF s1(1), of i "queue s ! i" now]
      unfolding p [OF queued(2)] by auto
  qed
qed

lemma tx_message_ok:
  assumes "entry_at p s = Some e" "msg_ready (qmsg e)"
  obtains s' where "tx_message p s = Some s'" "queue s' = queue s" "sync_msg s' = sync_msg s" "tail s' = tail s"
    "head s' = head s" "packet s' = p" "state s' = ModBus_TX" "is_blocking s' = is_blocking s"
    "spin_lock s' = spin_lock s" "rx s' = []" "rx_timeout s' = cfg_rx_timeout s" "cfg_rx_timeout s' = cfg_rx_timeout s"
    "silence_timeout s' = silence_timeout s"
    "io s' = io s @ (if has_direction s then [Direction True] else []) @ [Flush_rx, Write (frame_of (qmsg e))]"
  using assms frame_length [OF assms(2)] by (auto simp: tx_message_def rtu_sel)

lemma poll_idle_ok:
  assumes "rtu_ok s" "state s = ModBus_Idle"
  shows "\<exists>s'. poll_idle s = Some s' \<and> rtu_ok s' \<and> is_blocking s' = is_blocking s \<and> sync_msg s' = sync_msg s \<and>
    spin_lock s' = spin_lock s \<and> state s' \<noteq> ModBus_Retry \<and> (is_blocking s \<longrightarrow> s' = s) \<and>
    (packet s' = packet s \<or> \<not> is_blocking s)"
proof (cases "tail s \<noteq> head s \<and> packet s = P_null \<and> \<not> is_blocking s")
  case True
  have r: "ring_ok s" using assms(1) by (simp add: rtu_ok_def)
  let ?e = "queue s ! tail s"
  have t: "tail s < length (queue s)" "entry_at (P_queue (tail s)) s = Some ?e"
    using r by (auto simp: ring_ok_def entry_at_def)
  have e: "async_ready ?e" "list_all async_ready (ring_list (queue s) (next_entry (tail s)) (head s))"
    using r pending_get [OF r] True by (auto simp: ring_ok_def)
  have m: "msg_ready (qmsg ?e)" using e by (simp add: async_ready_def)
  obtain s1 where s1: "tx_message (P_queue (tail s)) s = Some s1" "queue s1 = queue s" "sync_msg s1 = sync_msg s"
    "head s1 = head s" "packet s1 = P_queue (tail s)" "state s1 = ModBus_TX" "is_blocking s1 = is_blocking s"
    "spin_lock s1 = spin_lock s"
    by (rule tx_message_ok [OF t(2) m])
  have nl: "next_entry (tail s) < MODBUS_QUEUE_LENGTH" using r by (intro next_entry_less) (simp add: ring_ok_def)
  have "rtu_ok (s1\<lparr>tail := next_entry (tail s)\<rparr>)"
    using assms(1) s1 e t(1) r nl by (simp add: rtu_ok_def ring_ok_def pending_def)
  with True s1 assms(2) show ?thesis by (auto simp: poll_idle_def)
next
  case False
  then show ?thesis using assms by (auto simp: poll_idle_def)
qed

definition link_ok :: "rtu \<Rightarrow> send_point option \<Rightarrow> bool" where
  "link_ok s f \<longleftrightarrow> rtu_ok s \<and> \<not> spin_lock s \<and> point_ok f s"

lemma rtu_ok_spin [simp]: "rtu_ok (s\<lparr>spin_lock := b\<rparr>) = rtu_ok s"
  using rtu_ok_cong [of s "s\<lparr>spin_lock := b\<rparr>"] rtu_ok_cong [of "s\<lparr>spin_lock := b\<rparr>" s] by auto

lemma point_ok_cong:
  assumes "point_ok f s" "is_blocking s' = is_blocking s" "callbacks (sync_msg s') = callbacks (sync_msg s)"
    "packet s' = packet s \<or> packet s' = P_null \<or> \<not> is_blocking s" "state s' \<noteq> ModBus_Retry \<or> state s' = state s \<and> packet s' = packet s"
  shows "point_ok f s'"
  using assms by (cases "(f, s)" rule: point_ok.cases) auto

lemma poll_state_ok:
  assumes "rtu_ok s"
  shows "\<exists>s'. poll_state now n s = Some s' \<and> rtu_ok s' \<and> is_blocking s' = is_blocking s \<and>
    callbacks (sync_msg s') = callbacks (sync_msg s) \<and> (packet s' = packet s \<or> packet s' = P_null \<or> \<not> is_blocking s) \<and>
    (state s' \<noteq> ModBus_Retry \<or> state s' = state s \<and> packet s' = packet s)"
proof (cases "state s")
  case ModBus_Idle
  then show ?thesis using poll_idle_ok [OF assms] by (auto simp: poll_state_def)
next
  case ModBus_Silent
  then show ?thesis using assms by (cases "packet s") (auto simp: poll_state_def rtu_ok_def ring_ok_def pending_def)
next
  case ModBus_TX
  then show ?thesis using assms by (cases "packet s") (auto simp: poll_state_def rtu_sel rtu_ok_def ring_ok_def pending_def)
next
  case ModBus_AwaitReply
  then show ?thesis using poll_await_ok [OF assms, of now] by (auto simp: poll_state_def)
next
  case ModBus_TimeoutException
  then show ?thesis
    using assms by (cases "packet s")
      (auto simp: poll_state_def rtu_sel rtu_ok_def ring_ok_def pending_def entry_at_def sync_ready_def Let_def)
qed (use assms in \<open>simp_all add: poll_state_def\<close>)

lemma modbus_poll_ok:
  assumes "link_ok s f"
  shows "\<exists>s'. modbus_poll now n s = Some s' \<and> link_ok s' f"
proof -
  have s: "rtu_ok (s\<lparr>spin_lock := True\<rparr>)" "\<not> spin_lock s" "point_ok f s" using assms by (simp_all add: link_ok_def)
  obtain s1 where s1: "poll_state now n (s\<lparr>spin_lock := True\<rparr>) = Some s1" "rtu_ok s1" "is_blocking s1 = is_blocking s"
    "callbacks (sync_msg s1) = callbacks (sync_msg s)" "packet s1 = packet s \<or> packet s1 = P_null \<or> \<not> is_blocking s"
    "state s1 \<noteq> ModBus_Retry \<or> state s1 = state s \<and> packet s1 = packet s"
    using poll_state_ok [OF s(1)] by auto
  have "point_ok f (s1\<lparr>spin_lock := False\<rparr>)" by (rule point_ok_cong [OF s(3)]) (use s1 in simp_all)
  then show ?thesis using s s1 by (simp add: modbus_poll_def link_ok_def)
qed

lemma put_crc_ready [simp]: "msg_ready m \<Longrightarrow> msg_ready (put_crc m)"
  by (simp add: msg_ready_def put_crc_def Let_def)

lemma send_first_ok:
  assumes "rtu_ok s" "\<not> spin_lock s" "is_blocking s" "packet s \<noteq> P_sync" "msg_ready m" "pred_option user_callbacks cbs"
  shows "\<exists>p s'. send_first r m cbs s = Some (Waiting p, s') \<and> link_ok s' (Some p)"
proof (cases "state s = ModBus_Idle")
  case True
  define s0 where "s0 = add_message r P_sync m False cbs s"
  have s0: "entry_at P_sync s0 = Some (sync_msg s0)" "qmsg (sync_msg s0) = m" "sync_ready (sync_msg s0)"
    "callbacks (sync_msg s0) = entry_callbacks r False cbs" "queue s0 = queue s" "tail s0 = tail s" "head s0 = head s"
    "is_blocking s0" "\<not> spin_lock s0"
    using assms by (simp_all add: s0_def add_message_def put_entry_def upd_stats_def entry_at_def)
  obtain s' where s': "tx_message P_sync s0 = Some s'" "queue s' = queue s0" "sync_msg s' = sync_msg s0" "tail s' = tail s0"
    "head s' = head s0" "packet s' = P_sync" "state s' = ModBus_TX" "is_blocking s' = is_blocking s0" "spin_lock s' = spin_lock s0"
    using tx_message_ok [OF s0(1)] assms(5) s0(2) by metis
  have "rtu_ok s'" using assms(1,5) s' s0 by (simp add: rtu_ok_def ring_ok_def pending_def msg_ready_def)
  then have "link_ok s' (Some (Await_end m cbs))"
    using s' s0 assms(5,6) entry_callbacks_None [of r False cbs] by (auto simp: link_ok_def)
  with True s'(1) show ?thesis by (simp add: send_first_def s0_def)
next
  case False
  with assms show ?thesis by (simp add: send_first_def link_ok_def)
qed

lemma send_async_ok:
  assumes "link_ok s f" "msg_ready m" "pred_option user_callbacks cbs"
  shows "\<exists>s'. send_async r m cbs s = Some s' \<and> link_ok s' f"
proof -
  have ro: "rtu_ok s" "ring_ok s" "packet_ok (packet s) s" using assms(1) by (simp_all add: link_ok_def rtu_ok_def)
  let ?e = "\<lparr>async = True, qmsg = m, callbacks = entry_callbacks r True cbs\<rparr>"
  define s1 where "s1 = (add_message r (P_queue (head s)) m True cbs s)\<lparr>head := next_entry (head s)\<rparr>"
  have s1: "queue s1 = (queue s)[head s := ?e]" "tail s1 = tail s" "head s1 = next_entry (head s)" "packet s1 = packet s"
    "state s1 = state s" "is_blocking s1 = is_blocking s" "sync_msg s1 = sync_msg s" "spin_lock s1 = spin_lock s"
    by (simp_all add: s1_def add_message_def put_entry_def upd_stats_def)
  have e: "async_ready ?e" using assms(2,3) by (simp add: async_ready_def)
  have "link_ok s1 f" if n: "next_entry (head s) \<noteq> tail s"
  proof -
    have "ring_ok s1"
      using ro(2) e s1 pending_put [OF ro(2) n, of ?e] next_entry_less [of "head s"] by (simp add: ring_ok_def pending_def [of s1])
    moreover have "packet_ok (packet s1) s1"
    proof (cases "packet s")
      case (P_queue i)
      then have "i \<noteq> head s" using ro(3) n by auto
      with P_queue ro(3) s1 show ?thesis by simp
    qed (use ro(3) s1 in simp_all)
    moreover have "point_ok f s1" by (rule point_ok_cong [of f s]) (use assms(1) s1 in \<open>auto simp: link_ok_def\<close>)
    ultimately show ?thesis using assms(1) s1 by (simp add: link_ok_def rtu_ok_def)
  qed
  moreover have "packet s = P_null \<or> (\<exists>e. entry_at (packet s) s = Some e)"
    using ro(3) by (cases "packet s") (auto simp: entry_at_def)
  moreover have "send_async r m cbs s = (if packet s = P_null \<or> adu (qmsg (sync_msg s)) ! 1 = 0
      then if next_entry (head s) \<noteq> tail s then Some s1 else Some s
      else case entry_at (packet s) s of None \<Rightarrow> None
      | Some e \<Rightarrow> if adu (qmsg e) ! 0 \<noteq> adu (qmsg (sync_msg s)) ! 0
                then if next_entry (head s) \<noteq> tail s then Some s1 else Some s else Some s)"
    unfolding send_async_def Let_def s1_def ..
  ultimately show ?thesis using assms(1) by (auto split: option.split)
qed

text \<open>What a call returns belongs to the caller: the send in progress stays as it is when another
  send returns at once.\<close>

definition point_of :: "send_point option \<Rightarrow> send_result \<Rightarrow> send_point option" where
  "point_of f r = (case r of Returned _ \<Rightarrow> f | Waiting p \<Rightarrow> Some p)"

lemma modbus_send_rtu_fits:
  assumes "link_ok s f" "msg_ready m" "pred_option user_callbacks cbs"
  shows "\<exists>r s'. modbus_send_rtu rp be now m cbs block s = Some (r, s') \<and> link_ok s' (point_of f r)"
proof -
  have m: "\<not> (MODBUS_MAX_ADU_SIZE < unat (tx_length m) \<or> MODBUS_MAX_ADU_SIZE < unat (rx_length m))"
    "\<not> unat (tx_length m) < 2" using assms(2) by (auto simp: msg_ready_def)
  have r: "msg_ready (put_crc m)" using assms(2) by simp
  have "\<exists>p s'. send_first rp (put_crc m) cbs (s\<lparr>is_blocking := True\<rparr>) = Some (Waiting p, s') \<and> link_ok s' (Some p)"
    if "\<not> is_blocking s"
  proof (rule send_first_ok)
    show "rtu_ok (s\<lparr>is_blocking := True\<rparr>)" "packet (s\<lparr>is_blocking := True\<rparr>) \<noteq> P_sync"
      using assms(1) that by (cases "packet s"; simp add: link_ok_def rtu_ok_def ring_ok_def pending_def)+
  qed (use assms r in \<open>simp_all add: link_ok_def\<close>)
  then show ?thesis
    using assms(1) send_async_ok [OF assms(1) r assms(3), of rp]
    unfolding modbus_send_rtu_def if_not_P [OF m(1)] if_not_P [OF m(2)] by (auto simp: point_of_def)
qed

lemma link_ok_handler:
  assumes "link_ok s f" "h \<noteq> Retry_exception"
  shows "link_ok (call_handler h c x now s) f"
proof -
  have "rtu_ok (call_handler h c x now s)" by (rule rtu_ok_cong [of s]) (use assms in \<open>simp_all add: link_ok_def\<close>)
  moreover have "point_ok f (call_handler h c x now s)"
    by (rule point_ok_cong [of f s]) (use assms in \<open>simp_all add: link_ok_def\<close>)
  ultimately show ?thesis using assms by (simp add: link_ok_def)
qed

text \<open>A message that is too long is refused, whatever its other fields.\<close>

lemma modbus_send_rtu_oversize:
  assumes "link_ok s f" "user_callbacks c" "MODBUS_MAX_ADU_SIZE < unat (tx_length m) \<or> MODBUS_MAX_ADU_SIZE < unat (rx_length m)"
  shows "\<exists>s'. modbus_send_rtu rp be now m (Some c) block s = Some (Returned False, s') \<and> link_ok s' f"
  unfolding modbus_send_rtu_def if_P [OF assms(3)]
  using link_ok_handler [OF assms(1), of "on_rx_exception c"] assms(2) by (simp add: user_callbacks_def)

lemma retry_handler:
  assumes "entry_at (packet s) s = Some e" "retries (callbacks e) \<noteq> 0"
  shows "call_handler Retry_exception c x now s = upd_stats (\<lambda>t. t\<lparr>n_retries := n_retries t + 1\<rparr>)
    (s\<lparr>state := ModBus_Retry, silence_until := now + silence_timeout s + ucast (retry_delay (callbacks e))\<rparr>)"
  using assms by (simp add: call_handler_def retry_exception_def)

text \<open>After a failed attempt either the retry is scheduled or the send is over.\<close>

lemma end_failed:
  assumes "rtu_ok s" "packet s = P_sync" "e = sync_msg s" "h = on_rx_exception (callbacks e) \<or> h = on_rx_timeout (callbacks e)"
    "s' = call_handler h c x now s"
  shows "if retries (callbacks e) = 0
    then queue s' = queue s \<and> tail s' = tail s \<and> head s' = head s \<and> sync_msg s' = sync_msg s \<and> packet s' = packet s \<and>
      state s' = state s \<and> spin_lock s' = spin_lock s
    else rtu_ok s' \<and> state s' = ModBus_Retry \<and> packet s' = P_sync \<and> sync_msg s' = sync_msg s \<and> is_blocking s' = is_blocking s \<and>
      spin_lock s' = spin_lock s"
proof (cases "retries (callbacks e) = 0")
  case True
  then show ?thesis using assms(2,3,5)
    by (cases h) (simp_all add: call_handler_def retry_exception_def entry_at_def emit_def)
next
  case False
  have "entry_at (packet s) s = Some e" using assms(2,3) by (simp add: entry_at_def)
  moreover have "h = Retry_exception" using False assms(1-4) by (auto simp: rtu_ok_def sync_ready_def)
  ultimately show ?thesis
    using False assms(1-3,5) by (auto simp: retry_handler upd_stats_def rtu_ok_def ring_ok_def pending_def)
qed

lemma next_callbacks_Some:
  assumes "cbs \<noteq> None"
  obtains c' where "next_callbacks cbs c = Some c'"
  using assms by (cases cbs; cases "retries c = 1") (auto simp: next_callbacks_def Let_def)

lemma end_retry_ok:
  assumes "rtu_ok s" "\<not> spin_lock s" "point_ok (Some (Await_end m cbs)) s" "state s = ModBus_Retry"
  shows "\<exists>s'. end_retry r now m cbs (sync_msg s) s = Some s' \<and> link_ok s' (Some (Await_end m cbs))"
proof (cases "sint (silence_until s - now) \<le> 0")
  case True
  have m: "msg_ready m" "is_blocking s" "cbs \<noteq> None" "pred_option user_callbacks cbs" using assms(3,4) by simp_all
  obtain c where c: "next_callbacks cbs (callbacks (sync_msg s)) = Some c" by (rule next_callbacks_Some [OF m(3)])
  let ?e = "\<lparr>async = False, qmsg = m, callbacks = entry_callbacks r False (Some c)\<rparr>"
  define s0 where "s0 = (add_message r P_sync m False (Some c) (s\<lparr>silence_until := 0\<rparr>))\<lparr>packet := P_sync\<rparr>"
  have s0: "sync_msg s0 = ?e" "entry_at P_sync s0 = Some ?e" "queue s0 = queue s" "tail s0 = tail s" "head s0 = head s"
    "is_blocking s0 = is_blocking s" "\<not> spin_lock s0"
    using assms(2) by (simp_all add: s0_def add_message_def put_entry_def upd_stats_def entry_at_def)
  have "msg_ready (qmsg ?e)" using m by simp
  from tx_message_ok [OF s0(2) this] obtain s' where s': "tx_message P_sync s0 = Some s'" "queue s' = queue s0"
    "sync_msg s' = sync_msg s0" "tail s' = tail s0" "head s' = head s0" "packet s' = P_sync" "state s' = ModBus_TX"
    "is_blocking s' = is_blocking s0" "spin_lock s' = spin_lock s0"
    by metis
  have "rtu_ok s'" using assms(1) m s' s0 by (simp add: rtu_ok_def ring_ok_def pending_def msg_ready_def)
  then have "link_ok s' (Some (Await_end m cbs))" using s' s0 m by (simp add: link_ok_def)
  moreover have "end_retry r now m cbs (sync_msg s) s = tx_message P_sync s0"
    using True c by (simp add: end_retry_def s0_def)
  ultimately show ?thesis using s'(1) by simp
next
  case False
  with assms show ?thesis by (simp add: end_retry_def link_ok_def)
qed

lemma send_finish_ok:
  assumes "ring_ok s" "length (adu (qmsg (sync_msg s))) = MODBUS_MAX_ADU_SIZE" "\<not> spin_lock s"
  shows "link_ok (send_finish s) None"
  using assms by (simp add: link_ok_def send_finish_def rtu_ok_def ring_ok_def pending_def)

lemma rtu_ok_ring: "rtu_ok s \<Longrightarrow> ring_ok s \<and> length (adu (qmsg (sync_msg s))) = MODBUS_MAX_ADU_SIZE"
  by (simp add: rtu_ok_def)

lemma ring_ok_cong: "ring_ok s \<Longrightarrow> queue s' = queue s \<Longrightarrow> tail s' = tail s \<Longrightarrow> head s' = head s \<Longrightarrow> ring_ok s'"
  by (simp add: ring_ok_def pending_def)

lemma failed_link:
  assumes "link_ok s (Some (Await_end m cbs))" "packet s = P_sync"
    "h = on_rx_exception (callbacks (sync_msg s)) \<or> h = on_rx_timeout (callbacks (sync_msg s))"
    "s' = call_handler h c x now s" "is_blocking t = (retries (callbacks (sync_msg s)) \<noteq> 0)"
    "queue t = queue s'" "sync_msg t = sync_msg s'" "tail t = tail s'" "head t = head s'" "packet t = packet s'"
    "state t = state s'" "spin_lock t = spin_lock s'"
  shows "if is_blocking t then link_ok t (Some (Await_end m cbs)) else link_ok (send_finish t) None"
proof -
  have ok: "rtu_ok s" "\<not> spin_lock s" "point_ok (Some (Await_end m cbs)) s" using assms(1) by (simp_all add: link_ok_def)
  note f = end_failed [OF ok(1) assms(2) refl assms(3,4)]
  show ?thesis
  proof (cases "retries (callbacks (sync_msg s)) = 0")
    case True
    then have "ring_ok t" using f assms(6,8,9) rtu_ok_ring [OF ok(1)] by (intro ring_ok_cong [of s t]) auto
    then show ?thesis using True f assms(5,7,12) ok(2) rtu_ok_ring [OF ok(1)] by (simp add: send_finish_ok)
  next
    case False
    then have "rtu_ok t" by (intro rtu_ok_cong [of s' t]) (use f assms(5-) ok(3) in auto)
    then show ?thesis using False f assms(5-) ok by (auto simp: link_ok_def)
  qed
qed

lemma end_step_ok:
  assumes "link_ok s (Some (Await_end m cbs))"
  shows "\<exists>s'. end_step r now m cbs s = Some s' \<and>
    (if is_blocking s' then link_ok s' (Some (Await_end m cbs)) else link_ok (send_finish s') None)"
proof -
  let ?active = "{ModBus_TimeoutException, ModBus_Exception, ModBus_GotReply, ModBus_Retry}"
  have ok: "rtu_ok s" "\<not> spin_lock s" "point_ok (Some (Await_end m cbs)) s" "is_blocking s" using assms by (simp_all add: link_ok_def)
  show ?thesis
  proof (cases "state s \<in> ?active")
    case False
    then show ?thesis using assms ok(4) by (auto simp: end_step_def)
  next
    case True
    then have p: "packet s = P_sync" using ok(1) by (cases "packet s") (auto simp: rtu_ok_def)
    then have e: "entry_at (packet s) s = Some (sync_msg s)" by (simp add: entry_at_def)
    consider (timeout) "state s = ModBus_TimeoutException" | (exc) "state s = ModBus_Exception"
      | (reply) "state s = ModBus_GotReply" | (retry) "state s = ModBus_Retry" using True by auto
    then show ?thesis
    proof cases
      case timeout
      have "end_step r now m cbs s = Some (end_timeout now (sync_msg s) s)" using timeout e by (simp add: end_step_def)
      moreover have "if is_blocking (end_timeout now (sync_msg s) s) then link_ok (end_timeout now (sync_msg s) s) (Some (Await_end m cbs))
        else link_ok (send_finish (end_timeout now (sync_msg s) s)) None"
        by (rule failed_link [OF assms p disjI2 [OF refl] refl]) (simp_all add: end_timeout_def Let_def upd_stats_def)
      ultimately show ?thesis by simp
    next
      case exc
      have "end_step r now m cbs s = Some (end_exception now (sync_msg s) s)" using exc e by (simp add: end_step_def)
      moreover have "if is_blocking (end_exception now (sync_msg s) s) then link_ok (end_exception now (sync_msg s) s) (Some (Await_end m cbs))
        else link_ok (send_finish (end_exception now (sync_msg s) s)) None"
        by (rule failed_link [OF assms p disjI1 [OF refl] refl]) (simp_all add: end_exception_def)
      ultimately show ?thesis by simp
    next
      case reply
      then show ?thesis
        using e ok(2) rtu_ok_ring [OF ok(1)] ring_ok_cong [of s "end_reply (sync_msg s) s"]
        by (simp add: end_step_def send_finish_ok end_reply_def emit_def split: option.split)
    next
      case retry
      then show ?thesis
        using e end_retry_ok [OF ok(1-3) retry, of r now] by (auto simp: end_step_def link_ok_def)
    qed
  qed
qed

lemma send_continue_ok:
  assumes "link_ok s (Some p)"
  shows "\<exists>r s'. send_continue rp now p s = Some (r, s') \<and> link_ok s' (point_of None r)"
proof (cases p)
  case (Await_idle m cbs)
  with assms have "\<exists>q s'. send_first rp m cbs s = Some (Waiting q, s') \<and> link_ok s' (Some q)"
    by (intro send_first_ok) (simp_all add: link_ok_def)
  with Await_idle show ?thesis by (auto simp: send_continue_def point_of_def)
next
  case (Await_end m cbs)
  with assms obtain s' where s': "end_step rp now m cbs s = Some s'"
    "if is_blocking s' then link_ok s' (Some p) else link_ok (send_finish s') None"
    using end_step_ok [of s m cbs rp now] by auto
  then show ?thesis by (cases "is_blocking s'") (simp_all add: send_continue_def Await_end point_of_def)
qed

lemma modbus_reset_ok:
  assumes "link_ok s f"
  shows "link_ok (modbus_reset abort now s) f"
proof -
  have ok: "rtu_ok s" "ring_ok s" "packet_ok (packet s) s" "\<not> spin_lock s" "point_ok f s" using assms by (simp_all add: link_ok_def rtu_ok_def)
  show ?thesis
  proof (cases abort)
    case True
    have r: "ring_list q (head s) (head s) = []" if "length q = length (queue s)" for q :: "queue_entry list"
      using ok(2) that by (intro ring_list_same) (simp add: ring_ok_def MODBUS_QUEUE_LENGTH_def)
    have "modbus_reset abort now s = flush_rx_buffer (emit Flush_tx
      ((case entry_at (packet s) s of None \<Rightarrow> s | Some e \<Rightarrow> put_entry (packet s) (e\<lparr>callbacks := no_callbacks\<rparr>) s)
        \<lparr>packet := P_null, tail := head s, silence_until := now + 500, state := ModBus_Silent\<rparr>))"
      using True by (cases "packet s") (auto simp: modbus_reset_def rtu_sel put_entry_def entry_at_def)
    then show ?thesis
      using ok r by (cases "packet s"; cases "(f, s)" rule: point_ok.cases)
        (auto simp: rtu_sel put_entry_def entry_at_def link_ok_def rtu_ok_def ring_ok_def pending_def no_callbacks_def)
  next
    case False
    have e: "modbus_reset abort now s = (if state s = ModBus_Retry then s\<lparr>silence_until := now + 500, state := ModBus_Silent\<rparr> else s)"
      using False by (simp add: modbus_reset_def)
    have "rtu_ok (s\<lparr>silence_until := now + 500, state := ModBus_Silent\<rparr>)"
      if "state s = ModBus_Retry"
      using that ok by (cases "packet s") (auto simp: rtu_ok_def ring_ok_def pending_def)
    moreover have "point_ok f (s\<lparr>silence_until := now + 500, state := ModBus_Silent\<rparr>)"
      by (rule point_ok_cong [OF ok(5)]) simp_all
    ultimately show ?thesis using assms ok unfolding e by (auto simp: link_ok_def)
  qed
qed

text \<open>A message a user may send: any sizes, with handlers if the sizes are too large.\<close>

definition msg_built :: "modbus_message \<Rightarrow> modbus_callbacks option \<Rightarrow> bool" where
  "msg_built m cbs \<longleftrightarrow> pred_option user_callbacks cbs \<and>
     (msg_ready m \<or> cbs \<noteq> None \<and> (MODBUS_MAX_ADU_SIZE < unat (tx_length m) \<or> MODBUS_MAX_ADU_SIZE < unat (rx_length m)))"

lemma modbus_send_rtu_ok:
  assumes "link_ok s f" "msg_built m cbs"
  shows "\<exists>r s'. modbus_send_rtu rp be now m cbs block s = Some (r, s') \<and> link_ok s' (point_of f r)"
proof (cases "msg_ready m")
  case True
  then show ?thesis using modbus_send_rtu_fits assms by (simp add: msg_built_def)
next
  case False
  then obtain c where c: "cbs = Some c" "user_callbacks c"
    "MODBUS_MAX_ADU_SIZE < unat (tx_length m) \<or> MODBUS_MAX_ADU_SIZE < unat (rx_length m)"
    using assms(2) by (auto simp: msg_built_def)
  from modbus_send_rtu_oversize [OF assms(1) c(2,3)] show ?thesis by (fastforce simp: c(1) point_of_def)
qed

text \<open>The link in operation: the interrupt, received bytes, sends by the users, the passes of the
  blocking send, resets, and flushing the queue while no queued message is on the line.\<close>

inductive link_step :: "rtu \<times> send_point option \<Rightarrow> rtu \<times> send_point option \<Rightarrow> bool" where
  poll: "modbus_poll now n s = Some s' \<Longrightarrow> link_step (s, f) (s', f)"
| receive: "link_step (s, f) (s\<lparr>rx := rx s @ bs\<rparr>, f)"
| send: "msg_built m cbs \<Longrightarrow> modbus_send_rtu rp be now m cbs block s = Some (r, s') \<Longrightarrow> link_step (s, f) (s', point_of f r)"
| continue: "send_continue rp now p s = Some (r, s') \<Longrightarrow> link_step (s, Some p) (s', point_of None r)"
| reset: "link_step (s, f) (modbus_reset abort now s, f)"
| flush: "(\<And>i. packet s \<noteq> P_queue i) \<Longrightarrow> link_step (s, f) (modbus_rtu_flush_queue s, f)"

inductive link_reachable :: "rtu \<times> send_point option \<Rightarrow> bool" where
  link_init: "link_reachable (modbus_rtu_init d, None)"
| link_next: "link_reachable c \<Longrightarrow> link_step c c' \<Longrightarrow> link_reachable c'"

lemma link_step_ok: "link_step c c' \<Longrightarrow> link_ok (fst c) (snd c) \<Longrightarrow> link_ok (fst c') (snd c')"
proof (induction rule: link_step.induct)
  case (poll now n s s' f)
  then show ?case using modbus_poll_ok [of s f now n] by simp
next
  case (receive s f bs)
  have "rtu_ok (s\<lparr>rx := rx s @ bs\<rparr>)" by (rule rtu_ok_cong [of s]) (use receive in \<open>simp_all add: link_ok_def\<close>)
  moreover have "point_ok f (s\<lparr>rx := rx s @ bs\<rparr>)"
    by (rule point_ok_cong [of f s]) (use receive in \<open>simp_all add: link_ok_def\<close>)
  ultimately show ?case using receive by (simp add: link_ok_def)
next
  case (send m cbs rp be now block s r s' f)
  then show ?case using modbus_send_rtu_ok [of s f m cbs rp be now block] by simp
next
  case (continue rp now p s r s')
  then show ?case using send_continue_ok [of s p rp now] by simp
next
  case (reset s f abort now)
  then show ?case by (simp add: modbus_reset_ok)
next
  case (flush s f)
  have "point_ok f (modbus_rtu_flush_queue s)"
    by (rule point_ok_cong [of f s]) (use flush in \<open>simp_all add: link_ok_def modbus_rtu_flush_queue_def\<close>)
  moreover have "rtu_ok (modbus_rtu_flush_queue s)"
    using flush by (cases "packet s")
      (auto simp: link_ok_def rtu_ok_def ring_ok_def pending_def modbus_rtu_flush_queue_def MODBUS_QUEUE_LENGTH_def)
  ultimately show ?case using flush by (simp add: link_ok_def modbus_rtu_flush_queue_def)
qed

lemma link_init_ok: "link_ok (modbus_rtu_init d) None"
  by (simp add: link_ok_def rtu_ok_def ring_ok_def pending_def modbus_rtu_init_def modbus_settings_restore_def
    modbus_rtu_set_silence_def Let_def zero_entry_def zero_msg_def MODBUS_QUEUE_LENGTH_def)

lemma link_reachable_ok: "link_reachable c \<Longrightarrow> link_ok (fst c) (snd c)"
proof (induction rule: link_reachable.induct)
  case (link_init d)
  show ?case by (simp add: link_init_ok)
next
  case (link_next c c')
  then show ?case by (blast intro: link_step_ok)
qed

text \<open>
  C11. However the interrupt, the users, received bytes, resets and the blocking send are
  interleaved, no operation of the Modbus link reads through a null packet pointer or
  outside a message buffer: each of them completes. The indices of the queue stay in
  range and it holds at most seven messages.
\<close>

theorem modbus_no_fault:
  assumes "link_reachable (s, f)"
  shows "modbus_poll now n s \<noteq> None \<and>
    (msg_built m cbs \<longrightarrow> modbus_send_rtu rp be now m cbs block s \<noteq> None) \<and>
    (f = Some p \<longrightarrow> send_continue rp now p s \<noteq> None) \<and>
    head s < length (queue s) \<and> tail s < length (queue s) \<and> length (pending s) \<le> 7"
proof -
  have ok: "link_ok s f" using link_reachable_ok [OF assms] by simp
  then have r: "ring_ok s" by (simp add: link_ok_def rtu_ok_def)
  then have "length (pending s) \<le> 7"
    using ring_count_less [of "tail s" MODBUS_QUEUE_LENGTH "head s"] by (simp add: ring_ok_def pending_def MODBUS_QUEUE_LENGTH_def)
  with r show ?thesis
    using modbus_poll_ok [OF ok, of now n] modbus_send_rtu_ok [OF ok, of m cbs rp be now block] send_continue_ok [of s p rp now] ok
    by (auto simp: ring_ok_def)
qed

text \<open>An example: a request for one register of device 1, and a user with three retries.\<close>

definition read_msg :: modbus_message where
  "read_msg = \<lparr>msg_context = 7, crc_check = True, tx_length = 8, rx_length = 7, adu = [1, 3, 0, 5, 0, 1, 0, 0, 0, 0, 0, 0]\<rparr>"

definition some_callbacks :: modbus_callbacks where
  "some_callbacks = \<lparr>retries = 3, retry_delay = 10, on_rx_packet = Some 1, on_rx_exception = User_handler 2, on_rx_timeout = No_handler\<rparr>"

lemma read_msg_ready: "msg_ready read_msg" "pred_option user_callbacks (Some some_callbacks)" "msg_built read_msg (Some some_callbacks)"
  by (simp_all add: msg_ready_def read_msg_def some_callbacks_def user_callbacks_def msg_built_def MODBUS_MAX_ADU_SIZE_def)

lemma blocking_send_starts:
  assumes "\<not> is_blocking s" "state s = ModBus_Idle" "msg_ready m"
  obtains s' where "modbus_send_rtu rp False now m cbs True s = Some (Waiting (Await_end (put_crc m) cbs), s')"
    "state s' = ModBus_TX" "packet s' = P_sync" "qmsg (sync_msg s') = put_crc m" "silence_timeout s' = silence_timeout s"
    "callbacks (sync_msg s') = entry_callbacks rp False cbs" "cfg_rx_timeout s' = cfg_rx_timeout s" "rx_timeout s' = cfg_rx_timeout s"
    "io s' = io s @ (if has_direction s then [Direction True] else []) @ [Flush_rx, Write (frame_of (put_crc m))]"
proof -
  have m: "\<not> (MODBUS_MAX_ADU_SIZE < unat (tx_length m) \<or> MODBUS_MAX_ADU_SIZE < unat (rx_length m))"
    "\<not> unat (tx_length m) < 2" "True \<and> \<not> False" using assms(3) by (auto simp: msg_ready_def)
  define s0 where "s0 = add_message rp P_sync (put_crc m) False cbs (s\<lparr>is_blocking := True\<rparr>)"
  have s0: "entry_at P_sync s0 = Some (sync_msg s0)" "qmsg (sync_msg s0) = put_crc m" "callbacks (sync_msg s0) = entry_callbacks rp False cbs"
    "cfg_rx_timeout s0 = cfg_rx_timeout s" "silence_timeout s0 = silence_timeout s" "has_direction s0 = has_direction s" "io s0 = io s"
    by (simp_all add: s0_def add_message_def put_entry_def upd_stats_def entry_at_def)
  have "modbus_send_rtu rp False now m cbs True s =
    map_option (\<lambda>s1. (Waiting (Await_end (put_crc m) cbs), s1)) (tx_message P_sync s0)"
    unfolding modbus_send_rtu_def if_not_P [OF m(1)] if_not_P [OF m(2)] if_P [OF m(3)]
    using assms(1,2) by (simp add: send_first_def s0_def)
  moreover have "msg_ready (qmsg (sync_msg s0))" using s0(2) put_crc_ready [OF assms(3)] by simp
  from tx_message_ok [OF s0(1) this] obtain s' where "tx_message P_sync s0 = Some s'" "sync_msg s' = sync_msg s0"
    "packet s' = P_sync" "state s' = ModBus_TX" "rx_timeout s' = cfg_rx_timeout s0" "cfg_rx_timeout s' = cfg_rx_timeout s0"
    "silence_timeout s' = silence_timeout s0"
    "io s' = io s0 @ (if has_direction s0 then [Direction True] else []) @ [Flush_rx, Write (frame_of (qmsg (sync_msg s0)))]"
    by metis
  ultimately show ?thesis using that [of s'] s0 by simp
qed

theorem modbus_no_fault_witness:
  "\<exists>s p. link_reachable (s, Some p) \<and> state s = ModBus_TX \<and> modbus_poll 0 0 s \<noteq> None \<and>
     modbus_send_rtu False False 0 read_msg (Some some_callbacks) False s \<noteq> None \<and> send_continue False 0 p s \<noteq> None"
proof -
  have "\<not> is_blocking (modbus_rtu_init True)" "state (modbus_rtu_init True) = ModBus_Idle"
    by (simp_all add: modbus_rtu_init_def modbus_settings_restore_def modbus_rtu_set_silence_def Let_def)
  from blocking_send_starts [OF this read_msg_ready(1), of False 0 "Some some_callbacks"]
  obtain s where s: "modbus_send_rtu False False 0 read_msg (Some some_callbacks) True (modbus_rtu_init True) =
    Some (Waiting (Await_end (put_crc read_msg) (Some some_callbacks)), s)" "state s = ModBus_TX" by metis
  have "link_reachable (s, point_of None (Waiting (Await_end (put_crc read_msg) (Some some_callbacks))))"
    by (rule link_next [OF link_init [of True] send [OF read_msg_ready(3) s(1)]])
  then have r: "link_reachable (s, Some (Await_end (put_crc read_msg) (Some some_callbacks)))" by (simp add: point_of_def)
  from modbus_no_fault [OF r, of 0 0 read_msg "Some some_callbacks" False False False "Await_end (put_crc read_msg) (Some some_callbacks)"]
    r s(2) read_msg_ready(3)
  show ?thesis by blast
qed

section \<open>The blocking send returns\<close>

text \<open>The frames put on the line.\<close>

fun writes :: "event list \<Rightarrow> u8 list list" where
  "writes [] = []"
| "writes (Write bs # es) = bs # writes es"
| "writes (_ # es) = writes es"

lemma writes_append [simp]: "writes (xs @ ys) = writes xs @ writes ys"
  by (induction xs rule: writes.induct) auto

text \<open>What neither a handler nor the interrupt outside the idle state changes.\<close>

definition same_line :: "rtu \<Rightarrow> rtu \<Rightarrow> bool" where
  "same_line s s' \<longleftrightarrow> silence_timeout s' = silence_timeout s \<and> cfg_rx_timeout s' = cfg_rx_timeout s \<and> writes (io s') = writes (io s)"



lemma stream_read_line: "same_line s (snd (stream_read s))"
  by (simp add: same_line_def)

lemma put_entry_line [simp]:
  "silence_timeout (put_entry p e s) = silence_timeout s" "cfg_rx_timeout (put_entry p e s) = cfg_rx_timeout s"
  "io (put_entry p e s) = io s" "rx_timeout (put_entry p e s) = rx_timeout s"
  by (simp_all add: put_entry_def split: packet_ptr.split)



































section \<open>What is done with a reply\<close>

definition handler_events :: "exc_handler \<Rightarrow> u8 \<Rightarrow> u32 \<Rightarrow> event list" where
  "handler_events h code ctx = (case h of User_handler n \<Rightarrow> [Rx_exception n code ctx] | _ \<Rightarrow> [])"

lemma call_user_io: "h \<noteq> Retry_exception \<Longrightarrow> io (call_handler h code ctx now s) = io s @ handler_events h code ctx"
  by (cases h) (simp_all add: call_handler_def emit_def handler_events_def)

definition packet_events :: "modbus_callbacks \<Rightarrow> modbus_message \<Rightarrow> event list" where
  "packet_events c m = (case on_rx_packet c of None \<Rightarrow> [] | Some h \<Rightarrow> [Rx_packet h m])"

definition with_reply :: "u8 list \<Rightarrow> modbus_message \<Rightarrow> modbus_message" where
  "with_reply bs m = m\<lparr>adu := bs @ drop (length bs) (adu m)\<rparr>"

lemma await_reply_async:
  assumes "async e" "user_callbacks (callbacks e)" "msg_ready (qmsg e)" "n = unat (rx_length (qmsg e))" "n \<le> length (rx s)"
    "await_reply now e s = Some s'"
  shows "state s' = ModBus_Silent \<and> packet s' = P_null \<and> rx s' = drop n (rx s) \<and>
    io s' = io s @ (if crc_check (qmsg e) \<longrightarrow> crc_ok (take n (rx s))
      then packet_events (callbacks e) (with_reply (take n (rx s)) (qmsg e))
      else handler_events (on_rx_exception (callbacks e)) ModBus_CRCError (msg_context (qmsg e)))"
proof -
  have n: "\<not> (unat (rx_length (qmsg e)) = 0 \<or> length (adu (qmsg e)) < unat (rx_length (qmsg e)))"
    "\<not> (crc_check (qmsg e) \<and> unat (rx_length (qmsg e)) < 2)" using assms(3) by (auto simp: msg_ready_def)
  have h: "on_rx_exception (callbacks e) \<noteq> Retry_exception" using assms(2) by (simp add: user_callbacks_def)
  have p: "rx (put_entry q x t) = rx t" "state (put_entry q x t) = state t" for q x t
    by (simp_all add: put_entry_def split: packet_ptr.split)
  have l: "length (take n (rx s)) = n" using assms(5) by simp
  have w: "with_reply (take n (rx s)) (qmsg e) = (qmsg e)\<lparr>adu := take n (rx s) @ drop n (adu (qmsg e))\<rparr>"
    by (simp only: with_reply_def l)
  show ?thesis using assms(1,6) n h unfolding w
    by (auto simp: await_reply_def Let_def rtu_sel packet_events_def call_user_io p assms(4) split: if_splits option.splits)
qed

lemma await_reply_blocking:
  assumes "\<not> async e" "msg_ready (qmsg e)" "n = unat (rx_length (qmsg e))" "n \<le> length (rx s)" "packet s = P_sync"
    "await_reply now e s = Some s'"
  shows "io s' = io s \<and> rx s' = drop n (rx s) \<and> exception_code s' = exception_code s \<and>
    (if crc_check (qmsg e) \<longrightarrow> crc_ok (take n (rx s))
     then state s' = ModBus_GotReply \<and> qmsg (sync_msg s') = (with_reply (take n (rx s)) (qmsg e))\<lparr>rx_length := 0\<rparr>
     else state s' = ModBus_Exception)"
proof -
  have n: "\<not> (unat (rx_length (qmsg e)) = 0 \<or> length (adu (qmsg e)) < unat (rx_length (qmsg e)))"
    "\<not> (crc_check (qmsg e) \<and> unat (rx_length (qmsg e)) < 2)" using assms(2) by (auto simp: msg_ready_def)
  have l: "length (take n (rx s)) = n" using assms(4) by simp
  have w: "with_reply (take n (rx s)) (qmsg e) = (qmsg e)\<lparr>adu := take n (rx s) @ drop n (adu (qmsg e))\<rparr>"
    by (simp only: with_reply_def l)
  show ?thesis using assms(1,5,6) n unfolding w
    by (auto simp: await_reply_def Let_def rtu_sel put_entry_def assms(3) split: if_splits)
qed

lemma reply_outcome:
  assumes "link_reachable (s, f)" "state s = ModBus_AwaitReply" "rx_timeout s \<noteq> 1" "entry_at (packet s) s = Some e"
    "n = unat (rx_length (qmsg e))" "valid = (crc_check (qmsg e) \<longrightarrow> crc_ok (take n (rx s)))" "modbus_poll now k s = Some s'"
  shows "(length (rx s) < n \<longrightarrow> state s' = ModBus_AwaitReply \<and> rx s' = rx s \<and> io s' = io s) \<and>
    (n \<le> length (rx s) \<and> async e \<longrightarrow> state s' = ModBus_Silent \<and>
       io s' = io s @ (if valid then packet_events (callbacks e) (with_reply (take n (rx s)) (qmsg e))
                       else handler_events (on_rx_exception (callbacks e)) ModBus_CRCError (msg_context (qmsg e)))) \<and>
    (n \<le> length (rx s) \<and> \<not> async e \<longrightarrow> io s' = io s \<and> exception_code s' = exception_code s \<and>
       (if valid then state s' = ModBus_GotReply \<and> qmsg (sync_msg s') = (with_reply (take n (rx s)) (qmsg e))\<lparr>rx_length := 0\<rparr>
        else state s' = ModBus_Exception))"
proof -
  have ok: "link_ok s f" using link_reachable_ok [OF assms(1)] by simp
  then have sp: "\<not> spin_lock s" and rok: "rtu_ok s" by (simp_all add: link_ok_def)
  have "packet_ok (packet s) s" "state s \<notin> {ModBus_Idle, ModBus_Silent}" using rok assms(2) by (simp_all add: rtu_ok_def)
  then have e: "async e \<and> user_callbacks (callbacks e) \<and> msg_ready (qmsg e) \<or> \<not> async e \<and> packet s = P_sync \<and> msg_ready (qmsg e)"
    using assms(2,4) rok by (cases rule: packet_cases) (auto simp: async_ready_def sync_ready_def rtu_ok_def)
  let ?s = "s\<lparr>spin_lock := True\<rparr>"
  let ?s1 = "rx_count_down ?s"
  have s1: "rx ?s1 = rx s" "packet ?s1 = packet s" "io ?s1 = io s" "exception_code ?s1 = exception_code s" "state ?s1 = ModBus_AwaitReply"
    using assms(2) by (simp_all add: rx_count_down_def)
  have t: "\<not> (rx_timeout ?s \<noteq> 0 \<and> rx_timeout ?s1 = 0)" using assms(3) by (auto simp: rx_count_down_def)
  have en: "entry_at (packet ?s) ?s = Some e" using assms(4) by (cases "packet s") (auto simp: entry_at_def split: if_splits)
  from assms(2,7) sp obtain t' where t': "poll_await now ?s = Some t'" "s' = t'\<lparr>spin_lock := False\<rparr>"
    by (auto simp: modbus_poll_def poll_state_def)
  then have "(if n \<le> length (rx s) then await_reply now e ?s1 else Some ?s1) = Some t'"
    unfolding poll_await_def en option.case Let_def if_not_P [OF t] by (simp add: s1 assms(5))
  then show ?thesis
    using e t'(2) s1 assms(5,6) await_reply_async [of e n ?s1 now t'] await_reply_blocking [of e n ?s1 now t']
    by (auto split: if_splits)
qed

text \<open>
  C23. A reply is looked at when all its bytes have arrived, and given to the user only if its
  CRC is right (or is not to be checked). A queued message with a wrong CRC calls the
  exception handler with \<^verbatim>\<open>ModBus_CRCError\<close>. For a blocking send only the state tells the
  two cases apart: the exception code, which is what the handler is called with, is not set and
  is still the one of an earlier exception.
\<close>

theorem modbus_reply_checked:
  assumes "link_reachable (s, f)" "state s = ModBus_AwaitReply" "rx_timeout s \<noteq> 1" "entry_at (packet s) s = Some e"
    "n = unat (rx_length (qmsg e))" "valid = (crc_check (qmsg e) \<longrightarrow> crc_ok (take n (rx s)))" "modbus_poll now k s = Some s'"
  shows "(length (rx s) < n \<longrightarrow> state s' = ModBus_AwaitReply \<and> rx s' = rx s \<and> io s' = io s) \<and>
    (n \<le> length (rx s) \<and> async e \<longrightarrow> state s' = ModBus_Silent \<and>
       io s' = io s @ (if valid then packet_events (callbacks e) (with_reply (take n (rx s)) (qmsg e))
                       else handler_events (on_rx_exception (callbacks e)) ModBus_CRCError (msg_context (qmsg e)))) \<and>
    (n \<le> length (rx s) \<and> \<not> async e \<longrightarrow> io s' = io s \<and> exception_code s' = exception_code s \<and>
       (if valid then state s' = ModBus_GotReply \<and> qmsg (sync_msg s') = (with_reply (take n (rx s)) (qmsg e))\<lparr>rx_length := 0\<rparr>
        else state s' = ModBus_Exception))"
  by (rule reply_outcome [OF assms])

text \<open>An example that is easy to follow: the shortest message, its CRC only, answered by the same.\<close>

definition ping_msg :: modbus_message where
  "ping_msg = \<lparr>msg_context = 5, crc_check = True, tx_length = 2, rx_length = 2, adu = replicate 12 0\<rparr>"

definition after_ping :: "u8 list \<Rightarrow> rtu" where
  "after_ping bs = (let s1 = snd (the (modbus_send_rtu False False 0 ping_msg (Some some_callbacks) False (modbus_rtu_init False)));
      s2 = the (modbus_poll 1 0 s1); s3 = the (modbus_poll 2 0 s2)
    in s3\<lparr>rx := rx s3 @ bs\<rparr>)"

lemma after_ping_reachable: "link_reachable (after_ping bs, None)"
proof -
  let ?m = "modbus_send_rtu False False 0 ping_msg (Some some_callbacks) False (modbus_rtu_init False)"
  have b: "msg_built ping_msg (Some some_callbacks)"
    by (simp add: ping_msg_def msg_built_def msg_ready_def user_callbacks_def some_callbacks_def MODBUS_MAX_ADU_SIZE_def)
  have "?m \<noteq> None \<and> fst (the ?m) = Returned True" by code_simp
  then obtain s1 where s1: "?m = Some (Returned True, s1)" by auto
  have r1: "link_reachable (s1, None)"
    using link_next [OF link_init send [OF b s1]] by (simp add: point_of_def)
  obtain s2 where s2: "modbus_poll 1 0 s1 = Some s2" using modbus_poll_ok link_reachable_ok [OF r1] by fastforce
  have r2: "link_reachable (s2, None)" by (rule link_next [OF r1 poll [OF s2]])
  obtain s3 where s3: "modbus_poll 2 0 s2 = Some s3" using modbus_poll_ok link_reachable_ok [OF r2] by fastforce
  have r3: "link_reachable (s3, None)" by (rule link_next [OF r2 poll [OF s3]])
  have "after_ping bs = s3\<lparr>rx := rx s3 @ bs\<rparr>" by (simp add: after_ping_def s1 s2 s3)
  with link_next [OF r3 receive, of bs] show ?thesis by simp
qed

theorem modbus_reply_checked_witness:
  "\<exists>s'. modbus_poll 3 0 (after_ping [0xFF, 0xFF]) = Some s' \<and>
     io s' = io (after_ping [0xFF, 0xFF]) @ [Rx_packet 1 (with_reply [0xFF, 0xFF] (qmsg (queue (after_ping [0xFF, 0xFF]) ! 0)))]"
proof -
  let ?s = "after_ping [0xFF, 0xFF]"
  have e: "state ?s = ModBus_AwaitReply \<and> rx_timeout ?s \<noteq> 1 \<and> packet ?s = P_queue 0 \<and> 0 < length (queue ?s) \<and> rx ?s = [0xFF, 0xFF] \<and>
    async (queue ?s ! 0) \<and> unat (rx_length (qmsg (queue ?s ! 0))) = 2 \<and> on_rx_packet (callbacks (queue ?s ! 0)) = Some 1 \<and>
    crc_ok [0xFF, 0xFF]" by code_simp
  obtain s' where s': "modbus_poll 3 0 ?s = Some s'" using modbus_poll_ok link_reachable_ok [OF after_ping_reachable] by fastforce
  have "entry_at (packet ?s) ?s = Some (queue ?s ! 0)" using e by (simp add: entry_at_def)
  from modbus_reply_checked [OF after_ping_reachable _ _ this refl refl s'] e s' show ?thesis by (simp add: packet_events_def)
qed

section \<open>Queued messages\<close>















end
