(* ===== verification/Modbus.thy ===== *)
theory Modbus
  imports Modbus_rtu
begin

text \<open>
  The transport independent part of Modbus, \<^verbatim>\<open>grbl/modbus.c\<close>: the table of registered
  transports, the requests of the high level call \<^verbatim>\<open>modbus_message\<close> and the decoding of the
  replies. The transport is an argument of \<open>modbus_send\<close> and \<open>modbus_message\<close>.
\<close>

section \<open>Transports\<close>

datatype modbus_if = Modbus_InterfaceRTU | Modbus_InterfaceASCII | Modbus_InterfaceTCP

definition N_MODBUS_API :: nat where "N_MODBUS_API = 2"

text \<open>A transport on the state \<open>'s\<close> of the links: only its name and its operations are known.\<close>

record 's modbus_api =
  api_interface :: modbus_if
  api_is_up :: "'s \<Rightarrow> bool"
  api_is_busy :: "('s \<Rightarrow> bool) option"
  api_flush_queue :: "'s \<Rightarrow> 's"
  api_set_silence :: "u16 list option \<Rightarrow> 's \<Rightarrow> 's"
  api_send :: "modbus_message \<Rightarrow> bool \<Rightarrow> 's \<Rightarrow> bool \<times> 's"

record 's apis =
  apis :: "'s modbus_api list"
  tcp_api :: nat
  rtu_api :: nat

definition init_apis :: "'s apis" where
  "init_apis = \<lparr>apis = [], tcp_api = N_MODBUS_API, rtu_api = N_MODBUS_API\<rparr>"

definition modbus_register_api :: "'s modbus_api \<Rightarrow> 's apis \<Rightarrow> bool \<times> 's apis" where
  "modbus_register_api a t =
     (let n = length (apis t)
      in if n < N_MODBUS_API
         then (True, t\<lparr>apis := apis t @ [a],
                 tcp_api := (if api_interface a = Modbus_InterfaceTCP then n else tcp_api t),
                 rtu_api := (if api_interface a = Modbus_InterfaceRTU then n else rtu_api t)\<rparr>)
         else (False, t))"

definition modbus_enabled :: "'s apis \<Rightarrow> bool" where
  "modbus_enabled t = (0 < length (apis t))"

text \<open>The three capability bits: RTU, ASCII, TCP.\<close>

definition modbus_isup :: "'s apis \<Rightarrow> 's \<Rightarrow> bool \<times> bool \<times> bool" where
  "modbus_isup t s =
     foldr (\<lambda>a (r, c, p). if api_is_up a s
              then (case api_interface a of Modbus_InterfaceRTU \<Rightarrow> (True, c, p) | Modbus_InterfaceASCII \<Rightarrow> (r, True, p)
                    | Modbus_InterfaceTCP \<Rightarrow> (r, c, True))
              else (r, c, p)) (apis t) (False, False, False)"

fun any_busy :: "'s modbus_api list \<Rightarrow> 's \<Rightarrow> bool" where
  "any_busy [] s = False"
| "any_busy (a # rest) s = ((case api_is_busy a of None \<Rightarrow> False | Some f \<Rightarrow> f s) \<or> any_busy rest s)"

definition modbus_isbusy :: "'s apis \<Rightarrow> 's \<Rightarrow> bool" where
  "modbus_isbusy t s = any_busy (rev (apis t)) s"

definition modbus_flush_queue :: "'s apis \<Rightarrow> 's \<Rightarrow> 's" where
  "modbus_flush_queue t s = foldr api_flush_queue (apis t) s"

definition modbus_set_silence :: "'s apis \<Rightarrow> u16 list option \<Rightarrow> 's \<Rightarrow> 's" where
  "modbus_set_silence t timeout s = (if rtu_api t \<noteq> N_MODBUS_API then api_set_silence (apis t ! rtu_api t) timeout s else s)"

definition modbus_send :: "'s apis \<Rightarrow> modbus_message \<Rightarrow> bool \<Rightarrow> 's \<Rightarrow> bool \<times> 's" where
  "modbus_send t m block s =
     (let (ok, s1) = (if tcp_api t \<noteq> N_MODBUS_API then api_send (apis t ! tcp_api t) m block s else (False, s))
      in if ok then (True, s1)
         else if rtu_api t \<noteq> N_MODBUS_API then api_send (apis t ! rtu_api t) m block s1 else (False, s1))"

section \<open>Requests\<close>

definition MODBUS_MAX_REGISTERS :: nat where "MODBUS_MAX_REGISTERS = (MODBUS_MAX_ADU_SIZE - 6) div 2"

definition ModBus_ReadCoils :: u8 where "ModBus_ReadCoils = 1"

definition ModBus_ReadDiscreteInputs :: u8 where "ModBus_ReadDiscreteInputs = 2"

definition ModBus_ReadExceptionStatus :: u8 where "ModBus_ReadExceptionStatus = 7"

definition ModBus_Diagnostics :: u8 where "ModBus_Diagnostics = 8"

record function_properties =
  fp_function :: u8
  is_write :: bool
  single_register :: bool

definition fp :: "u8 \<Rightarrow> bool \<Rightarrow> bool \<Rightarrow> function_properties" where
  "fp f w r = \<lparr>fp_function = f, is_write = w, single_register = r\<rparr>"

definition cmds :: "function_properties list" where
  "cmds = [fp 0 False False, fp 1 False False, fp 2 False False, fp 3 False False, fp 4 False False,
     fp 5 True True, fp 6 True True, fp 7 False True, fp 0 True False,
     fp 0 False False, fp 0 False False, fp 0 False False, fp 0 False False, fp 0 False False, fp 0 False False,
     fp 15 True False, fp 16 True False]"

definition max_function :: nat where "max_function = length cmds - 1"

definition modbus_get_function_properties :: "u8 \<Rightarrow> function_properties option" where
  "modbus_get_function_properties f =
     (if unat f \<le> max_function \<and> fp_function (cmds ! unat f) \<noteq> 0 then Some (cmds ! unat f) else None)"

definition modbus_read_u16 :: "u8 list \<Rightarrow> nat \<Rightarrow> u16" where
  "modbus_read_u16 bs i = push_bit 8 (ucast (bs ! i)) OR ucast (bs ! (i + 1))"

definition modbus_write_u16 :: "nat \<Rightarrow> u16 \<Rightarrow> u8 list \<Rightarrow> u8 list" where
  "modbus_write_u16 i v bs = bs[i := ucast (drop_bit 8 v), i + 1 := ucast (v AND 0x00FF)]"

text \<open>The loops that store the values, two bytes each from position \<open>base\<close>.\<close>

definition put_values :: "nat \<Rightarrow> u16 list \<Rightarrow> nat \<Rightarrow> u8 list \<Rightarrow> u8 list" where
  "put_values base vs n bs =
     fold (\<lambda>i bs. bs[2 * i + base := ucast (drop_bit 8 (vs ! i)), 2 * i + base + 1 := ucast (vs ! i)]) [0..<n] bs"

definition request_start :: "u8 \<Rightarrow> u8 \<Rightarrow> u8 \<Rightarrow> u16 \<Rightarrow> modbus_message" where
  "request_start tx_id server function address =
     \<lparr>msg_context = ucast tx_id, crc_check = True, tx_length = 0, rx_length = 0,
      adu = [server, function, ucast (drop_bit 8 address), ucast address] @ replicate (MODBUS_MAX_ADU_SIZE - 4) 0\<rparr>"

text \<open>\<open>None\<close>: the request does not fit.\<close>

definition build_request :: "u8 \<Rightarrow> u16 list \<Rightarrow> u8 \<Rightarrow> modbus_message \<Rightarrow> modbus_message option" where
  "build_request function vs registers m =
     (let n = unat registers; f = cmds ! unat function; tx = 6 + 2 * registers
      in if function = ModBus_ReadExceptionStatus then Some (m\<lparr>tx_length := 4, rx_length := 5\<rparr>)
         else if is_write f
         then if single_register f
              then Some (m\<lparr>tx_length := 8, rx_length := 8, adu := put_values 4 vs n (adu m)\<rparr>)
              else if MODBUS_MAX_ADU_SIZE < unat (tx + 3) then None
              else Some (m\<lparr>tx_length := tx + 3, rx_length := 8,
                   adu := put_values 7 vs n ((adu m)[4 := 0, 5 := registers, 6 := push_bit 1 registers])\<rparr>)
         else Some (m\<lparr>tx_length := tx,
                rx_length := (if function = ModBus_ReadCoils \<or> function = ModBus_ReadDiscreteInputs
                              then 5 + (registers + 7) div 8 else 5 + push_bit 1 registers),
                adu := (adu m)[4 := 0, 5 := registers]\<rparr>))"

section \<open>Replies\<close>

record modbus_response =
  rsp_function :: u8
  rsp_exception :: u8
  num_values :: u8
  rsp_values :: "u16 list"

record api =
  tx_id :: u8
  xcallback :: "nat option"
  response :: modbus_response
  calls :: "(nat \<times> modbus_response) list"

definition zero_response :: modbus_response where
  "zero_response = \<lparr>rsp_function = 0, rsp_exception = 0, num_values = 0, rsp_values = replicate MODBUS_MAX_REGISTERS 0\<rparr>"

definition call_back :: "api \<Rightarrow> api" where
  "call_back s = (case xcallback s of None \<Rightarrow> s | Some c \<Rightarrow> s\<lparr>calls := calls s @ [(c, response s)]\<rparr>)"

definition rx_exception :: "u8 \<Rightarrow> api \<Rightarrow> api" where
  "rx_exception code s = call_back (s\<lparr>response := (response s)\<lparr>rsp_exception := code\<rparr>\<rparr>)"

definition rx_timeout_handler :: "u8 \<Rightarrow> api \<Rightarrow> api" where
  "rx_timeout_handler code s = call_back (s\<lparr>response := (response s)\<lparr>rsp_exception := ModBus_Timeout\<rparr>\<rparr>)"

definition store_values :: "nat \<Rightarrow> (nat \<Rightarrow> u16) \<Rightarrow> u16 list \<Rightarrow> u16 list" where
  "store_values n f vs = fold (\<lambda>i vs. vs[i := f i]) [0..<n] vs"

definition decode_reply :: "u8 list \<Rightarrow> modbus_response \<Rightarrow> modbus_response" where
  "decode_reply bs r0 =
     (let f = bs ! 1; r = r0\<lparr>rsp_function := f\<rparr>
      in if unat f \<le> max_function \<and> fp_function (cmds ! unat f) \<noteq> 0
         then
           if f = ModBus_ReadExceptionStatus
           then r\<lparr>num_values := 1, rsp_values := (rsp_values r)[0 := ucast (bs ! 2)]\<rparr>
           else if f = ModBus_Diagnostics then r\<lparr>num_values := 0\<rparr>
           else if f = ModBus_ReadCoils \<or> f = ModBus_ReadDiscreteInputs
           then
             let n = min (unat (bs ! 2)) MODBUS_MAX_REGISTERS
             in r\<lparr>num_values := of_nat n, rsp_values := store_values n (\<lambda>i. ucast (bs ! (3 + i))) (rsp_values r)\<rparr>
           else
             let echo = single_register (cmds ! unat f) \<or> is_write (cmds ! unat f);
                 n = min (if echo then 2 else unat (bs ! 2) div 2) MODBUS_MAX_REGISTERS;
                 pos = (if echo then 2 else 3)
             in r\<lparr>num_values := of_nat n, rsp_values := store_values n (\<lambda>i. modbus_read_u16 bs (pos + 2 * i)) (rsp_values r)\<rparr>
         else r\<lparr>rsp_exception := 255\<rparr>)"

definition rx_packet :: "modbus_message \<Rightarrow> api \<Rightarrow> api" where
  "rx_packet m s =
     (if adu m ! 0 AND 0x80 = 0 then call_back (s\<lparr>response := decode_reply (adu m) (response s)\<rparr>) else s)"

section \<open>The call\<close>

datatype modbus_status = Status_OK | Status_InvalidStatement | Status_AccessDenied

text \<open>The handlers given to the transport: 0 stands for \<^verbatim>\<open>rx_packet\<close> and \<^verbatim>\<open>rx_exception\<close>, 1 for
  \<^verbatim>\<open>rx_timeout\<close>.\<close>

definition message_callbacks :: modbus_callbacks where
  "message_callbacks = \<lparr>retries = 5, retry_delay = 100, on_rx_packet = Some 0, on_rx_exception = User_handler 0,
     on_rx_timeout = User_handler 1\<rparr>"

text \<open>\<open>send\<close> is the blocking \<open>modbus_send\<close>, during which the handlers run on the same state.\<close>

definition modbus_message_call ::
  "(modbus_message \<Rightarrow> api \<Rightarrow> bool \<times> api) \<Rightarrow> u8 \<Rightarrow> u8 \<Rightarrow> u16 \<Rightarrow> u16 list \<Rightarrow> u8 \<Rightarrow> nat option \<Rightarrow> api \<Rightarrow> modbus_status \<times> api" where
  "modbus_message_call send server function address vs registers callback s =
     (if max_function < unat function \<or> fp_function (cmds ! unat function) = 0 \<or> MODBUS_MAX_REGISTERS < unat registers
      then (Status_InvalidStatement, s)
      else
        let cmd = request_start (tx_id s) server function address;
            s1 = s\<lparr>tx_id := tx_id s + 1, xcallback := callback, response := zero_response\<rparr>
        in case build_request function vs registers cmd of
             None \<Rightarrow> (Status_InvalidStatement, s1)
           | Some m \<Rightarrow> let (ok, s2) = send m s1 in (if ok then Status_OK else Status_AccessDenied, s2))"

section \<open>Requests fit the link\<close>

definition valid_function :: "u8 \<Rightarrow> bool" where
  "valid_function f \<longleftrightarrow> unat f \<le> max_function \<and> fp_function (cmds ! unat f) \<noteq> 0"

lemma valid_function_cases: "valid_function f \<Longrightarrow> f \<in> {1, 2, 3, 4, 5, 6, 7, 15, 16}"
proof -
  assume v: "valid_function f"
  define n where "n = unat f"
  have f: "f = of_nat n" by (simp add: n_def)
  have n: "n < 17" "fp_function (cmds ! n) \<noteq> 0" using v by (simp_all add: valid_function_def n_def max_function_def cmds_def)
  have "n \<in> set [0..<17]" using n(1) by simp
  then have "n \<in> {1, 2, 3, 4, 5, 6, 7, 15, 16}" using n(2) by (simp add: cmds_def fp_def upt_rec) (elim disjE; simp)
  then show ?thesis unfolding f by auto
qed

lemma register_cases: "unat (r :: u8) \<le> 3 \<Longrightarrow> r \<in> {0, 1, 2, 3}"
proof -
  assume "unat r \<le> 3"
  then have "unat r \<in> {0, 1, 2, 3}" by auto
  then have "(of_nat (unat r) :: u8) \<in> of_nat ` {0, 1, 2, 3}" by (rule imageI)
  then show ?thesis by simp
qed

lemma upt_small: "[0..<0] = []" "[0..<Suc 0] = [0]" "[0..<2] = [0, Suc 0]" "[0..<3] = [0, Suc 0, 2]"
  by (simp_all add: upt_rec numeral_eq_Suc)

lemma function_kind:
  assumes "f \<in> {1, 2, 3, 4, 5, 6, 7, 15, 16 :: u8}"
  shows "is_write (cmds ! unat f) \<longleftrightarrow> f \<in> {5, 6, 15, 16}" "single_register (cmds ! unat f) \<longleftrightarrow> f \<in> {5, 6, 7}"
  using assms by (auto simp: cmds_def fp_def)

lemma request_adu:
  "adu (request_start tid server f address) =
    [server, f, ucast (drop_bit 8 address), ucast address, 0, 0, 0, 0, 0, 0, 0, 0]"
  "crc_check (request_start tid server f address)"
  by (simp_all add: request_start_def MODBUS_MAX_ADU_SIZE_def numeral_eq_Suc)

lemma put_values_cases:
  "put_values base vs 0 bs = bs"
  "put_values base vs (Suc 0) bs = bs[base := ucast (drop_bit 8 (vs ! 0)), base + 1 := ucast (vs ! 0)]"
  by (simp_all add: put_values_def)

lemma length_put_values [simp]: "length (put_values base vs n bs) = length bs"
proof -
  have "length (fold (\<lambda>i bs. bs[2 * i + base := ucast (drop_bit 8 (vs ! i)), 2 * i + base + 1 := ucast (vs ! i)]) is bs) = length bs" for "is"
    by (induction "is" arbitrary: bs) simp_all
  then show ?thesis by (simp add: put_values_def)
qed

lemma take_put_values: "k \<le> base \<Longrightarrow> take k (put_values base vs n bs) = take k bs"
proof -
  assume k: "k \<le> base"
  have "take k (fold (\<lambda>i bs. bs[2 * i + base := ucast (drop_bit 8 (vs ! i)), 2 * i + base + 1 := ucast (vs ! i)]) is bs) = take k bs" for "is"
    using k by (induction "is" arbitrary: bs) (simp_all add: take_update_cancel)
  then show ?thesis by (simp add: put_values_def)
qed

lemma build_read:
  assumes "f \<in> {1, 2, 3, 4}" "r \<in> {0, 1, 2, 3}" "build_request f vs r (request_start tid server f address) = Some m"
  shows "msg_ready m \<and> adu m = [server, f, ucast (drop_bit 8 address), ucast address, 0, r, 0, 0, 0, 0, 0, 0] \<and> tx_length m = 6 + 2 * r"
proof -
  have "\<not> is_write (cmds ! unat f)" "f \<noteq> ModBus_ReadExceptionStatus" using assms(1) function_kind [of f] by (auto simp: ModBus_ReadExceptionStatus_def)
  then have m: "tx_length m = 6 + 2 * r" "rx_length m = 5 + (r + 7) div 8 \<or> rx_length m = 5 + push_bit 1 r" "crc_check m"
    "adu m = [server, f, ucast (drop_bit 8 address), ucast address, 0, r, 0, 0, 0, 0, 0, 0]"
    using assms(3) by (auto simp: build_request_def Let_def request_adu numeral_eq_Suc)
  then show ?thesis using assms(2) by (auto simp: msg_ready_def MODBUS_MAX_ADU_SIZE_def)
qed

lemma build_write_one:
  assumes "f \<in> {5, 6}" "build_request f vs r (request_start tid server f address) = Some m"
  shows "msg_ready m \<and> take 4 (adu m) = [server, f, ucast (drop_bit 8 address), ucast address] \<and> tx_length m = 8 \<and>
    (r = 1 \<longrightarrow> drop 4 (take 6 (adu m)) = [ucast (drop_bit 8 (vs ! 0)), ucast (vs ! 0)])"
proof -
  have "is_write (cmds ! unat f)" "single_register (cmds ! unat f)" "f \<noteq> ModBus_ReadExceptionStatus"
    using assms(1) function_kind [of f] by (auto simp: ModBus_ReadExceptionStatus_def)
  then have m: "tx_length m = 8" "rx_length m = 8" "crc_check m"
    "adu m = put_values 4 vs (unat r) [server, f, ucast (drop_bit 8 address), ucast address, 0, 0, 0, 0, 0, 0, 0, 0]"
    using assms(2) by (auto simp: build_request_def Let_def request_adu)
  have "take 4 (adu m) = [server, f, ucast (drop_bit 8 address), ucast address]" by (simp add: m take_put_values)
  moreover have "drop 4 (take 6 (adu m)) = [ucast (drop_bit 8 (vs ! 0)), ucast (vs ! 0)]" if "r = 1"
    using that by (simp add: m put_values_cases numeral_eq_Suc)
  ultimately show ?thesis using m by (simp add: msg_ready_def MODBUS_MAX_ADU_SIZE_def)
qed

lemma build_write_many:
  assumes "f \<in> {15, 16}" "r \<in> {0, 1, 2, 3}" "build_request f vs r (request_start tid server f address) = Some m"
  shows "msg_ready m \<and> take 4 (adu m) = [server, f, ucast (drop_bit 8 address), ucast address] \<and>
    (r = 0 \<or> r = 1 \<and> tx_length m = 11 \<and> drop 4 (take 9 (adu m)) = [0, 1, 2, ucast (drop_bit 8 (vs ! 0)), ucast (vs ! 0)])"
proof -
  have k: "is_write (cmds ! unat f)" "\<not> single_register (cmds ! unat f)" "f \<noteq> ModBus_ReadExceptionStatus"
    using assms(1) function_kind [of f] by (auto simp: ModBus_ReadExceptionStatus_def)
  then have n: "\<not> MODBUS_MAX_ADU_SIZE < unat (6 + 2 * r + 3)" using assms(3) by (auto simp: build_request_def Let_def split: if_splits)
  have r: "r = 0 \<or> r = 1" using assms(2) n by (auto simp: MODBUS_MAX_ADU_SIZE_def)
  have m: "tx_length m = 6 + 2 * r + 3" "rx_length m = 8" "crc_check m"
    "adu m = put_values 7 vs (unat r) [server, f, ucast (drop_bit 8 address), ucast address, 0, r, push_bit 1 r, 0, 0, 0, 0, 0]"
    using assms(3) k n by (auto simp: build_request_def Let_def request_adu numeral_eq_Suc)
  have "take 4 (adu m) = [server, f, ucast (drop_bit 8 address), ucast address]" by (simp add: m take_put_values)
  moreover have "drop 4 (take 9 (adu m)) = [0, 1, 2, ucast (drop_bit 8 (vs ! 0)), ucast (vs ! 0)]" if "r = 1"
    using that by (simp add: m put_values_cases)
  ultimately show ?thesis using r m by (auto simp: msg_ready_def MODBUS_MAX_ADU_SIZE_def)
qed

text \<open>
  C38. Every request the call builds is one the RTU link accepts: its lengths are within the
  buffer and leave room for the CRC. It starts with device, function and address; a
  register write is followed by the value and is eight bytes long, a write of several by count, byte
  count and values, of which only one fits. A read is followed by the count, but its length
  grows with the number of registers, so that it is the eight bytes of a valid request for one
  register only.
\<close>

theorem modbus_request_frames:
  assumes "valid_function f" "unat r \<le> MODBUS_MAX_REGISTERS" "build_request f vs r (request_start tid server f address) = Some m"
  shows "msg_ready m \<and> take 4 (adu m) = [server, f, ucast (drop_bit 8 address), ucast address] \<and>
    (f \<in> {5, 6} \<and> r = 1 \<longrightarrow> tx_length m = 8 \<and> drop 4 (take 6 (adu m)) = [ucast (drop_bit 8 (vs ! 0)), ucast (vs ! 0)]) \<and>
    (f \<in> {15, 16} \<longrightarrow> r = 0 \<or> r = 1 \<and> tx_length m = 11 \<and>
       drop 4 (take 9 (adu m)) = [0, 1, 2, ucast (drop_bit 8 (vs ! 0)), ucast (vs ! 0)]) \<and>
    (f \<in> {1, 2, 3, 4} \<longrightarrow> drop 4 (take 6 (adu m)) = [0, r] \<and> (tx_length m = 8 \<longleftrightarrow> r = 1))"
proof -
  have r: "r \<in> {0, 1, 2, 3}" using assms(2) by (intro register_cases) (simp add: MODBUS_MAX_REGISTERS_def MODBUS_MAX_ADU_SIZE_def)
  consider "f \<in> {1, 2, 3, 4}" | "f \<in> {5, 6}" | "f = 7" | "f \<in> {15, 16}" using valid_function_cases [OF assms(1)] by auto
  then show ?thesis
  proof cases
    case 1
    then show ?thesis using build_read [OF 1 r assms(3)] r by auto
  next
    case 2
    then show ?thesis using build_write_one [OF 2 assms(3)] by auto
  next
    case 3
    have "m = (request_start tid server f address)\<lparr>tx_length := 4, rx_length := 5\<rparr>"
      using assms(3) 3 by (simp add: build_request_def ModBus_ReadExceptionStatus_def)
    then show ?thesis using 3 by (simp add: request_adu msg_ready_def MODBUS_MAX_ADU_SIZE_def)
  next
    case 4
    then show ?thesis using build_write_many [OF 4 r assms(3)] by auto
  qed
qed

theorem modbus_request_frames_witness:
  "\<exists>m. build_request 3 [] 2 (request_start 0 17 3 0x1234) = Some m \<and> msg_ready m \<and>
     take 4 (adu m) = [17, 3, 0x12, 0x34] \<and> tx_length m \<noteq> 8"
proof -
  have v: "valid_function 3" "unat (2 :: u8) \<le> MODBUS_MAX_REGISTERS" by code_simp+
  have "build_request 3 [] 2 (request_start 0 17 3 0x1234) \<noteq> None" by code_simp
  then obtain m where m: "build_request 3 [] 2 (request_start 0 17 3 0x1234) = Some m" by auto
  from modbus_request_frames [OF v m] m show ?thesis by (simp add: drop_bit_eq_div) 
qed

section \<open>Replies\<close>

definition be16 :: "u16 \<Rightarrow> u8 list" where
  "be16 v = [ucast (drop_bit 8 v), ucast v]"

lemma read_be16: "push_bit 8 (ucast (ucast (drop_bit 8 v) :: u8)) OR ucast (ucast v :: u8) = (v :: u16)"
  by (rule bit_word_eqI) (auto simp: bit_or_iff bit_push_bit_iff bit_ucast_iff bit_drop_bit_eq)

lemma length_be16: "length (concat (map be16 vs)) = 2 * length vs"
  by (induction vs) (simp_all add: be16_def)

lemma nth_be16:
  "i < length vs \<Longrightarrow> concat (map be16 vs) ! (2 * i) = ucast (drop_bit 8 (vs ! i)) \<and> concat (map be16 vs) ! (Suc (2 * i)) = ucast (vs ! i)"
proof (induction vs arbitrary: i)
  case (Cons v vs)
  then show ?case by (cases i) (simp_all add: be16_def)
qed simp

lemma store_values_take:
  assumes "n \<le> length xs"
  shows "take n (store_values n f xs) = map f [0..<n] \<and> length (store_values n f xs) = length xs"
  using assms
proof (induction n)
  case (Suc n)
  have e: "store_values (Suc n) f xs = (store_values n f xs)[n := f n]" by (simp add: store_values_def)
  from Suc have l: "take n (store_values n f xs) = map f [0..<n]" "length (store_values n f xs) = length xs" by simp_all
  show ?case unfolding e using Suc.prems l by (simp add: take_Suc_conv_app_nth)
qed (simp add: store_values_def)

text \<open>The reply of a device to a read of registers, with whatever follows in the buffer.\<close>

definition read_reply :: "u8 \<Rightarrow> u8 \<Rightarrow> u16 list \<Rightarrow> u8 list" where
  "read_reply server f vs = [server, f, of_nat (2 * length vs)] @ concat (map be16 vs)"

lemma decode_read_reply:
  assumes "f = 3 \<or> f = 4" "length vs \<le> MODBUS_MAX_REGISTERS" "length (rsp_values r) = MODBUS_MAX_REGISTERS"
  shows "let r' = decode_reply (read_reply server f vs @ rest) r
    in rsp_function r' = f \<and> rsp_exception r' = rsp_exception r \<and> num_values r' = of_nat (length vs) \<and>
       take (length vs) (rsp_values r') = vs"
proof -
  define bs where "bs = read_reply server f vs @ rest"
  have l: "length vs \<le> 3" using assms(2) by (simp add: MODBUS_MAX_REGISTERS_def MODBUS_MAX_ADU_SIZE_def)
  then have "2 * length vs < 256" by simp
  then have n: "unat (of_nat (2 * length vs) :: u8) = 2 * length vs"
    using unat_of_nat [of "2 * length vs", where 'a = 8] by simp
  have b: "bs ! 1 = f" "bs ! 2 = of_nat (2 * length vs)" by (simp_all add: bs_def read_reply_def)
  have v: "modbus_read_u16 bs (3 + 2 * i) = vs ! i" if "i < length vs" for i
  proof -
    have "bs ! (3 + 2 * i) = ucast (drop_bit 8 (vs ! i))" "bs ! (3 + 2 * i + 1) = ucast (vs ! i)"
      using nth_be16 [OF that] that by (simp_all add: bs_def read_reply_def nth_append length_be16 numeral_eq_Suc)
    then show ?thesis unfolding modbus_read_u16_def by (simp only: read_be16)
  qed
  have k: "unat f \<le> max_function \<and> fp_function (cmds ! unat f) \<noteq> 0" "\<not> single_register (cmds ! unat f)" "\<not> is_write (cmds ! unat f)"
    "f \<noteq> ModBus_ReadExceptionStatus" "f \<noteq> ModBus_Diagnostics" "\<not> (f = ModBus_ReadCoils \<or> f = ModBus_ReadDiscreteInputs)"
    using assms(1) by (auto simp: max_function_def cmds_def fp_def ModBus_ReadExceptionStatus_def ModBus_Diagnostics_def
      ModBus_ReadCoils_def ModBus_ReadDiscreteInputs_def)
  have d: "decode_reply bs r = (r\<lparr>rsp_function := f\<rparr>)\<lparr>num_values := of_nat (length vs),
      rsp_values := store_values (length vs) (\<lambda>i. modbus_read_u16 bs (3 + 2 * i)) (rsp_values r)\<rparr>"
    unfolding decode_reply_def b Let_def if_P [OF k(1)] if_not_P [OF k(4)] if_not_P [OF k(5)] if_not_P [OF k(6)] n
    using k(2,3) assms(2) by (simp add: min_absorb1)
  have "map (\<lambda>i. modbus_read_u16 bs (3 + 2 * i)) [0..<length vs] = map ((!) vs) [0..<length vs]"
    by (rule map_cong [OF refl]) (simp add: v)
  then have "take (length vs) (store_values (length vs) (\<lambda>i. modbus_read_u16 bs (3 + 2 * i)) (rsp_values r)) = vs"
    using store_values_take [of "length vs" "rsp_values r"] assms(2,3) by (simp add: map_nth)
  then show ?thesis unfolding bs_def [symmetric] d by (simp add: Let_def)
qed

lemma crc_ok_frame: "crc_ok (bs @ [ucast (modbus_crc16x bs), ucast (drop_bit 8 (modbus_crc16x bs))])"
  by (simp add: crc_ok_def Let_def nth_append)

text \<open>
  C18. Reading registers over the link: when the device, with an address below 128, has answered a
  blocking read of up to three registers, reply and CRC complete, the user's callback is
  called with exactly the values the device sent and no exception.
\<close>

theorem modbus_read_delivers:
  assumes "link_reachable (s, Some p)" "state s = ModBus_AwaitReply" "packet s = P_sync" "rx_timeout s \<noteq> 1"
    "length vs \<le> MODBUS_MAX_REGISTERS" "f = 3 \<or> f = 4" "server AND 0x80 = 0"
    "unat (rx_length (qmsg (sync_msg s))) = 5 + 2 * length vs" "bs = read_reply server f vs"
    "rx s = bs @ [ucast (modbus_crc16x bs), ucast (drop_bit 8 (modbus_crc16x bs))] @ later"
    "length (rsp_values (response a)) = MODBUS_MAX_REGISTERS" "rsp_exception (response a) = 0" "xcallback a = Some c"
    "modbus_poll now k s = Some s'"
  shows "state s' = ModBus_GotReply \<and>
    (\<exists>r. calls (rx_packet (qmsg (sync_msg s')) a) = calls a @ [(c, r)] \<and> rsp_function r = f \<and> rsp_exception r = 0 \<and>
       num_values r = of_nat (length vs) \<and> take (length vs) (rsp_values r) = vs)"
proof -
  let ?n = "unat (rx_length (qmsg (sync_msg s)))" and ?crc = "[ucast (modbus_crc16x bs), ucast (drop_bit 8 (modbus_crc16x bs))] :: u8 list"
  have e: "entry_at (packet s) s = Some (sync_msg s)" using assms(3) by (simp add: entry_at_def)
  have sync: "\<not> async (sync_msg s)" using link_reachable_ok [OF assms(1)] assms(3) by (simp add: link_ok_def rtu_ok_def sync_ready_def)
  have "length bs = 3 + 2 * length vs" by (simp add: assms(9) read_reply_def length_be16)
  then have t: "take ?n (rx s) = bs @ ?crc" "?n \<le> length (rx s)" by (simp_all add: assms(8,10))
  have g: "state s' = ModBus_GotReply" "qmsg (sync_msg s') = (with_reply (bs @ ?crc) (qmsg (sync_msg s)))\<lparr>rx_length := 0\<rparr>"
    using reply_outcome [OF assms(1,2,4) e refl refl assms(14)] sync t crc_ok_frame [of bs] by auto
  define rest where "rest = ?crc @ drop (length (bs @ ?crc)) (adu (qmsg (sync_msg s)))"
  have a: "adu (qmsg (sync_msg s')) = read_reply server f vs @ rest" by (simp add: g with_reply_def rest_def assms(9))
  have "adu (qmsg (sync_msg s')) ! 0 = server" unfolding a by (simp add: read_reply_def)
  then have "calls (rx_packet (qmsg (sync_msg s')) a) = calls a @ [(c, decode_reply (read_reply server f vs @ rest) (response a))]"
    using assms(7,13) a by (simp add: rx_packet_def call_back_def)
  with g(1) decode_read_reply [OF assms(6,5,11), of server rest] assms(12) show ?thesis by (simp add: Let_def)
qed

definition waiting_api :: api where
  "waiting_api = \<lparr>tx_id = 1, xcallback = Some 4, response = zero_response, calls = []\<rparr>"

text \<open>The link after \<open>read_msg\<close> was sent, when the given bytes have arrived.\<close>

lemma read_msg_answered:
  obtains s p where "link_reachable (s, Some p)" "state s = ModBus_AwaitReply" "packet s = P_sync" "rx_timeout s = 50"
    "unat (rx_length (qmsg (sync_msg s))) = 7" "rx s = bs"
proof -
  let ?p = "Await_end (put_crc read_msg) (Some some_callbacks)"
  have i: "\<not> is_blocking (modbus_rtu_init True)" "state (modbus_rtu_init True) = ModBus_Idle" "cfg_rx_timeout (modbus_rtu_init True) = 50"
    by (simp_all add: modbus_rtu_init_def modbus_settings_restore_def modbus_rtu_set_silence_def Let_def)
  from blocking_send_starts [OF i(1,2) read_msg_ready(1), of False 0 "Some some_callbacks"] obtain s where
    s: "modbus_send_rtu False False 0 read_msg (Some some_callbacks) True (modbus_rtu_init True) = Some (Waiting ?p, s)"
      "state s = ModBus_TX" "packet s = P_sync" "qmsg (sync_msg s) = put_crc read_msg" "rx_timeout s = 50"
    using i(3) by metis
  have r: "link_reachable (s, Some ?p)"
    using link_next [OF link_init send [OF read_msg_ready(3) s(1)]] by (simp add: point_of_def)
  then have sp: "\<not> spin_lock s" using link_reachable_ok [OF r] by (simp add: link_ok_def)
  define t where "t = (set_direction False ((flush_rx_buffer s)\<lparr>state := ModBus_AwaitReply\<rparr>))\<lparr>spin_lock := False\<rparr>"
  have "modbus_poll 1 0 s = Some t" using s(2) sp by (simp add: modbus_poll_def poll_state_def t_def rtu_sel)
  from link_next [OF link_next [OF r poll [OF this]] receive, of bs] have "link_reachable (t\<lparr>rx := rx t @ bs\<rparr>, Some ?p)" .
  moreover have "rx t = []" "state t = ModBus_AwaitReply" "packet t = P_sync" "rx_timeout t = 50" "qmsg (sync_msg t) = put_crc read_msg"
    using s by (simp_all add: t_def rtu_sel)
  ultimately show ?thesis by (intro that [of "t\<lparr>rx := rx t @ bs\<rparr>" ?p]) (simp_all add: put_crc_def Let_def read_msg_def)
qed

theorem modbus_read_delivers_witness:
  "\<exists>s p s' r. link_reachable (s, Some p) \<and> modbus_poll 2 0 s = Some s' \<and> state s' = ModBus_GotReply \<and>
     calls (rx_packet (qmsg (sync_msg s')) waiting_api) = [(4, r)] \<and> take 1 (rsp_values r) = [0x1234]"
proof -
  let ?bs = "read_reply 1 3 [0x1234]"
  obtain s p where s: "link_reachable (s, Some p)" "state s = ModBus_AwaitReply" "packet s = P_sync" "rx_timeout s = 50"
    "unat (rx_length (qmsg (sync_msg s))) = 7"
    "rx s = ?bs @ [ucast (modbus_crc16x ?bs), ucast (drop_bit 8 (modbus_crc16x ?bs))] @ []"
    by (rule read_msg_answered)
  obtain s' where s': "modbus_poll 2 0 s = Some s'" using modbus_poll_ok link_reachable_ok [OF s(1)] by fastforce
  have "rx_timeout s \<noteq> 1" "length [0x1234 :: u16] \<le> MODBUS_MAX_REGISTERS" "(3 :: u8) = 3 \<or> (3 :: u8) = 4" "(1 :: u8) AND 0x80 = 0"
    "unat (rx_length (qmsg (sync_msg s))) = 5 + 2 * length [0x1234 :: u16]"
    using s(4,5) by (simp_all add: MODBUS_MAX_REGISTERS_def MODBUS_MAX_ADU_SIZE_def)
  moreover have "length (rsp_values (response waiting_api)) = MODBUS_MAX_REGISTERS" "rsp_exception (response waiting_api) = 0"
    "xcallback waiting_api = Some 4" "calls waiting_api = []" by (simp_all add: waiting_api_def zero_response_def)
  ultimately show ?thesis
    using modbus_read_delivers [OF s(1-3) _ _ _ _ _ refl s(6) _ _ _ s', of waiting_api 4] s(1) s' by auto
qed

end
