(* ===== verification/Float_arith.thy ===== *)
theory Float_arith
  imports Float32 "HOL-Library.Code_Target_Nat"
begin

text \<open>
  Arithmetic of IEEE 754 binary32 values, as the floating point unit of the target computes it:
  every operation rounds the exact result to the nearest value, ties to even. Operations without a
  defined result give the default NaN.
\<close>

section \<open>Rounding\<close>

fun bit_length :: "nat \<Rightarrow> nat" where
  "bit_length n = (if n = 0 then 0 else Suc (bit_length (n div 2)))"

declare bit_length.simps [simp del]

definition f32_nan :: f32 where "f32_nan = 0x7FC00000"

definition f32_neg :: "f32 \<Rightarrow> f32" where
  "f32_neg v = v XOR 0x80000000"

definition f32_abs :: "f32 \<Rightarrow> f32" where
  "f32_abs v = v AND 0x7FFFFFFF"

definition f32_signed :: "bool \<Rightarrow> f32 \<Rightarrow> f32" where
  "f32_signed s v = (if s then f32_neg v else v)"

text \<open>A power of two of either sign, as the factors it gives numerator and denominator.\<close>

definition pow2_pos :: "int \<Rightarrow> nat" where
  "pow2_pos e = 2 ^ nat e"

text \<open>The exponent of the unit in the last place of \<open>n / d\<close>: 24 bits, but not below -149.\<close>

definition ulp_exp :: "nat \<Rightarrow> nat \<Rightarrow> int" where
  "ulp_exp n d =
     (let e0 = int (bit_length n) - int (bit_length d);
          e = (if d * pow2_pos e0 \<le> n * pow2_pos (- e0) then e0 else e0 - 1)
      in max (e - 23) (-149))"

text \<open>The value of magnitude \<open>n / d\<close>, rounded. The fields of exponent and fraction are such that
  a carry out of the fraction gives the next exponent.\<close>

definition f32_round :: "bool \<Rightarrow> nat \<Rightarrow> nat \<Rightarrow> f32" where
  "f32_round s n d =
     (let e = ulp_exp n d;
          m = round_half_even (n * pow2_pos (- e)) (d * pow2_pos e);
          bits = m + nat (e + 149) * 2 ^ 23
      in f32_signed s (if n = 0 then 0 else if 0x7F800000 \<le> bits then 0x7F800000 else of_nat bits))"

text \<open>\<open>n / d * 2 ^ e\<close>.\<close>

definition f32_round_scaled :: "bool \<Rightarrow> nat \<Rightarrow> nat \<Rightarrow> int \<Rightarrow> f32" where
  "f32_round_scaled s n d e = f32_round s (n * pow2_pos e) (d * pow2_pos (- e))"

section \<open>Operations\<close>

definition f32_mul :: "f32 \<Rightarrow> f32 \<Rightarrow> f32" where
  "f32_mul a b =
     (let s = (f32_sign a \<noteq> f32_sign b)
      in if f32_is_nan a \<or> f32_is_nan b then f32_nan
         else if f32_is_inf a then if f32_is_zero b then f32_nan else f32_signed s 0x7F800000
         else if f32_is_inf b then if f32_is_zero a then f32_nan else f32_signed s 0x7F800000
         else f32_round_scaled s (f32_mant a * f32_mant b) 1 (int (f32_scale a) + int (f32_scale b) - 300))"

definition f32_div :: "f32 \<Rightarrow> f32 \<Rightarrow> f32" where
  "f32_div a b =
     (let s = (f32_sign a \<noteq> f32_sign b)
      in if f32_is_nan a \<or> f32_is_nan b then f32_nan
         else if f32_is_inf a then if f32_is_inf b then f32_nan else f32_signed s 0x7F800000
         else if f32_is_inf b then f32_signed s 0
         else if f32_is_zero b then if f32_is_zero a then f32_nan else f32_signed s 0x7F800000
         else f32_round_scaled s (f32_mant a) (f32_mant b) (int (f32_scale a) - int (f32_scale b)))"

text \<open>A finite value in units of \<open>2 ^ (e - 150)\<close>.\<close>

definition f32_units :: "nat \<Rightarrow> f32 \<Rightarrow> int" where
  "f32_units e v = (if f32_sign v then -1 else 1) * int (f32_mant v * 2 ^ (f32_scale v - e))"

definition f32_add :: "f32 \<Rightarrow> f32 \<Rightarrow> f32" where
  "f32_add a b =
     (if f32_is_nan a \<or> f32_is_nan b then f32_nan
      else if f32_is_inf a then if f32_is_inf b \<and> f32_sign a \<noteq> f32_sign b then f32_nan else a
      else if f32_is_inf b then b
      else
        let e = min (f32_scale a) (f32_scale b); x = f32_units e a + f32_units e b
        in if x = 0 then f32_signed (f32_sign a \<and> f32_sign b) 0
           else f32_round_scaled (x < 0) (nat \<bar>x\<bar>) 1 (int e - 150))"

definition f32_sub :: "f32 \<Rightarrow> f32 \<Rightarrow> f32" where
  "f32_sub a b = f32_add a (f32_neg b)"

text \<open>\<^verbatim>\<open>(float)n\<close> of an integer.\<close>

definition f32_of_nat :: "nat \<Rightarrow> f32" where
  "f32_of_nat n = f32_round False n 1"

definition f32_of_u32 :: "u32 \<Rightarrow> f32" where
  "f32_of_u32 n = f32_of_nat (unat n)"

definition f32_of_i32 :: "i32 \<Rightarrow> f32" where
  "f32_of_i32 n = f32_round (sint n < 0) (nat \<bar>sint n\<bar>) 1"

text \<open>\<^verbatim>\<open>floorf\<close> and \<^verbatim>\<open>ceilf\<close>; the result keeps the sign of the argument, of a zero too.\<close>

definition f32_whole :: "bool \<Rightarrow> f32 \<Rightarrow> f32" where
  "f32_whole away v =
     (if f32_is_nan v \<or> f32_is_inf v \<or> 150 \<le> f32_scale v then v
      else
        let d = 2 ^ (150 - f32_scale v); q = f32_mant v div d
        in f32_round (f32_sign v) (if away \<and> f32_mant v mod d \<noteq> 0 then q + 1 else q) 1)"

definition f32_floor :: "f32 \<Rightarrow> f32" where
  "f32_floor v = f32_whole (f32_sign v) v"

definition f32_ceil :: "f32 \<Rightarrow> f32" where
  "f32_ceil v = f32_whole (\<not> f32_sign v) v"

text \<open>\<^verbatim>\<open>fmodf\<close>, which is exact.\<close>

definition f32_fmod :: "f32 \<Rightarrow> f32 \<Rightarrow> f32" where
  "f32_fmod a b =
     (if f32_is_nan a \<or> f32_is_nan b \<or> f32_is_inf a \<or> f32_is_zero b then f32_nan
      else if f32_is_inf b then a
      else
        let e = min (f32_scale a) (f32_scale b);
            r = (f32_mant a * 2 ^ (f32_scale a - e)) mod (f32_mant b * 2 ^ (f32_scale b - e))
        in f32_round_scaled (f32_sign a) r 1 (int e - 150))"

text \<open>\<^verbatim>\<open>(int)v\<close>: truncated and saturated.\<close>

definition f32_to_i32 :: "f32 \<Rightarrow> i32" where
  "f32_to_i32 v =
     (if f32_is_nan v then 0
      else if f32_is_inf v \<or> 2 ^ 31 \<le> f32_trunc_abs v then if f32_sign v then 0x80000000 else 0x7FFFFFFF
      else if f32_sign v then - of_nat (f32_trunc_abs v) else of_nat (f32_trunc_abs v))"

definition f32_eq :: "f32 \<Rightarrow> f32 \<Rightarrow> bool" where
  "f32_eq a b \<longleftrightarrow> \<not> f32_is_nan a \<and> \<not> f32_is_nan b \<and> (a = b \<or> f32_is_zero a \<and> f32_is_zero b)"

definition f32_is_finite :: "f32 \<Rightarrow> bool" where
  "f32_is_finite v \<longleftrightarrow> f32_exp v \<noteq> 255"

text \<open>The rules that evaluate the operations on numerals by simplification.\<close>

lemmas f32_eval =
  f32_add_def f32_sub_def f32_mul_def f32_div_def f32_fmod_def f32_neg_def f32_abs_def f32_units_def
  f32_round_scaled_def f32_round_def ulp_exp_def pow2_pos_def f32_signed_def f32_is_nan_def f32_is_inf_def
  f32_is_zero_def f32_exp_def f32_frac_def f32_mant_def f32_scale_def f32_sign_def round_half_even_def Let_def
  bit_length.simps bit_iff_odd_drop_bit f32_of_u32_def f32_of_nat_def f32_trunc_u32_def f32_trunc_abs_def
  f32_whole_def f32_floor_def f32_ceil_def f32_to_i32_def f32_less_def f32_le_def f32_eq_def f32_is_finite_def
  f32_0_def f32_1_def f32_nan_def

section \<open>Small integers are exact\<close>

lemma bit_length_pow2: "2 ^ k \<le> n \<Longrightarrow> n < 2 ^ Suc k \<Longrightarrow> bit_length n = Suc k"
proof (induction k arbitrary: n)
  case 0
  then have "n = 1" by simp
  then show ?case by (simp add: bit_length.simps)
next
  case (Suc k)
  then have "bit_length (n div 2) = Suc k" by (intro Suc.IH) (auto simp: less_mult_imp_div_less)
  moreover have "n \<noteq> 0" using Suc.prems(1) by (metis not_le zero_less_numeral zero_less_power)
  ultimately show ?case by (simp add: bit_length.simps [of n])
qed

lemma round_half_even_1 [simp]: "round_half_even m 1 = m"
  by (simp add: round_half_even_def)

text \<open>The bits of a positive number with \<open>k + 1\<close> binary digits.\<close>

lemma f32_of_nat_bits:
  assumes "2 ^ k \<le> n" "n < 2 ^ Suc k" "k \<le> 23"
  shows "f32_of_nat n = of_nat (n * 2 ^ (23 - k) + (k + 126) * 2 ^ 23)" "2 ^ 23 \<le> n * 2 ^ (23 - k)" "n * 2 ^ (23 - k) < 2 ^ 24"
proof -
  have s: "2 ^ k * 2 ^ (23 - k) = (2 ^ 23 :: nat)" "2 ^ Suc k * 2 ^ (23 - k) = (2 ^ 24 :: nat)"
    using assms(3) by (simp_all flip: power_add)
  show lo: "2 ^ 23 \<le> n * 2 ^ (23 - k)" unfolding s(1) [symmetric] using assms(1) by (rule mult_le_mono1)
  show hi: "n * 2 ^ (23 - k) < 2 ^ 24" unfolding s(2) [symmetric] using assms(2) by simp
  have b: "bit_length n = Suc k" "bit_length (Suc 0) = Suc 0" using bit_length_pow2 [OF assms(1,2)] by (simp_all add: bit_length.simps)
  have u: "ulp_exp n 1 = int k - 23"
    using assms(1) by (simp add: ulp_exp_def b pow2_pos_def)
  have p: "pow2_pos (- (int k - 23)) = 2 ^ (23 - k)" "pow2_pos (int k - 23) = 1"
    using assms(3) by (simp_all add: pow2_pos_def nat_diff_distrib')
  have n0: "n \<noteq> 0" using assms(1) by (metis not_le zero_less_numeral zero_less_power)
  have "nat (int k - 23 + 149) = k + 126" by simp
  moreover have "\<not> 0x7F800000 \<le> n * 2 ^ (23 - k) + (k + 126) * 2 ^ 23"
  proof -
    have "(k + 126) * 2 ^ 23 \<le> (23 + 126) * 2 ^ 23" using assms(3) by (intro mult_le_mono1) simp
    with hi show ?thesis by simp
  qed
  ultimately show "f32_of_nat n = of_nat (n * 2 ^ (23 - k) + (k + 126) * 2 ^ 23)"
    unfolding f32_of_nat_def f32_round_def Let_def u p mult_1 round_half_even_1 f32_signed_def by (simp only: n0 if_False)
qed

lemma f32_fields:
  assumes "2 ^ 23 \<le> m" "m < 2 ^ 24" "x < 254"
  shows "f32_exp (of_nat (m + x * 2 ^ 23)) = x + 1" "f32_frac (of_nat (m + x * 2 ^ 23)) = m - 2 ^ 23"
    "\<not> f32_sign (of_nat (m + x * 2 ^ 23))"
proof -
  let ?b = "m + x * 2 ^ 23"
  define r where "r = m - 2 ^ 23"
  then have r: "m = 2 ^ 23 + r" "r < 2 ^ 23" using assms(1,2) by simp_all
  have b: "?b = r + (x + 1) * 2 ^ 23" by (simp add: r)
  have lt: "?b < 2 ^ 31"
  proof -
    have "x * 2 ^ 23 \<le> 253 * 2 ^ 23" using assms(3) by (intro mult_le_mono1) simp
    then show ?thesis using assms(2) by simp
  qed
  have u: "unat (of_nat ?b :: u32) = ?b" using lt unat_of_nat [of ?b, where 'a = 32] by simp
  have d: "?b div 2 ^ 23 = x + 1" "?b mod 2 ^ 23 = r" unfolding b
    by (subst div_mult_self1, use r(2) in simp_all, unfold mod_mult_self1 [of r "x + 1" "2 ^ 23", simplified], use r(2) in simp)
  have m8: "(0xFF :: u32) = mask 8" "(0x7FFFFF :: u32) = mask 23" by (simp_all add: mask_eq_exp_minus_1)
  have ud: "unat (drop_bit 23 w) = unat w div 2 ^ 23" for w :: u32
    by (simp only: unat_drop_bit_eq) (simp only: drop_bit_eq_div)
  have "unat (drop_bit 23 (of_nat ?b :: u32)) = x + 1" unfolding ud u d ..
  then show "f32_exp (of_nat ?b) = x + 1" using assms(3) unfolding f32_exp_def m8 unat_and_mask by simp
  show "f32_frac (of_nat ?b) = m - 2 ^ 23" unfolding f32_frac_def m8 unat_and_mask u d(2) by (simp add: r(1))
  have "\<not> bit ?b 31" using lt by (simp add: bit_iff_odd)
  then show "\<not> f32_sign (of_nat ?b)" by (simp add: f32_sign_def bit_simps del: of_nat_add)
qed
lemma f32_of_nat_fields:
  assumes "2 ^ k \<le> n" "n < 2 ^ Suc k" "k \<le> 23"
  shows "f32_exp (f32_of_nat n) = k + 127" "f32_mant (f32_of_nat n) = n * 2 ^ (23 - k)" "\<not> f32_sign (f32_of_nat n)"
    "f32_scale (f32_of_nat n) = k + 127"
proof -
  note b = f32_of_nat_bits [OF assms]
  have "k + 126 < 254" using assms(3) by simp
  note f = f32_fields [OF b(2,3) this, folded b(1)]
  show "f32_exp (f32_of_nat n) = k + 127" "\<not> f32_sign (f32_of_nat n)" using f by simp_all
  then show "f32_scale (f32_of_nat n) = k + 127" by (simp add: f32_scale_def)
  show "f32_mant (f32_of_nat n) = n * 2 ^ (23 - k)" using f(1,2) b(2) by (simp add: f32_mant_def)
qed

lemma f32_neg_fields [simp]:
  "f32_exp (f32_neg v) = f32_exp v" "f32_frac (f32_neg v) = f32_frac v" "f32_sign (f32_neg v) \<longleftrightarrow> \<not> f32_sign v"
  "f32_mant (f32_neg v) = f32_mant v" "f32_scale (f32_neg v) = f32_scale v" "f32_is_nan (f32_neg v) = f32_is_nan v"
  "f32_is_inf (f32_neg v) = f32_is_inf v"
proof -
  have c: "(0x80000000 :: u32) = push_bit 31 1" "(0xFF :: u32) = mask 8" "(0x7FFFFF :: u32) = mask 23"
    by (simp_all add: mask_eq_exp_minus_1)
  have "drop_bit 23 (v XOR push_bit 31 1) AND mask 8 = drop_bit 23 v AND mask 8"
    by (rule bit_eqI, simp only: bit_and_iff bit_drop_bit_eq bit_xor_iff bit_push_bit_iff o_def bit_mask_iff bit_1_iff) auto
  then show e: "f32_exp (f32_neg v) = f32_exp v" by (simp only: f32_exp_def f32_neg_def c)
  have "(v XOR push_bit 31 1) AND mask 23 = v AND mask 23"
    by (rule bit_eqI, simp only: bit_and_iff bit_xor_iff bit_push_bit_iff o_def bit_mask_iff bit_1_iff) auto
  then show f: "f32_frac (f32_neg v) = f32_frac v" by (simp only: f32_frac_def f32_neg_def c)
  show "f32_sign (f32_neg v) \<longleftrightarrow> \<not> f32_sign v" unfolding f32_sign_def f32_neg_def c by (simp add: bit_simps)
  show "f32_mant (f32_neg v) = f32_mant v" "f32_scale (f32_neg v) = f32_scale v" "f32_is_nan (f32_neg v) = f32_is_nan v"
    "f32_is_inf (f32_neg v) = f32_is_inf v"
    by (simp_all add: f32_mant_def f32_scale_def f32_is_nan_def f32_is_inf_def e f)
qed

lemma f32_sub_self:
  assumes "\<not> f32_is_nan v" "\<not> f32_is_inf v"
  shows "f32_sub v v = 0"
  using assms by (simp add: f32_sub_def f32_add_def f32_units_def f32_signed_def Let_def)

text \<open>A natural number below \<open>2 ^ 24\<close> is converted exactly: it is whole, and converted back it is the same.\<close>

lemma f32_of_nat_exact:
  assumes "n < 2 ^ 24"
  shows "f32_is_finite (f32_of_nat n)" "f32_trunc_abs (f32_of_nat n) = n" "\<not> f32_sign (f32_of_nat n)"
    "f32_floor (f32_of_nat n) = f32_of_nat n" "f32_to_i32 (f32_of_nat n) = of_nat n"
    "f32_of_i32 (of_nat n) = f32_of_nat n"
proof -
  have "f32_is_finite (f32_of_nat n) \<and> f32_trunc_abs (f32_of_nat n) = n \<and> \<not> f32_sign (f32_of_nat n) \<and>
    f32_floor (f32_of_nat n) = f32_of_nat n"
  proof (cases "n = 0")
    case True
    have "f32_of_nat 0 = 0" by (simp add: f32_of_nat_def f32_round_def f32_signed_def Let_def)
    moreover have "f32_is_finite 0" "f32_trunc_abs 0 = 0" "\<not> f32_sign 0" "f32_floor 0 = 0" by (simp_all add: f32_eval)
    ultimately show ?thesis using True by simp
  next
    case False
    then obtain k where k: "2 ^ k \<le> n" "n < 2 ^ Suc k" using ex_power_ivl1 [of 2 n] by auto
    have "k \<le> 23"
    proof (rule ccontr)
      assume "\<not> k \<le> 23"
      then have "(2 :: nat) ^ 24 \<le> 2 ^ k" by (intro power_increasing) simp_all
      then show False using k(1) assms by linarith
    qed
    note f = f32_of_nat_fields [OF k this]
    have q: "f32_scale (f32_of_nat n) < 150 \<Longrightarrow> f32_mant (f32_of_nat n) div 2 ^ (150 - f32_scale (f32_of_nat n)) = n"
      using \<open>k \<le> 23\<close> by (simp add: f)
    have "\<not> f32_is_nan (f32_of_nat n)" "\<not> f32_is_inf (f32_of_nat n)" "f32_is_finite (f32_of_nat n)"
      using \<open>k \<le> 23\<close> f(1) by (simp_all add: f32_is_nan_def f32_is_inf_def f32_is_finite_def)
    moreover have "f32_trunc_abs (f32_of_nat n) = n"
    proof (cases "k = 23")
      case True
      then show ?thesis by (simp add: f32_trunc_abs_def f)
    next
      case False
      then show ?thesis using q \<open>k \<le> 23\<close> by (simp add: f32_trunc_abs_def f(4))
    qed
    ultimately show ?thesis using f(3) q
      by (auto simp: f32_floor_def f32_whole_def Let_def f32_of_nat_def)
  qed
  then show f: "f32_is_finite (f32_of_nat n)" "f32_trunc_abs (f32_of_nat n) = n" "\<not> f32_sign (f32_of_nat n)"
    "f32_floor (f32_of_nat n) = f32_of_nat n" by simp_all
  have "\<not> f32_is_nan (f32_of_nat n)" "\<not> f32_is_inf (f32_of_nat n)"
    using f(1) by (simp_all add: f32_is_nan_def f32_is_inf_def f32_is_finite_def)
  then show "f32_to_i32 (f32_of_nat n) = of_nat n" using assms f by (simp add: f32_to_i32_def)
  have "sint (of_nat n :: i32) = int n" using assms by (simp add: signed_of_nat signed_take_bit_int_eq_self)
  then show "f32_of_i32 (of_nat n) = f32_of_nat n" by (simp add: f32_of_i32_def f32_of_nat_def)
qed

end
