(* ===== verification/Nuts_bolts.thy ===== *)
theory Nuts_bolts
  imports Float_arith Status
begin

text \<open>
  Numbers and strings, \<^verbatim>\<open>grbl/nuts_bolts.c\<close>: printing and reading of integers and decimal
  numbers, and the small string and bit routines. A position in a line is an index; reading
  past its end gives the terminator. The conversions print backwards into a buffer of 15
  characters; here they build the string, whose length tells whether it fitted.
\<close>

section \<open>Printing\<close>

definition STRLEN_COORDVALUE :: nat where "STRLEN_COORDVALUE = 14"

definition digit_char :: "nat \<Rightarrow> char" where
  "digit_char d = char_of (d + 48)"

fun digits_to :: "nat \<Rightarrow> string \<Rightarrow> string" where
  "digits_to n s = (if n = 0 then s else digits_to (n div 10) (digit_char (n mod 10) # s))"

declare digits_to.simps [simp del]

definition uitoa :: "u32 \<Rightarrow> string" where
  "uitoa n = (if n = 0 then ''0'' else digits_to (unat n) [])"

definition froundvalues :: "f32 list" where
  "froundvalues = [0x3F000000, 0x3D4CCCCD, 0x3BA3D70A, 0x3A03126F, 0x3851B717, 0x36A7C5AC, 0x350637BD, 0x3356BF95,
     0x31ABCC77, 0x3009705F, 0x2E5BE6FF]"

text \<open>The fraction as an integer: two decimals at a time.\<close>

definition ftoa_scale :: "nat \<Rightarrow> f32 \<Rightarrow> f32" where
  "ftoa_scale decimals n =
     (let n1 = ((\<lambda>x. f32_mul x 0x42C80000) ^^ (decimals div 2)) n
      in if odd decimals then f32_mul n1 0x41200000 else n1)"

fun decimals_to :: "nat \<Rightarrow> nat \<Rightarrow> string \<Rightarrow> string" where
  "decimals_to 0 b s = s"
| "decimals_to (Suc k) b s = decimals_to k (b div 10) (digit_char (b mod 10) # s)"

definition ftoa :: "f32 \<Rightarrow> nat \<Rightarrow> string" where
  "ftoa v decimal_places =
     (let neg = f32_less v f32_0;
          n = f32_add (if neg then f32_neg v else v) (froundvalues ! decimal_places);
          a = f32_trunc_u32 n;
          frac = (if decimal_places = 0 then []
                  else decimals_to decimal_places (unat (f32_trunc_u32 (ftoa_scale decimal_places (f32_sub n (f32_of_u32 a))))) []);
          s = (if a = 0 then ''0'' else digits_to (unat a) []) @ ''.'' @ frac
      in if neg then CHR ''-'' # s else s)"

text \<open>The trailing zeros, and the decimal point if nothing is left behind it.\<close>

definition trim_float :: "string \<Rightarrow> string" where
  "trim_float s =
     (if CHR ''.'' \<in> set s
      then
        let r = dropWhile (\<lambda>c. c = CHR ''0'') (rev s)
        in rev (if r \<noteq> [] \<and> hd r = CHR ''.'' then tl r else r)
      else s)"

section \<open>Reading\<close>

definition MAX_INT_DIGITS :: nat where "MAX_INT_DIGITS = 9"

definition is_digit :: "char \<Rightarrow> bool" where
  "is_digit c \<longleftrightarrow> 48 \<le> (of_char c :: nat) \<and> (of_char c :: nat) \<le> 57"

definition digit_of :: "char \<Rightarrow> nat" where
  "digit_of c = (of_char c :: nat) - 48"

text \<open>\<^verbatim>\<open>intval * 10 + c\<close> on 32 bits.\<close>

definition times10 :: "u32 \<Rightarrow> nat \<Rightarrow> u32" where
  "times10 v d = push_bit 1 (push_bit 2 v + v) + of_nat d"

record scan =
  sc_exp :: int
  sc_ndigit :: nat
  sc_intval :: u32
  sc_decimal :: bool
  sc_ok :: bool

definition scan_start :: scan where
  "scan_start = \<lparr>sc_exp = 0, sc_ndigit = 0, sc_intval = 0, sc_decimal = False, sc_ok = False\<rparr>"

text \<open>\<^verbatim>\<open>read_uint\<close>: the loop gives the number of characters it has used, and stops with an error at a
  decimal that is not zero.\<close>

definition uint_digit :: "nat \<Rightarrow> scan \<Rightarrow> scan" where
  "uint_digit d s =
     (let s1 = s\<lparr>sc_ok := True, sc_ndigit := (if \<not> sc_decimal s \<and> (d \<noteq> 0 \<or> sc_intval s \<noteq> 0) then sc_ndigit s + 1 else sc_ndigit s)\<rparr>
      in if (sc_ndigit s1 \<le> 9 \<or> d \<le> 4) \<and> sc_intval s1 \<le> 429496729
         then s1\<lparr>sc_intval := times10 (sc_intval s1) d\<rparr>
         else if \<not> sc_decimal s1 then s1\<lparr>sc_exp := sc_exp s1 + 1\<rparr> else s1)"

fun uint_loop :: "string \<Rightarrow> nat \<Rightarrow> scan \<Rightarrow> (nat \<times> scan) option" where
  "uint_loop [] k s = Some (k, s)"
| "uint_loop (c # cs) k s =
     (if is_digit c
      then if sc_decimal s \<and> digit_of c \<noteq> 0 then None else uint_loop cs (k + 1) (uint_digit (digit_of c) s)
      else if c = CHR ''.'' \<and> \<not> sc_decimal s then uint_loop cs (k + 1) (s\<lparr>sc_decimal := True\<rparr>)
      else Some (k, s))"

definition read_uint :: "string \<Rightarrow> nat \<Rightarrow> u32 \<Rightarrow> u8 \<times> nat \<times> u32" where
  "read_uint line pos v =
     (if cstr_at line pos = CHR ''-'' then (Status_NegativeValue, pos, v)
      else
        let start = (if cstr_at line pos = CHR ''+'' then pos + 1 else pos)
        in case uint_loop (drop start line) 0 scan_start of
             None \<Rightarrow> (Status_GcodeCommandValueNotInteger, pos, v)
           | Some (k, s) \<Rightarrow> if sc_ok s then (0, start + k, sc_intval s) else (Status_BadNumberFormat, pos, v))"

definition float_digit :: "nat \<Rightarrow> scan \<Rightarrow> scan" where
  "float_digit d s =
     (let s1 = s\<lparr>sc_ok := True, sc_ndigit := (if d \<noteq> 0 \<or> sc_intval s \<noteq> 0 then sc_ndigit s + 1 else sc_ndigit s)\<rparr>
      in if sc_ndigit s1 \<le> MAX_INT_DIGITS
         then s1\<lparr>sc_exp := (if sc_decimal s1 then sc_exp s1 - 1 else sc_exp s1), sc_intval := times10 (sc_intval s1) d\<rparr>
         else if \<not> sc_decimal s1 then s1\<lparr>sc_exp := sc_exp s1 + 1\<rparr> else s1)"

fun float_loop :: "string \<Rightarrow> nat \<Rightarrow> scan \<Rightarrow> nat \<times> scan" where
  "float_loop [] k s = (k, s)"
| "float_loop (c # cs) k s =
     (if is_digit c then float_loop cs (k + 1) (float_digit (digit_of c) s)
      else if c = CHR ''.'' \<and> \<not> sc_decimal s then float_loop cs (k + 1) (s\<lparr>sc_decimal := True\<rparr>)
      else (k, s))"

text \<open>The factors are \<^verbatim>\<open>0.01f\<close>, \<^verbatim>\<open>0.1f\<close> and \<^verbatim>\<open>10.0f\<close>.\<close>

definition apply_exp :: "int \<Rightarrow> f32 \<Rightarrow> f32" where
  "apply_exp e v =
     (if f32_is_zero v then v
      else if e < 0
      then
        let v1 = ((\<lambda>x. f32_mul x 0x3C23D70A) ^^ (nat (- e) div 2)) v
        in if odd (nat (- e)) then f32_mul v1 0x3DCCCCCD else v1
      else ((\<lambda>x. f32_mul x 0x41200000) ^^ nat e) v)"

text \<open>The position and the value, or \<open>None\<close> if there is no number.\<close>

definition read_float :: "string \<Rightarrow> nat \<Rightarrow> (nat \<times> f32) option" where
  "read_float line pos =
     (let neg = (cstr_at line pos = CHR ''-'');
          start = (if neg \<or> cstr_at line pos = CHR ''+'' then pos + 1 else pos);
          (k, s) = float_loop (drop start line) 0 scan_start;
          v = apply_exp (sc_exp s) (f32_of_u32 (sc_intval s))
      in if sc_ok s then Some (start + k, if neg then f32_neg v else v) else None)"

definition isintf :: "f32 \<Rightarrow> bool" where
  "isintf v \<longleftrightarrow> \<not> f32_is_nan v \<and>
     f32_less (f32_abs (f32_sub v (if f32_sign v then f32_ceil v else f32_floor v))) 0x3A83126F"

section \<open>Strings and bits\<close>

definition strcaps :: "string \<Rightarrow> string" where
  "strcaps s = map CAPS (filter (\<lambda>c. c \<noteq> CHR '' '') s)"

function bit_count :: "u32 \<Rightarrow> nat" where
  "bit_count w = (if w = 0 then 0 else Suc (bit_count (w AND (w - 1))))"
  by pat_completeness auto

lemma and_pred_less: "w \<noteq> 0 \<Longrightarrow> w AND (w - 1) < (w :: u32)"
  by (metis measure_unat order_le_less_trans word_and_le1 word_less_nat_alt)

termination bit_count
  by (relation "measure unat") (use and_pred_less in \<open>simp_all add: word_less_nat_alt\<close>)

declare bit_count.simps [simp del]

section \<open>Counting bits\<close>

lemma pred_clears_lowest:
  assumes "bit (w :: u32) k" "\<And>i. i < k \<Longrightarrow> \<not> bit w i"
  shows "w AND (w - 1) = unset_bit k w"
proof -
  let ?v = "unset_bit k w"
  have k: "k < 32" using assms(1) bit_imp_le_length [of w k] by simp
  have d: "?v AND push_bit k 1 = 0" by (rule bit_eqI) (auto simp: bit_and_iff bit_unset_bit_iff bit_push_bit_iff bit_exp_iff)
  have "w = ?v OR push_bit k 1"
    by (rule bit_eqI) (use assms(1) in \<open>auto simp: bit_or_iff bit_unset_bit_iff bit_push_bit_iff bit_exp_iff\<close>)
  then have "w = ?v + push_bit k 1" using d by (simp add: disjunctive_add_eq_or)
  then have "w - 1 = ?v + mask k" by (simp add: mask_eq_exp_minus_1 push_bit_of_1)
  moreover have "?v AND mask k = 0"
    by (rule bit_eqI) (use assms(2) in \<open>auto simp: bit_and_iff bit_unset_bit_iff bit_mask_iff\<close>)
  ultimately have e: "w - 1 = ?v OR mask k" by (simp add: disjunctive_add_eq_or)
  show ?thesis unfolding e
    by (rule bit_eqI) (use assms(2) in \<open>auto simp: bit_and_iff bit_or_iff bit_unset_bit_iff bit_mask_iff\<close>)
qed

text \<open>
  The loop that clears the lowest set bit until none is left counts the bits that are set.
\<close>

theorem bit_count_eq_card: "bit_count w = card {i. bit w i}"
proof (induction w rule: bit_count.induct)
  case (1 w)
  show ?case
  proof (cases "w = 0")
    case True
    then show ?thesis by (simp add: bit_count.simps)
  next
    case False
    define k where "k = (LEAST i. bit w i)"
    obtain j where "bit w j" using False by (metis bit_eqI bit_0_eq bot_apply bot_bool_def)
    then have k: "bit w k" "\<And>i. i < k \<Longrightarrow> \<not> bit w i" unfolding k_def by (auto intro: LeastI dest: not_less_Least)
    have f: "finite {i. bit w i}" by (rule finite_subset [of _ "{..<32}"]) (auto dest: bit_imp_le_length)
    have e: "w AND (w - 1) = unset_bit k w" by (rule pred_clears_lowest [OF k])
    have "{i. bit (w AND (w - 1)) i} = {i. bit w i} - {k}" unfolding e by (auto simp: bit_unset_bit_iff)
    then have "card {i. bit w i} = Suc (card {i. bit (w AND (w - 1)) i})"
      using card_Suc_Diff1 [OF f, of k] k(1) by simp
    then show ?thesis using 1 [OF False] False by (simp add: bit_count.simps [of w])
  qed
qed

section \<open>Numbers that were printed are read back\<close>

fun numdigits :: "nat \<Rightarrow> nat" where
  "numdigits n = (if n = 0 then 0 else Suc (numdigits (n div 10)))"

declare numdigits.simps [simp del]

lemma numdigits_le: "n < 10 ^ k \<Longrightarrow> numdigits n \<le> k"
proof (induction k arbitrary: n)
  case 0
  then show ?case by (simp add: numdigits.simps)
next
  case (Suc k)
  then have "n div 10 < 10 ^ k" by (simp add: less_mult_imp_div_less mult.commute)
  with Suc.IH show ?case by (subst numdigits.simps) simp
qed

lemma digit_char [simp]:
  assumes "d < 10"
  shows "is_digit (digit_char d)" "digit_of (digit_char d) = d"
  using assms by (simp_all add: is_digit_def digit_of_def digit_char_def)

lemma times10_of_nat: "times10 (of_nat a) d = of_nat (10 * a + d)"
proof -
  have "push_bit 1 (push_bit 2 x + x) = 10 * x" for x :: u32 by (simp add: push_bit_eq_mult)
  then show ?thesis by (simp add: times10_def)
qed

definition scanned :: "nat \<Rightarrow> scan" where
  "scanned n = \<lparr>sc_exp = 0, sc_ndigit = numdigits n, sc_intval = of_nat n, sc_decimal = False, sc_ok = True\<rparr>"

lemma unat_of_nat_small: "n < 2 ^ 32 \<Longrightarrow> unat (of_nat n :: u32) = n"
  using unat_of_nat [of n, where 'a = 32] by simp

lemma of_nat_u32_eq_0: "n < 2 ^ 32 \<Longrightarrow> (of_nat n :: u32) = 0 \<longleftrightarrow> n = 0"
proof -
  assume n: "n < 2 ^ 32"
  have "n = 0" if "(of_nat n :: u32) = 0" using unat_of_nat_small [OF n] that by simp
  then show ?thesis by auto
qed

lemma nat_digit_split: "10 * (n div 10) + n mod 10 = (n :: nat)"
  by simp

lemma numdigits_rec: "n \<noteq> 0 \<Longrightarrow> numdigits n = Suc (numdigits (n div 10))"
  by (subst numdigits.simps) simp

lemma numdigits_0 [simp]: "numdigits 0 = 0"
  by (simp add: numdigits.simps)

lemma float_digit_scanned:
  assumes "n \<noteq> 0" "n < 10 ^ 9" "st = (if n div 10 = 0 then scan_start else scanned (n div 10))"
  shows "float_digit (n mod 10) st = scanned n"
proof -
  have nd: "Suc (numdigits (n div 10)) \<le> 9" using numdigits_le [OF assms(2)] assms(1) by (simp add: numdigits_rec)
  have nz: "(of_nat (n div 10) :: u32) = 0 \<longleftrightarrow> n div 10 = 0" using assms(2) by (intro of_nat_u32_eq_0) simp
  have z: "n div 10 = 0 \<Longrightarrow> n mod 10 \<noteq> 0" using assms(1) by (metis div_mult_mod_eq mult_zero_left add_0)
  have e: "times10 (of_nat (n div 10)) (n mod 10) = of_nat n" by (simp only: times10_of_nat nat_digit_split)
  show ?thesis
  proof (cases "n div 10 = 0")
    case True
    then show ?thesis using z nd e assms(1) True
      by (simp add: assms(3) float_digit_def scan_start_def scanned_def Let_def MAX_INT_DIGITS_def numdigits_rec)
  next
    case False
    then show ?thesis using nz nd e assms(1)
      by (simp add: assms(3) float_digit_def scanned_def Let_def MAX_INT_DIGITS_def numdigits_rec [of n])
  qed
qed

lemma uint_digit_scanned:
  assumes "n \<noteq> 0" "n < 10 ^ 9" "st = (if n div 10 = 0 then scan_start else scanned (n div 10))"
  shows "uint_digit (n mod 10) st = scanned n"
proof -
  have nd: "Suc (numdigits (n div 10)) \<le> 9" using numdigits_le [OF assms(2)] assms(1) by (simp add: numdigits_rec)
  have nz: "(of_nat (n div 10) :: u32) = 0 \<longleftrightarrow> n div 10 = 0" using assms(2) by (intro of_nat_u32_eq_0) simp
  have le: "(of_nat (n div 10) :: u32) \<le> 429496729"
    using assms(2) unat_of_nat_small [of "n div 10"] by (simp add: word_le_nat_alt)
  have z: "n div 10 = 0 \<Longrightarrow> n mod 10 \<noteq> 0" using assms(1) by (metis div_mult_mod_eq mult_zero_left add_0)
  have e: "times10 (of_nat (n div 10)) (n mod 10) = of_nat n" by (simp only: times10_of_nat nat_digit_split)
  show ?thesis
  proof (cases "n div 10 = 0")
    case True
    then show ?thesis using z nd e assms(1) True
      by (simp add: assms(3) uint_digit_def scan_start_def scanned_def Let_def numdigits_rec)
  next
    case False
    then show ?thesis using nz nd e assms(1) le
      by (simp add: assms(3) uint_digit_def scanned_def Let_def numdigits_rec [of n])
  qed
qed

lemma digits_to_rec: "n \<noteq> 0 \<Longrightarrow> digits_to n s = digits_to (n div 10) (digit_char (n mod 10) # s)"
  by (subst digits_to.simps) simp

lemma digits_to_0 [simp]: "digits_to 0 s = s"
  by (simp add: digits_to.simps)

lemma float_loop_digits:
  "n \<noteq> 0 \<Longrightarrow> n < 10 ^ 9 \<Longrightarrow> float_loop (digits_to n s) 0 scan_start = float_loop s (numdigits n) (scanned n)"
proof (induction n s rule: digits_to.induct)
  case (1 n s)
  note f = float_digit_scanned [OF "1.prems" refl]
  show ?case
  proof (cases "n div 10 = 0")
    case True
    then show ?thesis using f "1.prems"(1) by (simp add: digits_to_rec numdigits_rec)
  next
    case False
    then show ?thesis using f "1.prems" "1.IH" by (simp add: digits_to_rec [of n] numdigits_rec [of n])
  qed
qed

lemma uint_loop_digits:
  "n \<noteq> 0 \<Longrightarrow> n < 10 ^ 9 \<Longrightarrow> uint_loop (digits_to n s) 0 scan_start = uint_loop s (numdigits n) (scanned n)"
proof (induction n s rule: digits_to.induct)
  case (1 n s)
  note u = uint_digit_scanned [OF "1.prems" refl]
  have d: "\<not> sc_decimal scan_start" "\<And>n. \<not> sc_decimal (scanned n)" by (simp_all add: scan_start_def scanned_def)
  show ?case
  proof (cases "n div 10 = 0")
    case True
    then show ?thesis using u d "1.prems"(1) by (simp add: digits_to_rec numdigits_rec)
  next
    case False
    then show ?thesis using u d "1.prems" "1.IH" by (simp add: digits_to_rec [of n] numdigits_rec [of n])
  qed
qed

lemma length_digits_to: "length (digits_to n s) = numdigits n + length s"
proof (induction n s rule: digits_to.induct)
  case (1 n s)
  then show ?case by (cases "n = 0") (simp_all add: digits_to_rec numdigits_rec)
qed

lemma digits_to_append: "digits_to n (s @ t) = digits_to n s @ t"
proof (induction n s rule: digits_to.induct)
  case (1 n s)
  then show ?case by (cases "n = 0") (simp_all add: digits_to_rec)
qed

definition stops_number :: "string \<Rightarrow> bool" where
  "stops_number rest \<longleftrightarrow> \<not> is_digit (cstr_at rest 0) \<and> cstr_at rest 0 \<noteq> CHR ''.''"

lemma loops_stop:
  assumes "stops_number rest"
  shows "float_loop rest k s = (k, s)" "uint_loop rest k s = Some (k, s)"
  using assms by (cases rest; simp add: stops_number_def cstr_at_def)+

lemma cstr_at_pre [simp]: "cstr_at (pre @ s) (length pre) = cstr_at s 0"
  by (simp add: cstr_at_def nth_append)

lemma digits_to_head:
  "n \<noteq> 0 \<Longrightarrow> \<exists>d < 10. cstr_at (digits_to n s) 0 = digit_char d"
proof (induction n s rule: digits_to.induct)
  case (1 n s)
  show ?case
  proof (cases "n div 10 = 0")
    case True
    then show ?thesis using "1.prems" by (auto simp: digits_to_rec [of n] cstr_at_def intro: exI [of _ n])
  next
    case False
    then show ?thesis using "1.IH" "1.prems" by (simp add: digits_to_rec [of n])
  qed
qed

lemma digit_not_sign: "d < 10 \<Longrightarrow> digit_char d \<noteq> CHR ''-'' \<and> digit_char d \<noteq> CHR ''+''"
proof -
  assume "d < 10"
  then have "is_digit (digit_char d)" by simp
  then show ?thesis by (auto simp: is_digit_def)
qed

lemma uitoa_nz: "n \<noteq> 0 \<Longrightarrow> uitoa n @ rest = digits_to (unat n) rest"
  using digits_to_append [of "unat n" "[]" rest] by (simp add: uitoa_def)

lemma uitoa_first:
  "\<exists>d < 10. cstr_at (uitoa n @ rest) 0 = digit_char d"
proof (cases "n = 0")
  case True
  have "digit_char 0 = CHR ''0''" by code_simp
  then have "cstr_at (uitoa n @ rest) 0 = digit_char 0" using True by (simp add: uitoa_def cstr_at_def)
  then show ?thesis by (intro exI [of _ 0]) simp
next
  case False
  then have "unat n \<noteq> 0" by (simp add: unat_eq_zero)
  from digits_to_head [OF this] show ?thesis by (simp add: uitoa_nz False)
qed

lemma uitoa_signless:
  "cstr_at (uitoa n @ rest) 0 \<noteq> CHR ''-''" "cstr_at (uitoa n @ rest) 0 \<noteq> CHR ''+''"
  using uitoa_first [of n rest] digit_not_sign by metis+

lemma uitoa_loops:
  assumes "unat n < 10 ^ 9" "stops_number rest"
  obtains s where "float_loop (uitoa n @ rest) 0 scan_start = (length (uitoa n), s)"
    "uint_loop (uitoa n @ rest) 0 scan_start = Some (length (uitoa n), s)"
    "sc_ok s" "sc_exp s = 0" "sc_intval s = n"
proof (cases "n = 0")
  case True
  have d: "is_digit (CHR ''0'')" "digit_of (CHR ''0'') = 0" by (simp_all add: is_digit_def digit_of_def)
  show ?thesis
    by (rule that [of "scan_start\<lparr>sc_ok := True\<rparr>"])
      (use True d in \<open>simp_all add: uitoa_def loops_stop [OF assms(2)] float_digit_def uint_digit_def scan_start_def times10_def Let_def MAX_INT_DIGITS_def\<close>)
next
  case False
  then have u: "unat n \<noteq> 0" by (simp add: unat_eq_zero)
  have l: "length (uitoa n) = numdigits (unat n)" using False by (simp add: uitoa_def length_digits_to)
  show ?thesis
    by (rule that [of "scanned (unat n)"])
      (simp_all add: uitoa_nz [OF False] float_loop_digits [OF u assms(1)] uint_loop_digits [OF u assms(1)]
        loops_stop [OF assms(2)] l scanned_def)
qed

lemma read_float_uitoa:
  assumes "unat n < 10 ^ 9" "stops_number rest"
  shows "read_float (pre @ uitoa n @ rest) (length pre) = Some (length pre + length (uitoa n), f32_of_u32 n)"
proof -
  obtain s where s: "float_loop (uitoa n @ rest) 0 scan_start = (length (uitoa n), s)"
    "sc_ok s" "sc_exp s = 0" "sc_intval s = n" using uitoa_loops [OF assms] by metis
  then show ?thesis by (simp add: read_float_def Let_def uitoa_signless apply_exp_def)
qed

lemma read_uint_uitoa:
  assumes "unat n < 10 ^ 9" "stops_number rest"
  shows "read_uint (pre @ uitoa n @ rest) (length pre) v = (0, length pre + length (uitoa n), n)"
proof -
  obtain s where s: "uint_loop (uitoa n @ rest) 0 scan_start = Some (length (uitoa n), s)"
    "sc_ok s" "sc_exp s = 0" "sc_intval s = n" using uitoa_loops [OF assms] by metis
  then show ?thesis by (simp add: read_uint_def Let_def uitoa_signless)
qed

text \<open>
  C39. A number below a thousand million that was printed is read back, wherever it stands in a line
  and whatever follows it that is neither a digit nor a decimal point: as an integer exactly, and as a
  decimal number the conversion of that integer. The position is that of the first character behind it.
\<close>

theorem number_roundtrip:
  assumes "unat n < 10 ^ 9" "\<not> is_digit (cstr_at rest 0)" "cstr_at rest 0 \<noteq> CHR ''.''"
  shows "read_uint (pre @ uitoa n @ rest) (length pre) v = (0, length pre + length (uitoa n), n) \<and>
    read_float (pre @ uitoa n @ rest) (length pre) = Some (length pre + length (uitoa n), f32_of_u32 n)"
  using assms by (intro conjI read_uint_uitoa read_float_uitoa) (simp_all add: stops_number_def)

theorem number_roundtrip_witness:
  "read_uint (''N'' @ uitoa 120 @ ''G1'') (length ''N'') 7 = (0, 4, 120) \<and>
   read_float (''N'' @ uitoa 120 @ ''G1'') (length ''N'') = Some (4, 0x42F00000)"
proof -
  have d: "\<not> is_digit (cstr_at ''G1'' 0)" "cstr_at ''G1'' 0 \<noteq> CHR ''.''"
    by (simp_all add: cstr_at_def is_digit_def)
  have l: "length ''N'' + length (uitoa 120) = 4" "f32_of_u32 120 = 0x42F00000" by code_simp+
  from number_roundtrip [OF _ d, of 120 "''N''" 7] show ?thesis unfolding l by simp
qed

text \<open>
  Integers that are read wrongly: a decimal point followed by zeros, which is accepted, multiplies
  the value by ten for each of them, and of a number of ten digits a last digit above four is dropped.
\<close>

theorem read_uint_misreads:
  "read_uint ''10.0'' 0 v = (0, 4, 100) \<and> read_uint ''4294967295'' 0 v = (0, 10, 429496729)"
  by code_simp

section \<open>The size of printed numbers\<close>

lemma length_decimals_to: "length (decimals_to k b s) = k + length s"
  by (induction k b s rule: decimals_to.induct) simp_all

text \<open>The integer that is printed before the decimal point: the magnitude, rounded at the last decimal.\<close>

definition ftoa_whole :: "f32 \<Rightarrow> nat \<Rightarrow> u32" where
  "ftoa_whole v decimal_places =
     f32_trunc_u32 (f32_add (if f32_less v f32_0 then f32_neg v else v) (froundvalues ! decimal_places))"

lemma length_ftoa:
  "length (ftoa v d) =
     (if f32_less v f32_0 then 1 else 0) + max 1 (numdigits (unat (ftoa_whole v d))) + 1 + d"
proof -
  have p: "1 \<le> numdigits (unat w)" if "w \<noteq> 0" for w :: u32
    using that by (subst numdigits.simps) (simp add: unat_eq_zero)
  define w where "w = ftoa_whole v d"
  obtain f where f: "ftoa v d = (if f32_less v f32_0 then [CHR ''-''] else []) @
      (if w = 0 then ''0'' else digits_to (unat w) []) @ ''.'' @ f" "length f = d"
  proof (rule that)
    let ?n = "f32_add (if f32_less v f32_0 then f32_neg v else v) (froundvalues ! d)"
    let ?f = "if d = 0 then []
       else decimals_to d (unat (f32_trunc_u32 (ftoa_scale d (f32_sub ?n (f32_of_u32 (f32_trunc_u32 ?n)))))) []"
    show "ftoa v d = (if f32_less v f32_0 then [CHR ''-''] else []) @
      (if w = 0 then ''0'' else digits_to (unat w) []) @ ''.'' @ ?f"
      unfolding ftoa_def w_def ftoa_whole_def Let_def by (cases "f32_less v f32_0") simp_all
    show "length ?f = d" by (simp add: length_decimals_to)
  qed
  show ?thesis using p [of w] f(2) unfolding f(1) w_def [symmetric] by (auto simp: length_digits_to max_def)
qed

text \<open>
  C40. The size of a printed number, against a buffer for 14 characters. With up to two decimals every
  number fits, and with \<open>d\<close> decimals every number with at most \<open>12 - d\<close> digits before the point; a number
  of ten digits printed with four decimals, or one of five digits printed with nine decimals, is one
  character too long.
\<close>

theorem ftoa_fits:
  "(d \<le> 2 \<longrightarrow> length (ftoa v d) \<le> STRLEN_COORDVALUE) \<and>
   (unat (ftoa_whole v d) < 10 ^ (12 - d) \<longrightarrow> d < 12 \<longrightarrow> length (ftoa v d) \<le> STRLEN_COORDVALUE) \<and>
   length (ftoa 0x4F000000 4) = STRLEN_COORDVALUE + 1 \<and> length (ftoa 0x4640E400 9) = STRLEN_COORDVALUE + 1"
proof -
  have "unat (ftoa_whole v d) < 10 ^ 10" using unsigned_less [of "ftoa_whole v d", where 'a = nat] by simp
  from numdigits_le [OF this] have t: "numdigits (unat (ftoa_whole v d)) \<le> 10" .
  have n: "unat (ftoa_whole v d) < 10 ^ (12 - d) \<Longrightarrow> numdigits (unat (ftoa_whole v d)) \<le> 12 - d" by (rule numdigits_le)
  have e: "length (ftoa v d) \<le> 1 + max 1 (numdigits (unat (ftoa_whole v d))) + 1 + d" by (simp add: length_ftoa)
  have w: "unat (ftoa_whole 0x4F000000 4) = 2147483648" "unat (ftoa_whole 0x4640E400 9) = 12345"
    by (simp_all add: ftoa_whole_def froundvalues_def f32_eval)
  have l: "length (ftoa 0x4F000000 4) = STRLEN_COORDVALUE + 1" "length (ftoa 0x4640E400 9) = STRLEN_COORDVALUE + 1"
    using w by (simp_all add: length_ftoa STRLEN_COORDVALUE_def numdigits.simps f32_eval)
  show ?thesis
  proof (intro conjI impI l)
    assume "d \<le> 2"
    then show "length (ftoa v d) \<le> STRLEN_COORDVALUE" using e t by (simp add: STRLEN_COORDVALUE_def)
  next
    assume "unat (ftoa_whole v d) < 10 ^ (12 - d)" "d < 12"
    then show "length (ftoa v d) \<le> STRLEN_COORDVALUE" using e n by (simp add: STRLEN_COORDVALUE_def)
  qed
qed

theorem ftoa_fits_witness:
  "length (ftoa 0xC640E400 3) \<le> STRLEN_COORDVALUE \<and> length (ftoa 0xFF000000 2) \<le> STRLEN_COORDVALUE"
proof -
  have "unat (ftoa_whole 0xC640E400 3) < 10 ^ (12 - 3)" by (simp add: ftoa_whole_def froundvalues_def f32_eval)
  then show ?thesis using ftoa_fits [of 3 "0xC640E400" ] ftoa_fits [of 2 "0xFF000000"] by simp
qed

section \<open>Dates\<close>

record tm =
  tm_year :: int
  tm_mon :: int
  tm_mday :: int
  tm_hour :: int
  tm_min :: int
  tm_sec :: int

definition mdays :: "int list" where
  "mdays = [31, 28, 31, 30, 31, 30, 31, 31, 30, 31, 30, 31]"

text \<open>The number of days the code allows in the month that has been read.\<close>

definition month_days :: "tm \<Rightarrow> int" where
  "month_days dt = mdays ! nat (if tm_mon dt \<ge> 0 then tm_mon dt else 0) +
     (if tm_mon dt = 1 \<and> tm_year dt \<noteq> 100 \<and> tm_year dt mod 4 = 0 then 1 else 0)"

text \<open>What happens at a separator \<open>c\<close> behind field \<open>idx\<close>.\<close>

definition dt_field :: "char \<Rightarrow> nat \<Rightarrow> nat \<Rightarrow> tm \<Rightarrow> tm" where
  "dt_field c idx v dt =
     (if idx = 0 then if c = CHR ''-'' \<and> v \<ge> 1970 \<and> v \<le> 2099 then dt\<lparr>tm_year := int v - 1900\<rparr> else dt
      else if idx = 1 then if c = CHR ''-'' \<and> v \<ge> 1 \<and> v \<le> 12 then dt\<lparr>tm_mon := int v - 1\<rparr> else dt
      else if idx = 2 then if c = CHR ''T'' \<and> v \<ge> 1 \<and> int v \<le> month_days dt then dt\<lparr>tm_mday := int v\<rparr> else dt
      else if idx = 3 then if c = CHR '':'' \<and> v \<le> 23 then dt\<lparr>tm_hour := int v\<rparr> else dt
      else if idx = 4 then if c = CHR '':'' \<and> v \<le> 59 then dt\<lparr>tm_min := int v\<rparr> else dt
      else if idx = 5 then if (c = CHR ''Z'' \<or> c = NUL) \<and> v \<le> 59 then dt\<lparr>tm_sec := int v\<rparr> else dt
      else dt)"

definition dt_separator :: "char \<Rightarrow> bool" where
  "dt_separator c \<longleftrightarrow> c \<in> {CHR ''-'', CHR '':'', CHR ''T'', CHR ''Z'', NUL}"

fun dt_loop :: "string \<Rightarrow> nat \<Rightarrow> nat \<Rightarrow> tm \<Rightarrow> tm" where
  "dt_loop [] idx v dt = dt_field NUL idx v dt"
| "dt_loop (c # cs) idx v dt =
     (if is_digit c then dt_loop cs idx ((v * 10 + digit_of c) mod 2 ^ 32) dt
      else if \<not> dt_separator c then dt
      else dt_loop cs (idx + 1) 0 (dt_field c idx v dt))"

definition dt_unset :: tm where
  "dt_unset = \<lparr>tm_year = -1, tm_mon = -1, tm_mday = -1, tm_hour = -1, tm_min = -1, tm_sec = -1\<rparr>"

definition get_datetime :: "string \<Rightarrow> tm option" where
  "get_datetime s =
     (let dt = dt_loop s 0 0 dt_unset
      in if (tm_year dt OR tm_mon dt OR tm_mday dt OR tm_hour dt OR tm_min dt OR tm_sec dt) > 0 then Some dt else None)"

lemma int_or_neg: "(a OR b :: int) < 0 \<longleftrightarrow> a < 0 \<or> b < 0"
  using or_nonnegative_int_iff [of a b] by linarith

text \<open>Every field is unset or within its range.\<close>

definition dt_ranges :: "tm \<Rightarrow> bool" where
  "dt_ranges dt \<longleftrightarrow>
     tm_year dt \<in> insert (-1) {70..199} \<and> tm_mon dt \<in> insert (-1) {0..11} \<and> tm_hour dt \<in> {-1..23} \<and> tm_min dt \<in> {-1..59} \<and>
     tm_sec dt \<in> {-1..59} \<and> (tm_mday dt = -1 \<or> 1 \<le> tm_mday dt \<and> tm_mday dt \<le> month_days dt)"

lemma dt_field_ranges:
  assumes "dt_ranges dt" "idx \<le> 1 \<Longrightarrow> tm_mday dt = -1"
  shows "dt_ranges (dt_field c idx v dt)" "idx \<le> 0 \<Longrightarrow> tm_mday (dt_field c idx v dt) = -1"
proof -
  have m: "month_days (dt\<lparr>tm_hour := a\<rparr>) = month_days dt" "month_days (dt\<lparr>tm_min := a\<rparr>) = month_days dt"
    "month_days (dt\<lparr>tm_sec := a\<rparr>) = month_days dt" "month_days (dt\<lparr>tm_mday := a\<rparr>) = month_days dt" for a
    by (simp_all add: month_days_def)
  consider "idx = 0" | "idx = 1" | "idx = 2" | "idx = 3" | "idx = 4" | "idx = 5" | "5 < idx" by linarith
  then show "dt_ranges (dt_field c idx v dt)"
    using assms by cases (simp_all add: dt_field_def dt_ranges_def m split del: if_split split: if_split)
  show "tm_mday (dt_field c idx v dt) = -1" if "idx \<le> 0" using assms(2) that by (simp add: dt_field_def)
qed

lemma dt_loop_ranges: "dt_ranges dt \<Longrightarrow> (idx \<le> 1 \<Longrightarrow> tm_mday dt = -1) \<Longrightarrow> dt_ranges (dt_loop s idx v dt)"
proof (induction s idx v dt rule: dt_loop.induct)
  case (1 idx v dt)
  then show ?case using dt_field_ranges by simp
next
  case (2 c cs idx v dt)
  show ?case
  proof (cases "is_digit c \<or> \<not> dt_separator c")
    case True
    then show ?thesis using 2 by auto
  next
    case False
    then show ?thesis using 2 dt_field_ranges [OF 2(3), of idx c v] by simp
  qed
qed

text \<open>A date of the calendar, years from 1970 to 2099 counted from 1900.\<close>

definition leap_year :: "int \<Rightarrow> bool" where
  "leap_year y \<longleftrightarrow> y mod 4 = 0 \<and> (y mod 100 \<noteq> 0 \<or> y mod 400 = 0)"

definition valid_date :: "tm \<Rightarrow> bool" where
  "valid_date dt \<longleftrightarrow> 70 \<le> tm_year dt \<and> tm_year dt \<le> 199 \<and> 0 \<le> tm_mon dt \<and> tm_mon dt \<le> 11 \<and> 1 \<le> tm_mday dt \<and>
     tm_mday dt \<le> (if tm_mon dt = 1 \<and> leap_year (tm_year dt + 1900) then 29 else mdays ! nat (tm_mon dt)) \<and>
     0 \<le> tm_hour dt \<and> tm_hour dt \<le> 23 \<and> 0 \<le> tm_min dt \<and> tm_min dt \<le> 59 \<and> 0 \<le> tm_sec dt \<and> tm_sec dt \<le> 59"

lemma leap_year_2000s: "70 \<le> y \<Longrightarrow> y \<le> 199 \<Longrightarrow> leap_year (y + 1900) \<longleftrightarrow> y mod 4 = 0"
proof -
  assume y: "70 \<le> y" "y \<le> 199"
  have "(y + 1900) mod 4 = y mod 4" by presburger
  moreover have "(y + 1900) mod 400 = 0" if "(y + 1900) mod 100 = 0"
  proof -
    from that obtain k where "y + 1900 = 100 * k" by auto
    with y have "k = 20" by linarith
    with \<open>y + 1900 = 100 * k\<close> show ?thesis by simp
  qed
  ultimately show ?thesis by (auto simp: leap_year_def)
qed

lemma month_days_eq:
  assumes "70 \<le> tm_year dt" "tm_year dt \<le> 199" "0 \<le> tm_mon dt" "tm_mon dt \<le> 11"
  shows "month_days dt = (if tm_mon dt = 1 \<and> leap_year (tm_year dt + 1900) \<and> tm_year dt \<noteq> 100 then 29 else mdays ! nat (tm_mon dt))"
  using assms by (auto simp: month_days_def leap_year_2000s mdays_def)

definition digits2 :: "int \<Rightarrow> string" where
  "digits2 n = [digit_char (nat n div 10), digit_char (nat n mod 10)]"

definition print_date :: "tm \<Rightarrow> string" where
  "print_date dt =
     (let y = nat (tm_year dt + 1900)
      in [digit_char (y div 1000), digit_char (y div 100 mod 10), digit_char (y div 10 mod 10), digit_char (y mod 10)] @ ''-'' @
         digits2 (tm_mon dt + 1) @ ''-'' @ digits2 (tm_mday dt) @ ''T'' @ digits2 (tm_hour dt) @ '':'' @
         digits2 (tm_min dt) @ '':'' @ digits2 (tm_sec dt))"

lemma separators [simp]:
  "\<not> is_digit (CHR ''-'')" "\<not> is_digit (CHR ''T'')" "\<not> is_digit (CHR '':'')" "\<not> is_digit (CHR ''Z'')"
  "dt_separator (CHR ''-'')" "dt_separator (CHR ''T'')" "dt_separator (CHR '':'')" "dt_separator (CHR ''Z'')"
  by (simp_all add: is_digit_def dt_separator_def)

lemma dt_loop_digits2:
  assumes "0 \<le> n" "n < 100"
  shows "dt_loop (digits2 n @ s) idx 0 dt = dt_loop s idx (nat n) dt"
proof -
  have "nat n div 10 < 10" "nat n mod 10 < 10" "10 * (nat n div 10) + nat n mod 10 < 2 ^ 32" using assms by auto
  then show ?thesis by (simp add: digits2_def mult.commute)
qed

lemma dt_loop_after: "5 < idx \<Longrightarrow> dt_loop s idx v dt = dt"
  by (induction s arbitrary: idx v) (auto simp: dt_field_def)

lemma or6_pos:
  assumes "0 < (a OR b OR c OR d OR e OR f :: int)"
  shows "0 \<le> a" "0 \<le> b" "0 \<le> c" "0 \<le> d" "0 \<le> e" "0 \<le> f"
proof -
  from assms have "\<not> (a OR b OR c OR d OR e OR f) < 0" by (rule less_not_sym)
  then show "0 \<le> a" "0 \<le> b" "0 \<le> c" "0 \<le> d" "0 \<le> e" "0 \<le> f" unfolding int_or_neg by auto
qed

lemma get_datetime_Some:
  assumes "get_datetime s = Some dt"
  shows "dt = dt_loop s 0 0 dt_unset" "0 \<le> tm_year dt" "0 \<le> tm_mon dt" "0 \<le> tm_mday dt" "0 \<le> tm_hour dt" "0 \<le> tm_min dt"
    "0 \<le> tm_sec dt"
proof -
  let ?d = "dt_loop s 0 0 dt_unset"
  from assms have e: "dt = ?d" and p: "0 < (tm_year ?d OR tm_mon ?d OR tm_mday ?d OR tm_hour ?d OR tm_min ?d OR tm_sec ?d)"
    by (auto simp: get_datetime_def Let_def split: if_splits)
  show "dt = ?d" by (rule e)
  show "0 \<le> tm_year dt" "0 \<le> tm_mon dt" "0 \<le> tm_mday dt" "0 \<le> tm_hour dt" "0 \<le> tm_min dt" "0 \<le> tm_sec dt"
    unfolding e by (fact or6_pos [OF p])+
qed

lemma get_datetime_valid:
  assumes "get_datetime s = Some dt"
  shows "valid_date dt"
proof -
  note f = get_datetime_Some [OF assms]
  have "dt_ranges dt_unset" by (simp add: dt_ranges_def dt_unset_def)
  from dt_loop_ranges [OF this, of 0 s 0] have r: "dt_ranges dt" by (simp add: f(1) dt_unset_def)
  then have b: "70 \<le> tm_year dt" "tm_year dt \<le> 199" "tm_mon dt \<le> 11" using f by (auto simp: dt_ranges_def)
  have "tm_mon dt = 1 \<Longrightarrow> mdays ! nat (tm_mon dt) = 28" by (simp add: mdays_def)
  with month_days_eq [OF b(1,2) f(3) b(3)] r f b show ?thesis
    by (auto simp: dt_ranges_def valid_date_def split: if_splits)
qed

lemma dt_loop_sep:
  "\<not> is_digit c \<Longrightarrow> dt_separator c \<Longrightarrow> dt_loop (c # cs) idx v dt = dt_loop cs (idx + 1) 0 (dt_field c idx v dt)"
  by simp

lemma dt_loop_digits4:
  assumes "a < 10" "b < 10" "c < 10" "d < 10"
  shows "dt_loop (digit_char a # digit_char b # digit_char c # digit_char d # s) idx 0 dt =
    dt_loop s idx (((a * 10 + b) * 10 + c) * 10 + d) dt"
proof -
  have s: "x * 10 + d < 10 * k" if "x < k" "d < 10" for x d k :: nat
  proof -
    have "x * 10 + d < Suc x * 10" using that(2) by simp
    also have "\<dots> \<le> k * 10" using that(1) by (intro mult_le_mono1) simp
    finally show ?thesis by simp
  qed
  have "a * 10 + b < 10 * 10" "(a * 10 + b) * 10 + c < 10 * (10 * 10)" "((a * 10 + b) * 10 + c) * 10 + d < 10 * (10 * (10 * 10))"
    by (intro s assms)+
  then show ?thesis using assms by simp
qed

lemma digits4: "((n div 1000 * 10 + n div 100 mod 10) * 10 + n div 10 mod 10) * 10 + n mod 10 = (n :: nat)"
proof -
  have e: "n div 1000 = n div 10 div 10 div 10" "n div 100 = n div 10 div 10" by (simp_all add: div_mult2_eq [symmetric])
  show ?thesis unfolding e div_mult_mod_eq ..
qed

lemma dt_loop_year:
  assumes "70 \<le> y" "y \<le> 199"
  shows "dt_loop (digit_char (nat (y + 1900) div 1000) # digit_char (nat (y + 1900) div 100 mod 10) #
      digit_char (nat (y + 1900) div 10 mod 10) # digit_char (nat (y + 1900) mod 10) # s) 0 0 dt =
    dt_loop s 0 (nat (y + 1900)) dt"
proof -
  have "nat (y + 1900) div 1000 < 10" using assms by (simp add: less_mult_imp_div_less)
  then have "dt_loop (digit_char (nat (y + 1900) div 1000) # digit_char (nat (y + 1900) div 100 mod 10) #
      digit_char (nat (y + 1900) div 10 mod 10) # digit_char (nat (y + 1900) mod 10) # s) 0 0 dt =
    dt_loop s 0 (((nat (y + 1900) div 1000 * 10 + nat (y + 1900) div 100 mod 10) * 10 + nat (y + 1900) div 10 mod 10) * 10 + nat (y + 1900) mod 10) dt"
    by (intro dt_loop_digits4) simp_all
  then show ?thesis unfolding digits4 .
qed

lemma dt_loop_print:
  assumes "valid_date dt" "\<not> (tm_year dt = 100 \<and> tm_mon dt = 1 \<and> tm_mday dt = 29)" "rest = [] \<or> hd rest = CHR ''Z''"
  shows "dt_loop (print_date dt @ rest) 0 0 dt_unset = dt"
proof -
  from assms(1) have v: "70 \<le> tm_year dt" "tm_year dt \<le> 199" "0 \<le> tm_mon dt" "tm_mon dt \<le> 11" "1 \<le> tm_mday dt"
    "0 \<le> tm_hour dt" "tm_hour dt \<le> 23" "0 \<le> tm_min dt" "tm_min dt \<le> 59" "0 \<le> tm_sec dt" "tm_sec dt \<le> 59"
    by (simp_all add: valid_date_def)
  have x: "mdays ! nat (tm_mon dt) \<le> 31"
  proof -
    have "\<forall>x\<in>set mdays. x \<le> 31" "nat (tm_mon dt) < length mdays" using v(4) by (simp_all add: mdays_def)
    then show ?thesis by simp
  qed
  have d: "tm_mday dt \<le> month_days dt" "month_days dt \<le> 31"
    using assms(1,2) x month_days_eq [OF v(1-4)] by (auto simp: valid_date_def mdays_def split: if_splits)
  let ?d1 = "dt_unset\<lparr>tm_year := tm_year dt\<rparr>"
  let ?d2 = "?d1\<lparr>tm_mon := tm_mon dt\<rparr>"
  let ?d5 = "?d2\<lparr>tm_mday := tm_mday dt, tm_hour := tm_hour dt, tm_min := tm_min dt\<rparr>"
  have m: "month_days ?d2 = month_days dt" by (simp add: month_days_def)
  have l: "dt_loop rest (0 + 1 + 1 + 1 + 1 + 1) (nat (tm_sec dt)) ?d5 = dt"
    using assms(3) v by (cases rest) (auto simp: dt_field_def dt_unset_def dt_loop_after)
  have r: "1970 \<le> nat (tm_year dt + 1900)" "nat (tm_year dt + 1900) \<le> 2099" "1 \<le> nat (tm_mon dt + 1)"
    "nat (tm_mon dt + 1) \<le> 12" "1 \<le> nat (tm_mday dt)" using v by linarith+
  have f: "dt_field (CHR ''-'') 0 (nat (tm_year dt + 1900)) dt_unset = ?d1"
    "dt_field (CHR ''-'') (0 + 1) (nat (tm_mon dt + 1)) ?d1 = ?d2"
    "dt_field (CHR ''T'') (0 + 1 + 1) (nat (tm_mday dt)) ?d2 = ?d2\<lparr>tm_mday := tm_mday dt\<rparr>"
    using v d m r by (simp_all add: dt_field_def)
  have g: "dt_field (CHR '':'') (0 + 1 + 1 + 1) (nat (tm_hour dt)) x = x\<lparr>tm_hour := tm_hour dt\<rparr>"
    "dt_field (CHR '':'') (0 + 1 + 1 + 1 + 1) (nat (tm_min dt)) x = x\<lparr>tm_min := tm_min dt\<rparr>" for x
    using v by (simp_all add: dt_field_def)
  have b: "0 \<le> tm_mon dt + 1" "tm_mon dt + 1 < 100" "0 \<le> tm_mday dt" "tm_mday dt < 100" "tm_hour dt < 100" "tm_min dt < 100"
    "tm_sec dt < 100" using v d by linarith+
  show ?thesis
    unfolding print_date_def Let_def append_assoc append_Cons append_Nil dt_loop_year [OF v(1,2)]
      dt_loop_sep [OF separators(1,5)] f(1) dt_loop_digits2 [OF b(1,2)] f(2) dt_loop_digits2 [OF b(3,4)]
      dt_loop_sep [OF separators(2,6)] f(3) dt_loop_digits2 [OF v(6) b(5)] dt_loop_sep [OF separators(3,7)] g
      dt_loop_digits2 [OF v(8) b(6)] dt_loop_digits2 [OF v(10) b(7)]
    by (rule l)
qed

text \<open>
  A date and time that is accepted is one of the calendar, whatever the text was, and every date of
  the years 1970 to 2099 that is printed in the ISO format is read back, with or without a zone behind
  it, except for 29 February 2000, which is refused.
\<close>

theorem get_datetime_correct:
  "(get_datetime s = Some dt \<longrightarrow> valid_date dt) \<and>
   (valid_date dt \<longrightarrow> rest = [] \<or> hd rest = CHR ''Z'' \<longrightarrow> \<not> (tm_year dt = 100 \<and> tm_mon dt = 1 \<and> tm_mday dt = 29) \<longrightarrow>
      get_datetime (print_date dt @ rest) = Some dt) \<and>
   get_datetime ''2000-02-29T12:00:00'' = None"
proof (intro conjI impI)
  assume v: "valid_date dt"
    and r: "rest = [] \<or> hd rest = CHR ''Z''" "\<not> (tm_year dt = 100 \<and> tm_mon dt = 1 \<and> tm_mday dt = 29)"
  let ?x = "tm_year dt OR tm_mon dt OR tm_mday dt OR tm_hour dt OR tm_min dt OR tm_sec dt"
  have "0 \<le> ?x" using v by (simp add: valid_date_def)
  moreover have "?x \<noteq> 0" using v by (simp add: valid_date_def or_eq_0_iff)
  ultimately have "0 < ?x" by linarith
  then show "get_datetime (print_date dt @ rest) = Some dt"
    by (simp add: get_datetime_def dt_loop_print [OF v r(2,1)])
next
  show "get_datetime ''2000-02-29T12:00:00'' = None" by code_simp
qed (rule get_datetime_valid)

theorem get_datetime_correct_witness:
  "get_datetime (print_date \<lparr>tm_year = 124, tm_mon = 1, tm_mday = 29, tm_hour = 23, tm_min = 5, tm_sec = 0\<rparr> @ ''Z'') =
     Some \<lparr>tm_year = 124, tm_mon = 1, tm_mday = 29, tm_hour = 23, tm_min = 5, tm_sec = 0\<rparr>"
proof -
  have "valid_date \<lparr>tm_year = 124, tm_mon = 1, tm_mday = 29, tm_hour = 23, tm_min = 5, tm_sec = 0\<rparr>"
    by (simp add: valid_date_def leap_year_def)
  then show ?thesis using get_datetime_correct [where s = "[]" and rest = "''Z''"] by simp
qed

end
