(* ===== verification/Ngc_expr.thy ===== *)
theory Ngc_expr
  imports Ngc_params Nuts_bolts
begin

text \<open>
  The expression evaluator of the G-code interpreter, \<^verbatim>\<open>grbl/ngc_expr.c\<close>: numbers, parameters, unary
  functions and binary operators in square brackets, evaluated with two stacks of seven entries, and
  the substitution of parameters in messages. A position is an index in the line; the line ends at its
  length, where the terminator is, and an access behind that, outside the stacks or behind a name buffer
  is the result \<open>None\<close>. The readers call each other recursively: \<open>real_value\<close> has the depth of the
  recursion as an argument (\<open>None\<close> if it is used up), and the other readers take the reader they
  call as an argument.

  The functions of the C mathematics library and of the settings module are in an environment, and so are
  the contents of local variables of the code that have not been set, \<open>ex_junk\<close>, by the position in the line at
  which the variable came into being.
\<close>

section \<open>Data\<close>

datatype setting_value = Setting_none | Setting_decimal f32 | Setting_int u32 | Setting_other

record expr_env =
  ex_powf :: "f32 \<Rightarrow> f32 \<Rightarrow> f32"
  ex_acosf :: "f32 \<Rightarrow> f32"
  ex_asinf :: "f32 \<Rightarrow> f32"
  ex_atan2f :: "f32 \<Rightarrow> f32 \<Rightarrow> f32"
  ex_cosf :: "f32 \<Rightarrow> f32"
  ex_expf :: "f32 \<Rightarrow> f32"
  ex_logf :: "f32 \<Rightarrow> f32"
  ex_sinf :: "f32 \<Rightarrow> f32"
  ex_sqrtf :: "f32 \<Rightarrow> f32"
  ex_tanf :: "f32 \<Rightarrow> f32"
  ex_ro_get :: "u16 \<Rightarrow> f32"
  ex_named_get :: "string \<Rightarrow> f32"
  ex_setting :: "i32 \<Rightarrow> setting_value"
  ex_float_decimals :: nat
  ex_debug_out :: bool
  ex_junk :: "nat \<Rightarrow> nat \<Rightarrow> f32"

definition MAX_STACK :: nat where "MAX_STACK = 7"

datatype ngc_binary_op =
    NGCBinaryOp_NoOp | NGCBinaryOp_DividedBy | NGCBinaryOp_Modulo | NGCBinaryOp_Power | NGCBinaryOp_Times
  | NGCBinaryOp_And2 | NGCBinaryOp_ExclusiveOR | NGCBinaryOp_Minus | NGCBinaryOp_NotExclusiveOR | NGCBinaryOp_Plus
  | NGCBinaryOp_RightBracket | NGCBinaryOp_LT | NGCBinaryOp_EQ | NGCBinaryOp_NE | NGCBinaryOp_LE | NGCBinaryOp_GE
  | NGCBinaryOp_GT

datatype ngc_unary_op =
    NGCUnaryOp_ABS | NGCUnaryOp_ACOS | NGCUnaryOp_ASIN | NGCUnaryOp_ATAN | NGCUnaryOp_COS | NGCUnaryOp_EXP
  | NGCUnaryOp_FIX | NGCUnaryOp_FUP | NGCUnaryOp_LN | NGCUnaryOp_Round | NGCUnaryOp_SIN | NGCUnaryOp_SQRT
  | NGCUnaryOp_TAN | NGCUnaryOp_Exists | NGCUnaryOp_Parameter

definition TOLERANCE_EQUAL :: f32 where "TOLERANCE_EQUAL = 0x38D1B717"

definition DEGRAD :: f32 where "DEGRAD = 0x42652EE1"

definition RADDEG :: f32 where "RADDEG = 0x3C8EFA35"

definition f32_bool :: "bool \<Rightarrow> f32" where
  "f32_bool b = (if b then f32_1 else f32_0)"

section \<open>Operators\<close>

text \<open>The status and the value that is left in the left operand.\<close>

fun execute_binary1 :: "expr_env \<Rightarrow> f32 \<Rightarrow> ngc_binary_op \<Rightarrow> f32 \<Rightarrow> u8 \<times> f32" where
  "execute_binary1 e lhs NGCBinaryOp_DividedBy rhs =
     (if f32_is_zero rhs then (Status_ExpressionDivideByZero, lhs) else (0, f32_div lhs rhs))"
| "execute_binary1 e lhs NGCBinaryOp_Modulo rhs =
     (let r = f32_fmod lhs rhs in (0, if f32_less r f32_0 then f32_add r (f32_abs rhs) else r))"
| "execute_binary1 e lhs NGCBinaryOp_Power rhs =
     (if f32_less lhs f32_0 \<and> \<not> f32_eq (f32_floor rhs) rhs then (Status_ExpressionInvalidArgument, lhs)
      else (0, ex_powf e lhs rhs))"
| "execute_binary1 e lhs NGCBinaryOp_Times rhs = (0, f32_mul lhs rhs)"
| "execute_binary1 e lhs _ rhs = (Status_ExpressionUknownOp, lhs)"

definition f32_diff :: "f32 \<Rightarrow> f32 \<Rightarrow> f32" where
  "f32_diff a b = (let d = f32_sub a b in if f32_less d f32_0 then f32_neg d else d)"

text \<open>A NaN is not equal to zero, so it counts as true.\<close>

fun execute_binary2 :: "f32 \<Rightarrow> ngc_binary_op \<Rightarrow> f32 \<Rightarrow> u8 \<times> f32" where
  "execute_binary2 lhs NGCBinaryOp_And2 rhs = (0, f32_bool (\<not> (f32_is_zero lhs \<or> f32_is_zero rhs)))"
| "execute_binary2 lhs NGCBinaryOp_ExclusiveOR rhs = (0, f32_bool (f32_is_zero lhs \<noteq> f32_is_zero rhs))"
| "execute_binary2 lhs NGCBinaryOp_Minus rhs = (0, f32_sub lhs rhs)"
| "execute_binary2 lhs NGCBinaryOp_NotExclusiveOR rhs = (0, f32_bool (\<not> f32_is_zero lhs \<or> \<not> f32_is_zero rhs))"
| "execute_binary2 lhs NGCBinaryOp_Plus rhs = (0, f32_add lhs rhs)"
| "execute_binary2 lhs NGCBinaryOp_LT rhs = (0, f32_bool (f32_less lhs rhs))"
| "execute_binary2 lhs NGCBinaryOp_EQ rhs = (0, f32_bool (f32_less (f32_diff lhs rhs) TOLERANCE_EQUAL))"
| "execute_binary2 lhs NGCBinaryOp_NE rhs = (0, f32_bool (f32_le TOLERANCE_EQUAL (f32_diff lhs rhs)))"
| "execute_binary2 lhs NGCBinaryOp_LE rhs = (0, f32_bool (f32_le lhs rhs))"
| "execute_binary2 lhs NGCBinaryOp_GE rhs = (0, f32_bool (f32_le rhs lhs))"
| "execute_binary2 lhs NGCBinaryOp_GT rhs = (0, f32_bool (f32_less rhs lhs))"
| "execute_binary2 lhs _ rhs = (Status_ExpressionUknownOp, lhs)"

text \<open>\<^verbatim>\<open>operation <= NGCBinaryOp_Binary2\<close>.\<close>

definition execute_binary :: "expr_env \<Rightarrow> f32 \<Rightarrow> ngc_binary_op \<Rightarrow> f32 \<Rightarrow> u8 \<times> f32" where
  "execute_binary e lhs operation rhs =
     (if operation \<in> {NGCBinaryOp_NoOp, NGCBinaryOp_DividedBy, NGCBinaryOp_Modulo, NGCBinaryOp_Power, NGCBinaryOp_Times}
      then execute_binary1 e lhs operation rhs
      else execute_binary2 lhs operation rhs)"

definition f32_minus1 :: f32 where "f32_minus1 = 0xBF800000"

definition f32_round_half :: "f32 \<Rightarrow> f32" where
  "f32_round_half v = f32_of_i32 (f32_to_i32 (f32_add v (if f32_less v f32_0 then 0xBF000000 else 0x3F000000)))"

fun execute_unary :: "expr_env \<Rightarrow> f32 \<Rightarrow> ngc_unary_op \<Rightarrow> u8 \<times> f32" where
  "execute_unary e v NGCUnaryOp_ABS = (0, if f32_less v f32_0 then f32_mul f32_minus1 v else v)"
| "execute_unary e v NGCUnaryOp_ACOS =
     (if f32_less v f32_minus1 \<or> f32_less f32_1 v then (Status_ExpressionArgumentOutOfRange, v)
      else (0, f32_mul (ex_acosf e v) DEGRAD))"
| "execute_unary e v NGCUnaryOp_ASIN =
     (if f32_less v f32_minus1 \<or> f32_less f32_1 v then (Status_ExpressionArgumentOutOfRange, v)
      else (0, f32_mul (ex_asinf e v) DEGRAD))"
| "execute_unary e v NGCUnaryOp_COS = (0, ex_cosf e (f32_mul v RADDEG))"
| "execute_unary e v NGCUnaryOp_Exists = (0, v)"
| "execute_unary e v NGCUnaryOp_EXP = (0, ex_expf e v)"
| "execute_unary e v NGCUnaryOp_FIX = (0, f32_floor v)"
| "execute_unary e v NGCUnaryOp_FUP = (0, f32_ceil v)"
| "execute_unary e v NGCUnaryOp_LN =
     (if f32_le v f32_0 then (Status_ExpressionArgumentOutOfRange, v) else (0, ex_logf e v))"
| "execute_unary e v NGCUnaryOp_Round = (0, f32_round_half v)"
| "execute_unary e v NGCUnaryOp_SIN = (0, ex_sinf e (f32_mul v RADDEG))"
| "execute_unary e v NGCUnaryOp_SQRT =
     (if f32_less v f32_0 then (Status_ExpressionArgumentOutOfRange, v) else (0, ex_sqrtf e v))"
| "execute_unary e v NGCUnaryOp_TAN = (0, ex_tanf e (f32_mul v RADDEG))"
| "execute_unary e v _ = (Status_ExpressionUknownOp, v)"

fun precedence :: "ngc_binary_op \<Rightarrow> nat" where
  "precedence NGCBinaryOp_RightBracket = 1"
| "precedence NGCBinaryOp_And2 = 2"
| "precedence NGCBinaryOp_ExclusiveOR = 2"
| "precedence NGCBinaryOp_NotExclusiveOR = 2"
| "precedence NGCBinaryOp_LT = 3"
| "precedence NGCBinaryOp_EQ = 3"
| "precedence NGCBinaryOp_NE = 3"
| "precedence NGCBinaryOp_LE = 3"
| "precedence NGCBinaryOp_GE = 3"
| "precedence NGCBinaryOp_GT = 3"
| "precedence NGCBinaryOp_Minus = 4"
| "precedence NGCBinaryOp_Plus = 4"
| "precedence NGCBinaryOp_NoOp = 5"
| "precedence NGCBinaryOp_DividedBy = 5"
| "precedence NGCBinaryOp_Modulo = 5"
| "precedence NGCBinaryOp_Times = 5"
| "precedence NGCBinaryOp_Power = 6"

section \<open>Reading the names of operators\<close>

text \<open>The operator and the position behind it, or the status and the position.\<close>

definition read_operation :: "string \<Rightarrow> nat \<Rightarrow> (ngc_binary_op \<times> nat) + (u8 \<times> nat)" where
  "read_operation line pos0 =
     (let c = cstr_at line pos0; pos = pos0 + 1; c1 = cstr_at line pos; err = Inr (Status_ExpressionUknownOp, pos)
      in if c = CHR ''+'' then Inl (NGCBinaryOp_Plus, pos)
         else if c = CHR ''-'' then Inl (NGCBinaryOp_Minus, pos)
         else if c = CHR ''/'' then Inl (NGCBinaryOp_DividedBy, pos)
         else if c = CHR ''*'' then
           (if c1 = CHR ''*'' then Inl (NGCBinaryOp_Power, pos + 1) else Inl (NGCBinaryOp_Times, pos))
         else if c = CHR '']'' then Inl (NGCBinaryOp_RightBracket, pos)
         else if c = CHR ''A'' then
           (if starts_with (drop pos line) ''ND'' then Inl (NGCBinaryOp_And2, pos + 2) else err)
         else if c = CHR ''M'' then
           (if starts_with (drop pos line) ''OD'' then Inl (NGCBinaryOp_Modulo, pos + 2) else err)
         else if c = CHR ''O'' then
           (if c1 = CHR ''R'' then Inl (NGCBinaryOp_NotExclusiveOR, pos + 1) else err)
         else if c = CHR ''X'' then
           (if starts_with (drop pos line) ''OR'' then Inl (NGCBinaryOp_ExclusiveOR, pos + 2) else err)
         else if c = CHR ''E'' then
           (if c1 = CHR ''Q'' then Inl (NGCBinaryOp_EQ, pos + 1) else err)
         else if c = CHR ''N'' then
           (if c1 = CHR ''E'' then Inl (NGCBinaryOp_NE, pos + 1) else err)
         else if c = CHR ''G'' then
           (if c1 = CHR ''E'' then Inl (NGCBinaryOp_GE, pos + 1)
            else if c1 = CHR ''T'' then Inl (NGCBinaryOp_GT, pos + 1) else err)
         else if c = CHR ''L'' then
           (if c1 = CHR ''E'' then Inl (NGCBinaryOp_LE, pos + 1)
            else if c1 = CHR ''T'' then Inl (NGCBinaryOp_LT, pos + 1) else err)
         else err)"

definition read_operation_unary :: "string \<Rightarrow> nat \<Rightarrow> (ngc_unary_op \<times> nat) + (u8 \<times> nat)" where
  "read_operation_unary line pos0 =
     (let c = cstr_at line pos0; pos = pos0 + 1; rest = drop pos line; err = Inr (Status_ExpressionUknownOp, pos)
      in if c = CHR ''A'' then
           (if starts_with rest ''BS'' then Inl (NGCUnaryOp_ABS, pos + 2)
            else if starts_with rest ''COS'' then Inl (NGCUnaryOp_ACOS, pos + 3)
            else if starts_with rest ''SIN'' then Inl (NGCUnaryOp_ASIN, pos + 3)
            else if starts_with rest ''TAN'' then Inl (NGCUnaryOp_ATAN, pos + 3) else err)
         else if c = CHR ''C'' then
           (if starts_with rest ''OS'' then Inl (NGCUnaryOp_COS, pos + 2) else err)
         else if c = CHR ''E'' then
           (if starts_with rest ''XP'' then Inl (NGCUnaryOp_EXP, pos + 2)
            else if starts_with rest ''XISTS'' then Inl (NGCUnaryOp_Exists, pos + 5) else err)
         else if c = CHR ''F'' then
           (if starts_with rest ''IX'' then Inl (NGCUnaryOp_FIX, pos + 2)
            else if starts_with rest ''UP'' then Inl (NGCUnaryOp_FUP, pos + 2) else err)
         else if c = CHR ''L'' then
           (if cstr_at line pos = CHR ''N'' then Inl (NGCUnaryOp_LN, pos + 1) else err)
         else if c = CHR ''R'' then
           (if starts_with rest ''OUND'' then Inl (NGCUnaryOp_Round, pos + 4) else err)
         else if c = CHR ''S'' then
           (if starts_with rest ''IN'' then Inl (NGCUnaryOp_SIN, pos + 2)
            else if starts_with rest ''QRT'' then Inl (NGCUnaryOp_SQRT, pos + 3) else err)
         else if c = CHR ''T'' then
           (if starts_with rest ''AN'' then Inl (NGCUnaryOp_TAN, pos + 2) else err)
         else if c = CHR ''P'' then
           (if starts_with rest ''RM'' then Inl (NGCUnaryOp_Parameter, pos + 2) else err)
         else err)"

section \<open>Readers\<close>

text \<open>A reader takes the position and what the variable for the result holds, and gives the status, the
  position and what the variable holds then.\<close>

type_synonym reader = "nat \<Rightarrow> f32 \<Rightarrow> (u8 \<times> nat \<times> f32) option"

fun name_loop :: "string \<Rightarrow> nat \<Rightarrow> string \<times> char" where
  "name_loop [] len = ([], NUL)"
| "name_loop (c # cs) len =
     (if c \<noteq> NUL \<and> c \<noteq> CHR ''>'' \<and> len \<le> NGC_MAX_PARAM_LENGTH
      then let (n, t) = name_loop cs (len + 1) in (LCAPS c # n, t)
      else ([], c))"

definition ngc_read_name :: "string \<Rightarrow> nat \<Rightarrow> u8 \<times> nat \<times> string" where
  "ngc_read_name line pos =
     (if cstr_at line pos = CHR ''<''
      then
        let (n, t) = name_loop (drop (pos + 1) line) 0; pos1 = pos + 1 + length n
        in if t = CHR ''>'' then (Status_OK, pos1 + 1, n) else (Status_FlowControlSyntaxError, pos1, n)
      else (Status_BadNumberFormat, pos + 1, []))"

text \<open>\<^verbatim>\<open>0.9999f\<close> and \<^verbatim>\<open>0.0001f\<close>. The conversion of the value rounded up is to an unsigned number.\<close>

definition integer_of :: "f32 \<Rightarrow> u8 \<times> i32" where
  "integer_of fvalue =
     (let v = f32_to_i32 (f32_floor fvalue); d = f32_sub fvalue (f32_of_i32 v)
      in if f32_less 0x3F7FF972 d then (Status_OK, f32_trunc_u32 (f32_ceil fvalue))
         else if f32_less 0x38D1B717 d then (Status_GcodeCommandValueNotInteger, v)
         else (Status_OK, v))"

definition read_integer_value :: "expr_env \<Rightarrow> reader \<Rightarrow> nat \<Rightarrow> (u8 \<times> nat \<times> i32) option" where
  "read_integer_value e rv pos =
     (case rv pos (ex_junk e pos 0) of
        None \<Rightarrow> None
      | Some (st, pos1, fvalue) \<Rightarrow>
          if st = Status_OK then let (st1, v) = integer_of fvalue in Some (st1, pos1, v) else Some (st, pos1, 0))"

definition ngc_read_integer_unsigned :: "string \<Rightarrow> nat \<Rightarrow> u32 \<Rightarrow> u8 \<times> nat \<times> u32" where
  "ngc_read_integer_unsigned line pos v =
     (if cstr_at line pos = CHR ''+'' then (Status_GcodeCommandValueNotInteger, pos, v) else read_uint line pos v)"

text \<open>A name of 31 characters does not leave room for the terminator in the buffer of \<^verbatim>\<open>ngc_read_parameter\<close>.\<close>

definition read_parameter ::
    "expr_env \<Rightarrow> 'm ngc_params \<Rightarrow> string \<Rightarrow> bool \<Rightarrow> reader \<Rightarrow> reader" where
  "read_parameter e p line check rv pos0 v0 =
     (if cstr_at line pos0 = CHR ''#''
      then
        let pos = pos0 + 1
        in if cstr_at line pos = CHR ''<''
           then
             let (st, pos1, name) = ngc_read_name line pos
             in if st = Status_OK
                then if length name > NGC_MAX_PARAM_LENGTH then None
                     else let (ok, v) = ngc_named_param_get (ex_named_get e) name v0 p
                          in Some (if ok then Status_OK else Status_BadNumberFormat, pos1, v)
                else Some (st, pos1, v0)
           else
             (case read_integer_value e rv pos of
                None \<Rightarrow> None
              | Some (st, pos1, param) \<Rightarrow>
                  if st = Status_OK
                  then if sint param < 0 \<or> check \<and> \<not> ngc_param_exists (ucast param)
                       then Some (Status_GcodeValueOutOfRange, pos1, v0)
                       else let (ok, v) = ngc_param_get (ex_ro_get e) (ucast param) p
                            in Some (if ok then Status_OK else Status_GcodeValueOutOfRange, pos1, v)
                  else Some (st, pos1, v0))
      else Some (Status_BadNumberFormat, pos0, v0))"

section \<open>Expressions in brackets\<close>

text \<open>The operators on the stack are reduced while the one on top does not bind stronger than the one below.\<close>

fun reduce :: "expr_env \<Rightarrow> nat \<Rightarrow> f32 list \<Rightarrow> ngc_binary_op list \<Rightarrow> u8 \<times> nat \<times> f32 list \<times> ngc_binary_op list" where
  "reduce e 0 vs ops = (Status_OK, 0, vs, ops)"
| "reduce e (Suc i) vs ops =
     (if precedence (ops ! Suc i) \<le> precedence (ops ! i)
      then
        let (st, v) = execute_binary e (vs ! i) (ops ! i) (vs ! Suc i); vs1 = vs[i := v]
        in if st \<noteq> Status_OK then (st, Suc i, vs1, ops)
           else
             let ops1 = ops[i := ops ! Suc i]
             in if i > 0 \<and> precedence (ops1 ! i) \<le> precedence (ops1 ! (i - 1))
                then reduce e i vs1 ops1
                else (Status_OK, Suc i, vs1, ops1)
      else (Status_OK, Suc i, vs, ops))"

text \<open>The status, the position and the stack of values. Each pass of the loop reads at least one character, so
  the first argument of the loop, the number of passes, is not used up.\<close>

fun eval_loop ::
    "expr_env \<Rightarrow> string \<Rightarrow> reader \<Rightarrow> nat \<Rightarrow> nat \<Rightarrow> f32 list \<Rightarrow> ngc_binary_op list \<Rightarrow> nat \<Rightarrow> (u8 \<times> nat \<times> f32 list) option"
where
  "eval_loop e line rv 0 pos vs ops i = None"
| "eval_loop e line rv (Suc n) pos vs ops i =
     (if ops ! 0 = NGCBinaryOp_RightBracket then Some (Status_OK, pos, vs)
      else if i \<ge> MAX_STACK then None
      else
        (case rv pos (vs ! i) of
           None \<Rightarrow> None
         | Some (st, pos1, v) \<Rightarrow>
             if st \<noteq> Status_OK then Some (st, pos1, vs)
             else if pos1 > length line then None
             else
               (case read_operation line pos1 of
                  Inr (st, pos2) \<Rightarrow> Some (st, pos2, vs)
                | Inl (op, pos2) \<Rightarrow>
                    let vs1 = vs[i := v]; ops1 = ops[i := op]
                    in if precedence (ops1 ! i) > precedence (ops1 ! (i - 1))
                       then eval_loop e line rv n pos2 vs1 ops1 (i + 1)
                       else
                         (case reduce e i vs1 ops1 of
                            (st, i1, vs2, ops2) \<Rightarrow>
                              if st \<noteq> Status_OK then Some (st, pos2, vs2)
                              else eval_loop e line rv n pos2 vs2 ops2 i1))))"

definition eval_expression :: "expr_env \<Rightarrow> string \<Rightarrow> reader \<Rightarrow> reader" where
  "eval_expression e line rv pos0 v0 =
     (if pos0 > length line then None
      else if cstr_at line pos0 \<noteq> CHR ''['' then Some (Status_GcodeUnsupportedCommand, pos0, v0)
      else
        let vs = map (ex_junk e pos0) [0..<MAX_STACK]; ops = replicate MAX_STACK NGCBinaryOp_NoOp
        in (case rv (pos0 + 1) (vs ! 0) of
              None \<Rightarrow> None
            | Some (st, pos1, v) \<Rightarrow>
                if st \<noteq> Status_OK then Some (st, pos1, v0)
                else if pos1 > length line then None
                else
                  (case read_operation line pos1 of
                     Inr (st, pos2) \<Rightarrow> Some (st, pos2, v0)
                   | Inl (op, pos2) \<Rightarrow>
                       (case eval_loop e line rv (Suc (length line)) pos2 (vs[0 := v]) (ops[0 := op]) 1 of
                          None \<Rightarrow> None
                        | Some (st, pos3, vs1) \<Rightarrow>
                            Some (st, pos3, if st = Status_OK then vs1 ! 0 else v0)))))"

section \<open>Unary functions\<close>

definition read_atan :: "expr_env \<Rightarrow> string \<Rightarrow> reader \<Rightarrow> reader" where
  "read_atan e line rv pos v0 =
     (if pos > length line then None
      else if cstr_at line pos \<noteq> CHR ''/'' then Some (Status_ExpressionSyntaxError, pos, v0)
      else if cstr_at line (pos + 1) \<noteq> CHR ''['' then Some (Status_ExpressionSyntaxError, pos + 1, v0)
      else
        (case eval_expression e line rv (pos + 1) (ex_junk e pos 1) of
           None \<Rightarrow> None
         | Some (st, pos1, argument2) \<Rightarrow>
             Some (st, pos1, if st = Status_OK then f32_mul (ex_atan2f e v0 argument2) DEGRAD else v0)))"

text \<open>\<^verbatim>\<open>EXISTS[#<name>]\<close>, from the position of the number sign on.\<close>

definition read_exists :: "expr_env \<Rightarrow> 'm ngc_params \<Rightarrow> string \<Rightarrow> nat \<Rightarrow> f32 \<Rightarrow> u8 \<times> nat \<times> f32" where
  "read_exists e p line arg v0 =
     (let a = arg + 2;
          s = a + length (takeWhile (\<lambda>c. c \<noteq> NUL \<and> c \<noteq> CHR '']'') (drop a line))
      in if cstr_at line arg = CHR ''#'' \<and> cstr_at line (arg + 1) = CHR ''<'' \<and>
            cstr_at line s = CHR '']'' \<and> cstr_at line (s - 1) = CHR ''>''
         then (Status_OK, s + 1,
               f32_bool (ngc_named_param_exists (ex_named_get e) (take (s - 1 - a) (drop a line)) p))
         else (Status_ExpressionSyntaxError, arg, v0))"

definition setting_result :: "expr_env \<Rightarrow> i32 \<Rightarrow> i32 option \<Rightarrow> f32 \<Rightarrow> u8 \<times> f32" where
  "setting_result e setting_id bitnum v0 =
     (case ex_setting e setting_id of
        Setting_decimal v \<Rightarrow> (Status_OK, v)
      | Setting_int n \<Rightarrow>
          (let v = f32_of_u32 n
           in (Status_OK,
               case bitnum of
                 None \<Rightarrow> v
               | Some b \<Rightarrow> f32_bool (drop_bit (unat b) (f32_trunc_u32 v) AND 1 \<noteq> 0)))
      | _ \<Rightarrow> (Status_ExpressionArgumentOutOfRange, v0))"

text \<open>\<^verbatim>\<open>PRM[id]\<close> and \<^verbatim>\<open>PRM[id,bit]\<close>, behind the left bracket.\<close>

definition read_prm :: "expr_env \<Rightarrow> string \<Rightarrow> reader \<Rightarrow> reader" where
  "read_prm e line rv pos v0 =
     (case read_integer_value e rv pos of
        None \<Rightarrow> None
      | Some (st, pos1, setting_id) \<Rightarrow>
          if st \<noteq> Status_OK then Some (st, pos1, v0)
          else if pos1 > length line then None
          else
            let close = (\<lambda>pos2 bitnum.
                  if pos2 > length line then None
                  else if cstr_at line pos2 \<noteq> CHR '']'' then Some (Status_ExpressionSyntaxError, pos2, v0)
                  else let (st, v) = setting_result e setting_id bitnum v0 in Some (st, pos2 + 1, v))
            in if cstr_at line pos1 = CHR '',''
               then
                 (case read_integer_value e rv (pos1 + 1) of
                    None \<Rightarrow> None
                  | Some (st, pos2, bitnum) \<Rightarrow>
                      if st \<noteq> Status_OK then Some (st, pos2, v0)
                      else if sint bitnum < 0 \<or> sint bitnum > 31
                      then Some (Status_ExpressionArgumentOutOfRange, pos2, v0)
                      else close pos2 (Some bitnum))
               else close pos1 None)"

definition read_unary :: "expr_env \<Rightarrow> 'm ngc_params \<Rightarrow> string \<Rightarrow> reader \<Rightarrow> reader" where
  "read_unary e p line rv pos0 v0 =
     (case read_operation_unary line pos0 of
        Inr (st, pos) \<Rightarrow> Some (st, pos, v0)
      | Inl (op, pos) \<Rightarrow>
          if cstr_at line pos \<noteq> CHR ''['' then Some (Status_ExpressionSyntaxError, pos, v0)
          else if op = NGCUnaryOp_Exists then Some (read_exists e p line (pos + 1) v0)
          else if op = NGCUnaryOp_Parameter then read_prm e line rv (pos + 1) v0
          else
            (case eval_expression e line rv pos v0 of
               None \<Rightarrow> None
             | Some (st, pos1, v) \<Rightarrow>
                 if st \<noteq> Status_OK then Some (st, pos1, v)
                 else if op = NGCUnaryOp_ATAN then read_atan e line rv pos1 v
                 else let (st1, v1) = execute_unary e v op in Some (st1, pos1, v1)))"

section \<open>Real values\<close>

definition is_sign_of_value :: "char \<Rightarrow> char \<Rightarrow> char \<Rightarrow> bool" where
  "is_sign_of_value sign c c1 \<longleftrightarrow> c = sign \<and> c1 \<noteq> NUL \<and> \<not> is_digit c1 \<and> c1 \<noteq> CHR ''.''"

definition is_upper :: "char \<Rightarrow> bool" where
  "is_upper c \<longleftrightarrow> 65 \<le> (of_char c :: nat) \<and> (of_char c :: nat) \<le> 90"

definition check_result :: "u8 \<times> nat \<times> f32 \<Rightarrow> u8 \<times> nat \<times> f32" where
  "check_result r =
     (case r of (st, pos, v) \<Rightarrow> (if f32_is_nan v \<or> f32_is_inf v then Status_ExpressionInvalidResult else st, pos, v))"

definition negate_result :: "u8 \<times> nat \<times> f32 \<Rightarrow> u8 \<times> nat \<times> f32" where
  "negate_result r = (case r of (st, pos, v) \<Rightarrow> (st, pos, f32_neg v))"

definition real_value_body :: "expr_env \<Rightarrow> 'm ngc_params \<Rightarrow> string \<Rightarrow> reader \<Rightarrow> reader" where
  "real_value_body e p line rv pos v0 =
     (let c = cstr_at line pos; c1 = cstr_at line (pos + 1)
      in if pos > length line then None
         else if c = NUL then Some (Status_ExpressionSyntaxError, pos, v0)
         else
           map_option check_result
             (if c = CHR ''['' then eval_expression e line rv pos v0
              else if c = CHR ''#'' then read_parameter e p line False rv pos v0
              else if is_sign_of_value (CHR ''+'') c c1 then rv (pos + 1) v0
              else if is_sign_of_value (CHR ''-'') c c1 then map_option negate_result (rv (pos + 1) v0)
              else if is_upper c then read_unary e p line rv pos v0
              else
                Some (case read_float line pos of
                        Some (pos1, v) \<Rightarrow> (Status_OK, pos1, v)
                      | None \<Rightarrow> (Status_BadNumberFormat, pos, v0))))"

primrec real_value :: "expr_env \<Rightarrow> 'm ngc_params \<Rightarrow> string \<Rightarrow> nat \<Rightarrow> reader" where
  "real_value e p line 0 = (\<lambda>pos v0. None)"
| "real_value e p line (Suc n) = real_value_body e p line (real_value e p line n)"

text \<open>Every call in the recursion is at a later position, so the length of the line bounds its depth.\<close>

definition ngc_read_real_value :: "expr_env \<Rightarrow> 'm ngc_params \<Rightarrow> string \<Rightarrow> reader" where
  "ngc_read_real_value e p line = real_value e p line (Suc (length line))"

definition ngc_eval_expression :: "expr_env \<Rightarrow> 'm ngc_params \<Rightarrow> string \<Rightarrow> reader" where
  "ngc_eval_expression e p line = eval_expression e line (ngc_read_real_value e p line)"

definition ngc_read_parameter :: "expr_env \<Rightarrow> 'm ngc_params \<Rightarrow> string \<Rightarrow> bool \<Rightarrow> reader" where
  "ngc_read_parameter e p line check = read_parameter e p line check (ngc_read_real_value e p line)"

definition ngc_read_integer_value :: "expr_env \<Rightarrow> 'm ngc_params \<Rightarrow> string \<Rightarrow> nat \<Rightarrow> (u8 \<times> nat \<times> i32) option" where
  "ngc_read_integer_value e p line = read_integer_value e (ngc_read_real_value e p line)"

section \<open>Positions\<close>

lemma cstr_at_length [simp]: "length s \<le> i \<Longrightarrow> cstr_at s i = NUL"
  by (simp add: cstr_at_def)

lemma cstr_at_lt: "cstr_at s i = c \<Longrightarrow> c \<noteq> NUL \<Longrightarrow> i < length s"
  by (simp add: cstr_at_def split: if_splits)

lemma starts_with_le: "starts_with (drop i s) lit \<Longrightarrow> lit \<noteq> [] \<Longrightarrow> i + length lit \<le> length s"
proof -
  assume h: "starts_with (drop i s) lit" "lit \<noteq> []"
  then have "length (take (length lit) (drop i s)) = length lit" by (simp add: starts_with_def)
  with h(2) show ?thesis by (cases "i \<le> length s") auto
qed

lemma NUL_neq [simp]:
  "CHR ''['' \<noteq> NUL" "CHR '']'' \<noteq> NUL" "CHR ''+'' \<noteq> NUL" "CHR ''-'' \<noteq> NUL" "CHR ''*'' \<noteq> NUL" "CHR ''/'' \<noteq> NUL"
  "CHR ''#'' \<noteq> NUL" "CHR ''<'' \<noteq> NUL" "CHR ''>'' \<noteq> NUL" "CHR '','' \<noteq> NUL" "CHR ''R'' \<noteq> NUL" "CHR ''Q'' \<noteq> NUL"
  "CHR ''E'' \<noteq> NUL" "CHR ''T'' \<noteq> NUL" "CHR ''N'' \<noteq> NUL"
  by (simp_all add: NUL_def)

lemma read_operation_pos:
  assumes "read_operation line pos = Inl (op, pos1)"
  shows "pos < pos1" "pos1 \<le> length line"
proof -
  have s: "starts_with (drop (Suc pos) line) lit \<Longrightarrow> lit \<noteq> [] \<Longrightarrow> Suc pos + length lit \<le> length line" for lit
    by (rule starts_with_le)
  have c: "cstr_at line (Suc pos) = c \<Longrightarrow> c \<noteq> NUL \<Longrightarrow> Suc pos < length line" for c
    by (rule cstr_at_lt)
  have n: "pos < length line"
  proof (rule ccontr)
    assume "\<not> pos < length line"
    then have "cstr_at line pos = NUL" by simp
    with assms show False by (simp add: read_operation_def NUL_def Let_def)
  qed
  show "pos < pos1" using assms by (auto simp: read_operation_def Let_def split: if_splits)
  show "pos1 \<le> length line"
    using assms n s [of "''ND''"] s [of "''OD''"] s [of "''OR''"] c [of "CHR ''*''"] c [of "CHR ''R''"] c [of "CHR ''Q''"]
      c [of "CHR ''E''"] c [of "CHR ''T''"]
    by (auto simp: read_operation_def Let_def split: if_splits)
qed

lemma read_operation_err_pos: "read_operation line pos = Inr (st, pos1) \<Longrightarrow> pos1 = pos + 1 \<and> st \<noteq> 0"
  by (auto simp: read_operation_def Let_def Status_ExpressionUknownOp_def split: if_splits)

lemma read_operation_unary_pos:
  assumes "read_operation_unary line pos = Inl (op, pos1)"
  shows "pos < pos1" "pos1 \<le> length line"
proof -
  have s: "starts_with (drop (Suc pos) line) lit \<Longrightarrow> lit \<noteq> [] \<Longrightarrow> Suc pos + length lit \<le> length line" for lit
    by (rule starts_with_le)
  have c: "cstr_at line (Suc pos) = CHR ''N'' \<Longrightarrow> Suc pos < length line"
    using cstr_at_lt [of line "Suc pos" "CHR ''N''"] by (simp add: NUL_def)
  show "pos < pos1" using assms by (auto simp: read_operation_unary_def Let_def split: if_splits)
  show "pos1 \<le> length line"
    using assms c s [of "''BS''"] s [of "''COS''"] s [of "''SIN''"] s [of "''TAN''"] s [of "''OS''"] s [of "''XP''"]
      s [of "''XISTS''"] s [of "''IX''"] s [of "''UP''"] s [of "''OUND''"] s [of "''IN''"] s [of "''QRT''"] s [of "''AN''"] s [of "''RM''"]
    by (auto simp: read_operation_unary_def Let_def split: if_splits)
qed

lemma read_operation_unary_err_pos: "read_operation_unary line pos = Inr (st, pos1) \<Longrightarrow> pos1 = pos + 1 \<and> st \<noteq> 0"
  by (auto simp: read_operation_unary_def Let_def Status_ExpressionUknownOp_def split: if_splits)

lemma float_loop_pos:
  "float_loop s k st = (k1, st1) \<Longrightarrow> k \<le> k1 \<and> k1 \<le> k + length s \<and> (sc_ok st1 \<longrightarrow> sc_ok st \<or> k < k1)"
proof (induction s k st rule: float_loop.induct)
  case (2 c cs k s)
  have "sc_ok (s\<lparr>sc_decimal := True\<rparr>) = sc_ok s" by simp
  with 2 show ?case by (fastforce split: if_splits)
qed simp

lemma read_float_pos:
  assumes "read_float line pos = Some (pos1, v)"
  shows "pos < pos1" "pos1 \<le> length line"
proof -
  let ?start = "if cstr_at line pos = CHR ''-'' \<or> cstr_at line pos = CHR ''+'' then pos + 1 else pos"
  obtain k st where f: "float_loop (drop ?start line) 0 scan_start = (k, st)" by (metis surj_pair)
  with assms have r: "sc_ok st" "pos1 = ?start + k" by (auto simp: read_float_def Let_def split: if_splits prod.splits)
  from float_loop_pos [OF f] r(1) have "0 < k" "k \<le> length line - ?start" by (auto simp: scan_start_def)
  with r(2) show "pos < pos1" "pos1 \<le> length line" by (auto split: if_splits)
qed

lemma name_loop_pos: "name_loop s len = (n, t) \<Longrightarrow> length n \<le> length s \<and> (t \<noteq> NUL \<longrightarrow> length n < length s)"
proof (induction s len arbitrary: n rule: name_loop.induct)
  case (2 c cs len)
  then show ?case by (auto split: if_splits prod.splits)
qed auto

lemma ngc_read_name_pos:
  assumes "ngc_read_name line pos = (st, pos1, n)" "pos \<le> length line"
  shows "pos1 \<le> length line + 1" "st = 0 \<Longrightarrow> pos < pos1 \<and> pos1 \<le> length line"
proof -
  obtain m t where l: "name_loop (drop (pos + 1) line) 0 = (m, t)" by (metis surj_pair)
  have p: "pos < length line" if "cstr_at line pos = CHR ''<''" using that by (rule cstr_at_lt) simp
  show "pos1 \<le> length line + 1" "st = 0 \<Longrightarrow> pos < pos1 \<and> pos1 \<le> length line"
    using assms l p name_loop_pos [OF l]
    by (auto simp: ngc_read_name_def Let_def Status_FlowControlSyntaxError_def Status_BadNumberFormat_def split: if_splits)
qed

lemma takeWhile_len: "length (takeWhile P (drop a s)) \<le> length s - a"
  using length_takeWhile_le [of P "drop a s"] by simp

section \<open>The stacks\<close>

text \<open>The entries in use as a list, the one on top first, and pushing a value with its operator on it.\<close>

definition entries :: "f32 list \<Rightarrow> ngc_binary_op list \<Rightarrow> nat \<Rightarrow> (f32 \<times> ngc_binary_op) list" where
  "entries vs ops i = rev (map (\<lambda>k. (vs ! k, ops ! k)) [0..<i])"

fun push :: "expr_env \<Rightarrow> f32 \<Rightarrow> ngc_binary_op \<Rightarrow> (f32 \<times> ngc_binary_op) list \<Rightarrow> (f32 \<times> ngc_binary_op) list option" where
  "push e v op [] = Some [(v, op)]"
| "push e v op ((v1, op1) # s) =
     (if precedence op \<le> precedence op1
      then let (st, w) = execute_binary e v1 op1 v in if st = Status_OK then push e w op s else None
      else Some ((v, op) # (v1, op1) # s))"

lemma entries_0 [simp]: "entries vs ops 0 = []"
  by (simp add: entries_def)

lemma entries_Suc [simp]: "entries vs ops (Suc i) = (vs ! i, ops ! i) # entries vs ops i"
  by (simp add: entries_def)

lemma entries_update: "i \<le> k \<Longrightarrow> entries (vs[k := v]) (ops[k := op]) i = entries vs ops i"
  by (auto simp: entries_def)

lemma entries_update1: "i \<le> k \<Longrightarrow> entries (vs[k := v]) ops i = entries vs ops i"
  using entries_update [of i k vs v ops "ops ! k"] by simp

text \<open>What the code keeps of the two arrays: their size, and precedences that increase with the index.\<close>

definition stacks_ok :: "f32 list \<Rightarrow> ngc_binary_op list \<Rightarrow> nat \<Rightarrow> bool" where
  "stacks_ok vs ops i \<longleftrightarrow> length vs = MAX_STACK \<and> length ops = MAX_STACK \<and> 1 \<le> i \<and>
     (\<forall>k. Suc k < i \<longrightarrow> precedence (ops ! k) < precedence (ops ! Suc k))"

lemma precedence_bounds: "1 \<le> precedence op" "precedence op \<le> 6" "precedence op = 1 \<longleftrightarrow> op = NGCBinaryOp_RightBracket"
  by (cases op; simp)+

lemma stacks_ok_precedence:
  assumes "stacks_ok vs ops i" "k < i"
  shows "precedence (ops ! 0) + k \<le> precedence (ops ! k)"
  using assms(2)
proof (induction k)
  case (Suc k)
  then have "precedence (ops ! k) < precedence (ops ! Suc k)" using assms(1) by (simp add: stacks_ok_def)
  with Suc show ?case by simp
qed simp

text \<open>With six levels of precedence, the lowest of which ends the expression, no more than five entries are in use.\<close>

lemma stacks_ok_index:
  assumes "stacks_ok vs ops i" "ops ! 0 \<noteq> NGCBinaryOp_RightBracket"
  shows "i \<le> 5"
proof (rule ccontr)
  assume "\<not> i \<le> 5"
  then have "precedence (ops ! 0) + 5 \<le> precedence (ops ! 5)" by (intro stacks_ok_precedence [OF assms(1)]) simp
  moreover have "precedence (ops ! 0) \<noteq> 1" using assms(2) precedence_bounds(3) by blast
  ultimately show False using precedence_bounds(1) [of "ops ! 0"] precedence_bounds(2) [of "ops ! 5"] by linarith
qed

lemma reduce_push:
  assumes "Suc i < length vs" "length ops = length vs" "precedence (ops ! Suc i) \<le> precedence (ops ! i)"
    "\<forall>k. Suc k < Suc i \<longrightarrow> precedence (ops ! k) < precedence (ops ! Suc k)"
    "reduce e (Suc i) vs ops = (st, i1, vs1, ops1)"
  shows "(case push e (vs ! Suc i) (ops ! Suc i) (entries vs ops (Suc i)) of
       None \<Rightarrow> st \<noteq> Status_OK
     | Some s \<Rightarrow> st = Status_OK \<and> entries vs1 ops1 i1 = s \<and> 1 \<le> i1 \<and> i1 \<le> Suc i \<and>
         (\<forall>k. Suc k < i1 \<longrightarrow> precedence (ops1 ! k) < precedence (ops1 ! Suc k))) \<and>
     length vs1 = length vs \<and> length ops1 = length ops"
  using assms
proof (induction i arbitrary: vs ops st i1 vs1 ops1)
  case 0
  then have "0 < length vs" by linarith
  with 0 show ?case by (auto simp: Let_def split: prod.splits if_splits)
next
  case (Suc i)
  obtain st2 w where x: "execute_binary e (vs ! Suc i) (ops ! Suc i) (vs ! Suc (Suc i)) = (st2, w)" by (metis surj_pair)
  let ?vs = "vs[Suc i := w]" and ?ops = "ops[Suc i := ops ! Suc (Suc i)]"
  have en: "entries ?vs ?ops (Suc i) = entries vs ops (Suc i)" by (rule entries_update) simp
  show ?case
  proof (cases "st2 = Status_OK")
    case False
    then show ?thesis using Suc.prems x by (auto simp: Let_def)
  next
    case True
    show ?thesis
    proof (cases "precedence (?ops ! Suc i) \<le> precedence (?ops ! i)")
      case True
      have r: "reduce e (Suc i) ?vs ?ops = (st, i1, vs1, ops1)"
        using Suc.prems True x \<open>st2 = Status_OK\<close> by (simp add: Let_def)
      have l: "\<forall>k. Suc k < Suc i \<longrightarrow> precedence (?ops ! k) < precedence (?ops ! Suc k)" using Suc.prems(4) by auto
      have "Suc i < length ?vs" "length ?ops = length ?vs" using Suc.prems by simp_all
      note ih = Suc.IH [OF this True l r]
      have "push e (vs ! Suc (Suc i)) (ops ! Suc (Suc i)) (entries vs ops (Suc (Suc i))) =
          push e (?vs ! Suc i) (?ops ! Suc i) (entries ?vs ?ops (Suc i))"
        using Suc.prems(1-3) x \<open>st2 = Status_OK\<close> by (simp del: entries_Suc add: en entries_Suc [of vs ops "Suc i"])
      with ih show ?thesis by (auto simp del: push.simps entries_Suc split: option.splits)
    next
      case False
      then have "(st, i1, vs1, ops1) = (Status_OK, Suc (Suc i), ?vs, ?ops)"
        using Suc.prems x \<open>st2 = Status_OK\<close> by (auto simp: Let_def)
      moreover have "push e (vs ! Suc (Suc i)) (ops ! Suc (Suc i)) (entries vs ops (Suc (Suc i))) =
          Some (entries ?vs ?ops (Suc (Suc i)))"
        using Suc.prems(1-3) x False \<open>st2 = Status_OK\<close> by (simp add: entries_update)
      moreover have "precedence (?ops ! k) < precedence (?ops ! Suc k)" if "Suc k < Suc (Suc i)" for k
        using that False Suc.prems(1,2,4) by (cases "k = i") auto
      ultimately show ?thesis by simp
    qed
  qed
qed

lemma reduce_ok:
  assumes "stacks_ok vs ops i" "i < MAX_STACK" "precedence op \<le> precedence (ops ! (i - 1))"
    "reduce e i (vs[i := v]) (ops[i := op]) = (st, i1, vs1, ops1)"
  shows "case push e v op (entries vs ops i) of
       None \<Rightarrow> st \<noteq> Status_OK
     | Some s \<Rightarrow> st = Status_OK \<and> entries vs1 ops1 i1 = s \<and> stacks_ok vs1 ops1 i1"
proof -
  obtain j where j: "i = Suc j" using assms(1) by (cases i) (auto simp: stacks_ok_def)
  let ?vs = "vs[i := v]" and ?ops = "ops[i := op]"
  have l: "length vs = MAX_STACK" "length ops = MAX_STACK" using assms(1) by (simp_all add: stacks_ok_def)
  have n: "?vs ! Suc j = v" "?ops ! Suc j = op" "entries ?vs ?ops (Suc j) = entries vs ops i"
    using assms(2) l j by (simp_all add: entries_update)
  have "\<forall>k. Suc k < Suc j \<longrightarrow> precedence (?ops ! k) < precedence (?ops ! Suc k)"
    using assms(1) j by (auto simp: stacks_ok_def)
  moreover have "reduce e (Suc j) ?vs ?ops = (st, i1, vs1, ops1)" using assms(4) j by simp
  moreover have "Suc j < length ?vs" "length ?ops = length ?vs" "precedence (?ops ! Suc j) \<le> precedence (?ops ! j)"
    using assms(2,3) l j by simp_all
  ultimately have "(case push e (?vs ! Suc j) (?ops ! Suc j) (entries ?vs ?ops (Suc j)) of
       None \<Rightarrow> st \<noteq> Status_OK
     | Some s \<Rightarrow> st = Status_OK \<and> entries vs1 ops1 i1 = s \<and> 1 \<le> i1 \<and> i1 \<le> Suc j \<and>
         (\<forall>k. Suc k < i1 \<longrightarrow> precedence (ops1 ! k) < precedence (ops1 ! Suc k))) \<and>
     length vs1 = length ?vs \<and> length ops1 = length ?ops"
    by (intro reduce_push)
  then show ?thesis unfolding n using l by (auto simp: stacks_ok_def split: option.splits)
qed

lemma push_shift:
  assumes "stacks_ok vs ops i" "i < MAX_STACK" "\<not> precedence op \<le> precedence (ops ! (i - 1))"
  shows "push e v op (entries vs ops i) = Some (entries (vs[i := v]) (ops[i := op]) (i + 1))"
    "stacks_ok (vs[i := v]) (ops[i := op]) (i + 1)"
proof -
  obtain j where j: "i = Suc j" using assms(1) by (cases i) (auto simp: stacks_ok_def)
  show "push e v op (entries vs ops i) = Some (entries (vs[i := v]) (ops[i := op]) (i + 1))"
    using assms j by (simp add: entries_update stacks_ok_def)
  have "precedence (ops[i := op] ! k) < precedence (ops[i := op] ! Suc k)" if "Suc k < i + 1" for k
    using that assms j by (cases "k = j") (auto simp: stacks_ok_def)
  then show "stacks_ok (vs[i := v]) (ops[i := op]) (i + 1)" using assms(1) by (simp add: stacks_ok_def)
qed

section \<open>The evaluator on an abstract stack\<close>

text \<open>The position and the value of a result without an error.\<close>

definition ok_result :: "(u8 \<times> nat \<times> 'a) option \<Rightarrow> (nat \<times> 'a) option" where
  "ok_result r = (case r of Some (st, pos, v) \<Rightarrow> if st = Status_OK then Some (pos, v) else None | None \<Rightarrow> None)"

definition ok_loop :: "(u8 \<times> nat \<times> f32 list) option \<Rightarrow> (nat \<times> f32) option" where
  "ok_loop r = (case r of Some (st, pos, vs) \<Rightarrow> if st = Status_OK then Some (pos, vs ! 0) else None | None \<Rightarrow> None)"

fun run ::
    "expr_env \<Rightarrow> string \<Rightarrow> (nat \<Rightarrow> (nat \<times> f32) option) \<Rightarrow> nat \<Rightarrow> nat \<Rightarrow> (f32 \<times> ngc_binary_op) list \<Rightarrow> (nat \<times> f32) option"
where
  "run e line rd 0 pos s = None"
| "run e line rd (Suc n) pos s =
     (if s \<noteq> [] \<and> snd (last s) = NGCBinaryOp_RightBracket then Some (pos, fst (last s))
      else
        (case rd pos of
           None \<Rightarrow> None
         | Some (pos1, v) \<Rightarrow>
             if pos1 > length line then None
             else
               (case read_operation line pos1 of
                  Inr _ \<Rightarrow> None
                | Inl (op, pos2) \<Rightarrow>
                    (case push e v op s of None \<Rightarrow> None | Some s1 \<Rightarrow> run e line rd n pos2 s1))))"

lemma last_entries: "1 \<le> i \<Longrightarrow> entries vs ops i \<noteq> [] \<and> last (entries vs ops i) = (vs ! 0, ops ! 0)"
  by (induction i) (auto simp: entries_def last_rev hd_map)

lemma eval_loop_run:
  assumes "\<And>pos v. ok_result (rv pos v) = rd pos"
  shows "stacks_ok vs ops i \<Longrightarrow>
    ok_loop (eval_loop e line rv n pos vs ops i) = run e line rd n pos (entries vs ops i)"
proof (induction n arbitrary: pos vs ops i)
  case 0
  then show ?case by (simp add: ok_loop_def)
next
  case (Suc n)
  have le: "entries vs ops i \<noteq> []" "last (entries vs ops i) = (vs ! 0, ops ! 0)"
    using Suc.prems last_entries [of i vs ops] by (auto simp: stacks_ok_def)
  show ?case
  proof (cases "ops ! 0 = NGCBinaryOp_RightBracket")
    case True
    then show ?thesis using le by (simp add: ok_loop_def)
  next
    case False
    then have i: "i < MAX_STACK" using stacks_ok_index [OF Suc.prems] by (simp add: MAX_STACK_def)
    have l: "length vs = MAX_STACK" "length ops = MAX_STACK" "1 \<le> i" using Suc.prems by (auto simp: stacks_ok_def)
    show ?thesis
    proof (cases "rd pos")
      case None
      then have "ok_result (rv pos (vs ! i)) = None" using assms by simp
      then show ?thesis using False i None le by (auto simp: ok_result_def ok_loop_def split: option.splits if_splits)
    next
      case (Some r)
      then obtain pos1 v where r: "rd pos = Some (pos1, v)" by (cases r) auto
      then have rv: "rv pos (vs ! i) = Some (Status_OK, pos1, v)"
        using assms [of pos "vs ! i"] by (auto simp: ok_result_def split: option.splits if_splits)
      show ?thesis
      proof (cases "length line < pos1 \<or> (\<exists>x. read_operation line pos1 = Inr x)")
        case True
        then show ?thesis using False i le r rv read_operation_err_pos [of line pos1] by (auto simp: ok_loop_def)
      next
        case no: False
        then obtain op pos2 where op: "read_operation line pos1 = Inl (op, pos2)" by (cases "read_operation line pos1") auto
        have at: "ops[i := op] ! i = op" "ops[i := op] ! (i - 1) = ops ! (i - 1)" using l i by (auto simp: nth_list_update)
        show ?thesis
        proof (cases "precedence op \<le> precedence (ops ! (i - 1))")
          case True
          obtain st i1 vs1 ops1 where re: "reduce e i (vs[i := v]) (ops[i := op]) = (st, i1, vs1, ops1)" by (metis prod_cases4)
          note ro = reduce_ok [OF Suc.prems i True re]
          show ?thesis
          proof (cases "push e v op (entries vs ops i)")
            case None
            then show ?thesis using ro False i le r rv no op at True re by (auto simp: ok_loop_def)
          next
            case (Some s)
            then have "st = Status_OK" "entries vs1 ops1 i1 = s" "stacks_ok vs1 ops1 i1" using ro by simp_all
            with Suc.IH [of vs1 ops1 i1 pos2] show ?thesis using Some False i le r rv no op at True re by simp
          qed
        next
          case less: False
          note sh = push_shift(1) [OF Suc.prems i less, where e = e and v = v] push_shift(2) [OF Suc.prems i less, where v = v]
          from Suc.IH [OF sh(2)] show ?thesis using False i le r rv no op at less sh(1) by simp
        qed
      qed
    qed
  qed
qed

text \<open>An expression in brackets on the abstract stack.\<close>

definition run_expression ::
    "expr_env \<Rightarrow> string \<Rightarrow> (nat \<Rightarrow> (nat \<times> f32) option) \<Rightarrow> nat \<Rightarrow> (nat \<times> f32) option" where
  "run_expression e line rd pos =
     (if pos \<le> length line \<and> cstr_at line pos = CHR ''['' then run e line rd (Suc (Suc (length line))) (pos + 1) []
      else None)"

lemma eval_expression_run:
  assumes "\<And>pos v. ok_result (rv pos v) = rd pos"
  shows "ok_result (eval_expression e line rv pos v0) = run_expression e line rd pos"
proof (cases "pos \<le> length line \<and> cstr_at line pos = CHR ''[''")
  case False
  then show ?thesis
    by (auto simp: eval_expression_def run_expression_def ok_result_def Status_GcodeUnsupportedCommand_def)
next
  case True
  define vs where "vs = map (ex_junk e pos) [0..<MAX_STACK]"
  define ops where "ops = replicate MAX_STACK NGCBinaryOp_NoOp"
  have l: "length vs = MAX_STACK" "length ops = MAX_STACK" "0 < MAX_STACK" by (simp_all add: vs_def ops_def MAX_STACK_def)
  note ev = eval_expression_def [of e line rv pos v0, folded vs_def ops_def]
  note rd = assms [of "pos + 1" "vs ! 0"]
  show ?thesis
  proof (cases "rd (pos + 1)")
    case None
    with rd True show ?thesis
      by (auto simp: ev run_expression_def Let_def ok_result_def split: option.splits if_splits)
  next
    case (Some r)
    then obtain pos1 v where r: "rd (pos + 1) = Some (pos1, v)" by (cases r) auto
    with rd have rv: "rv (pos + 1) (vs ! 0) = Some (Status_OK, pos1, v)"
      by (auto simp: ok_result_def split: option.splits if_splits)
    show ?thesis
    proof (cases "length line < pos1 \<or> (\<exists>x. read_operation line pos1 = Inr x)")
      case True
      with \<open>pos \<le> length line \<and> cstr_at line pos = CHR ''[''\<close> show ?thesis using r rv read_operation_err_pos [of line pos1]
        by (auto simp: ev run_expression_def Let_def ok_result_def)
    next
      case no: False
      then obtain op pos2 where op: "read_operation line pos1 = Inl (op, pos2)" by (cases "read_operation line pos1") auto
      have ok: "stacks_ok (vs[0 := v]) (ops[0 := op]) 1" using l by (simp add: stacks_ok_def)
      have en: "entries (vs[0 := v]) (ops[0 := op]) 1 = [(v, op)]" using l by simp
      let ?l = "eval_loop e line rv (Suc (length line)) pos2 (vs[0 := v]) (ops[0 := op]) 1"
      have "ok_result (eval_expression e line rv pos v0) = ok_loop ?l"
        using True r rv no op by (auto simp: ev Let_def ok_result_def ok_loop_def split: option.splits)
      also have "\<dots> = run e line rd (Suc (length line)) pos2 [(v, op)]"
        unfolding eval_loop_run [OF assms ok] en ..
      also have "\<dots> = run_expression e line rd pos" using True r no op by (simp add: run_expression_def)
      finally show ?thesis .
    qed
  qed
qed

section \<open>Every reader returns\<close>

text \<open>A name of 31 characters overflows the buffer it is read into.\<close>

definition names_fit :: "string \<Rightarrow> bool" where
  "names_fit line \<longleftrightarrow> (\<forall>i < length line. \<forall>n. name_loop (drop i line) 0 = (n, CHR ''>'') \<longrightarrow> length n \<le> NGC_MAX_PARAM_LENGTH)"

text \<open>A result at a position of the line, or one behind it if there was an error.\<close>

definition returns_at :: "string \<Rightarrow> nat \<Rightarrow> (u8 \<times> nat \<times> 'a) option \<Rightarrow> bool" where
  "returns_at line pos r \<longleftrightarrow>
     (case r of None \<Rightarrow> False
      | Some (st, pos1, v) \<Rightarrow> pos1 \<le> length line + 1 \<and> (st = Status_OK \<longrightarrow> pos < pos1 \<and> pos1 \<le> length line))"

lemma returns_at_mono: "returns_at line q r \<Longrightarrow> pos \<le> q \<Longrightarrow> returns_at line pos r"
  by (auto simp: returns_at_def split: option.splits)

lemma returns_atE:
  assumes "returns_at line pos r"
  obtains st pos1 v where "r = Some (st, pos1, v)" "pos1 \<le> length line + 1"
    "st = Status_OK \<Longrightarrow> pos < pos1 \<and> pos1 \<le> length line"
  using assms that by (auto simp: returns_at_def split: option.splits)

lemma read_exists_returns:
  assumes "arg \<le> length line"
  shows "returns_at line arg (Some (read_exists e p line arg v0))"
proof -
  define s where "s = arg + 2 + length (takeWhile (\<lambda>c. c \<noteq> NUL \<and> c \<noteq> CHR '']'') (drop (arg + 2) line))"
  have "arg < s + 1" "cstr_at line s = CHR '']'' \<Longrightarrow> s + 1 \<le> length line"
    using cstr_at_lt [of line s "CHR '']''"] by (simp_all add: s_def)
  then show ?thesis using assms unfolding read_exists_def Let_def s_def [symmetric]
    by (auto simp: returns_at_def Status_ExpressionSyntaxError_def)
qed

locale value_reader =
  fixes line :: string and rv :: reader and lo :: nat
  assumes reads: "names_fit line \<Longrightarrow> lo \<le> pos \<Longrightarrow> pos \<le> length line \<Longrightarrow> returns_at line pos (rv pos v0)"
begin

lemma integer_returns:
  assumes "names_fit line" "lo \<le> pos" "pos \<le> length line"
  shows "returns_at line pos (read_integer_value e rv pos)"
proof -
  obtain st pos1 v where "rv pos (ex_junk e pos 0) = Some (st, pos1, v)" "pos1 \<le> length line + 1"
    "st = Status_OK \<Longrightarrow> pos < pos1 \<and> pos1 \<le> length line" using reads [OF assms, of "ex_junk e pos 0"] by (rule returns_atE) blast
  then show ?thesis by (auto simp: read_integer_value_def returns_at_def split: prod.splits)
qed

lemma parameter_returns:
  assumes "names_fit line" "lo \<le> pos + 1" "pos \<le> length line"
  shows "returns_at line pos (read_parameter e p line check rv pos v0)"
proof (cases "cstr_at line pos = CHR ''#''")
  case False
  then show ?thesis using assms(3) by (simp add: read_parameter_def returns_at_def Status_BadNumberFormat_def)
next
  case True
  then have l: "pos + 1 \<le> length line" using cstr_at_lt [OF True] by simp
  show ?thesis
  proof (cases "cstr_at line (pos + 1) = CHR ''<''")
    case n: True
    then have l2: "pos + 2 \<le> length line" using cstr_at_lt [OF n] by simp
    obtain st pos1 name where r: "ngc_read_name line (pos + 1) = (st, pos1, name)" by (metis prod_cases3)
    have nm: "length name \<le> NGC_MAX_PARAM_LENGTH" if "st = Status_OK"
    proof -
      obtain m t where m: "name_loop (drop (pos + 2) line) 0 = (m, t)" by (metis surj_pair)
      with r n that have t: "t = CHR ''>''" "name = m"
        by (auto simp: ngc_read_name_def Let_def Status_FlowControlSyntaxError_def split: if_splits)
      then have "drop (pos + 2) line \<noteq> []" using m by (cases "drop (pos + 2) line") (auto simp: NUL_def)
      then have "pos + 2 < length line" by simp
      with assms(1) m t show ?thesis unfolding names_fit_def by metis
    qed
    show ?thesis using True n r nm ngc_read_name_pos [OF r l]
      by (auto simp: read_parameter_def returns_at_def Let_def Status_BadNumberFormat_def split: prod.splits)
  next
    case n: False
    obtain st pos1 v where i: "read_integer_value e rv (pos + 1) = Some (st, pos1, v)" "pos1 \<le> length line + 1"
      "st = Status_OK \<Longrightarrow> pos + 1 < pos1 \<and> pos1 \<le> length line"
      using integer_returns [OF assms(1,2) l] by (rule returns_atE) blast
    then show ?thesis using True n
      by (auto simp: read_parameter_def returns_at_def Let_def Status_GcodeValueOutOfRange_def split: prod.splits)
  qed
qed

lemma loop_returns:
  assumes fit: "names_fit line"
  shows "stacks_ok vs ops i \<Longrightarrow> lo \<le> pos \<Longrightarrow> pos \<le> length line \<Longrightarrow> length line - pos < n \<Longrightarrow>
    \<exists>st pos1 vs1. eval_loop e line rv n pos vs ops i = Some (st, pos1, vs1) \<and> pos1 \<le> length line + 1 \<and>
      (st = Status_OK \<longrightarrow> pos \<le> pos1 \<and> pos1 \<le> length line)"
proof (induction n arbitrary: pos vs ops i)
  case (Suc n)
  show ?case
  proof (cases "ops ! 0 = NGCBinaryOp_RightBracket")
    case True
    then show ?thesis using Suc.prems by simp
  next
    case no: False
    then have i: "i < MAX_STACK" using stacks_ok_index [OF Suc.prems(1)] by (simp add: MAX_STACK_def)
    have at: "ops[i := op] ! i = op" "ops[i := op] ! (i - 1) = ops ! (i - 1)" for op
      using Suc.prems(1) i by (auto simp: stacks_ok_def)
    obtain st pos1 v where r: "rv pos (vs ! i) = Some (st, pos1, v)" "pos1 \<le> length line + 1"
      "st = Status_OK \<Longrightarrow> pos < pos1 \<and> pos1 \<le> length line"
      using reads [OF fit Suc.prems(2,3), of "vs ! i"] by (rule returns_atE) blast
    show ?thesis
    proof (cases "st = Status_OK \<and> (\<exists>op pos2. read_operation line pos1 = Inl (op, pos2))")
      case False
      then show ?thesis using r no i read_operation_err_pos [of line pos1]
        by (cases "read_operation line pos1") auto
    next
      case True
      then obtain op pos2 where op: "read_operation line pos1 = Inl (op, pos2)" by auto
      have p: "pos < pos2" "pos2 \<le> length line" "lo \<le> pos2" "length line - pos2 < n" "pos1 \<le> length line"
        using read_operation_pos [OF op] r(3) True Suc.prems by auto
      show ?thesis
      proof (cases "precedence op \<le> precedence (ops ! (i - 1))")
        case less: False
        note sh = push_shift(2) [OF Suc.prems(1) i less, where v = v]
        from Suc.IH [OF sh p(3,2,4)] show ?thesis using r True op no i p at less by fastforce
      next
        case le: True
        obtain st1 i1 vs1 ops1 where re: "reduce e i (vs[i := v]) (ops[i := op]) = (st1, i1, vs1, ops1)" by (metis prod_cases4)
        note ro = reduce_ok [OF Suc.prems(1) i le re]
        have e: "eval_loop e line rv (Suc n) pos vs ops i =
            (if st1 \<noteq> Status_OK then Some (st1, pos2, vs1) else eval_loop e line rv n pos2 vs1 ops1 i1)"
          using r True op no i p at le re by simp
        show ?thesis
        proof (cases "st1 = Status_OK")
          case True
          then have "stacks_ok vs1 ops1 i1" using ro by (auto split: option.splits)
          from Suc.IH [OF this p(3,2,4)] show ?thesis unfolding e using True p(1) by fastforce
        next
          case False
          then show ?thesis unfolding e using p by simp
        qed
      qed
    qed
  qed
qed simp

lemma expression_returns:
  assumes "names_fit line" "lo \<le> pos + 1" "pos \<le> length line"
  shows "returns_at line pos (eval_expression e line rv pos v0)"
proof (cases "cstr_at line pos = CHR ''[''")
  case False
  then show ?thesis using assms(3) by (simp add: eval_expression_def returns_at_def Status_GcodeUnsupportedCommand_def)
next
  case True
  then have l: "pos + 1 \<le> length line" using cstr_at_lt [OF True] by simp
  define vs where "vs = map (ex_junk e pos) [0..<MAX_STACK]"
  define ops where "ops = replicate MAX_STACK NGCBinaryOp_NoOp"
  note ev = eval_expression_def [of e line rv pos v0, folded vs_def ops_def]
  obtain st pos1 v where r: "rv (pos + 1) (vs ! 0) = Some (st, pos1, v)" "pos1 \<le> length line + 1"
    "st = Status_OK \<Longrightarrow> pos + 1 < pos1 \<and> pos1 \<le> length line"
    using reads [OF assms(1,2) l, of "vs ! 0"] by (rule returns_atE) blast
  show ?thesis
  proof (cases "st = Status_OK \<and> (\<exists>op pos2. read_operation line pos1 = Inl (op, pos2))")
    case False
    then show ?thesis using r \<open>cstr_at line pos = CHR ''[''\<close> assms(3) read_operation_err_pos [of line pos1]
      by (cases "read_operation line pos1") (auto simp: ev Let_def returns_at_def)
  next
    case True
    then obtain op pos2 where op: "read_operation line pos1 = Inl (op, pos2)" by auto
    have p: "pos < pos2" "pos2 \<le> length line" "lo \<le> pos2" "length line - pos2 < Suc (length line)" "pos1 \<le> length line"
      using read_operation_pos [OF op] r(3) True assms by auto
    have "stacks_ok (vs[0 := v]) (ops[0 := op]) 1" by (simp add: stacks_ok_def vs_def ops_def)
    from loop_returns [OF assms(1) this p(3,2,4), where e = e] obtain st1 pos3 vs1
      where "eval_loop e line rv (Suc (length line)) pos2 (vs[0 := v]) (ops[0 := op]) 1 = Some (st1, pos3, vs1)"
        "pos3 \<le> length line + 1" "st1 = Status_OK \<longrightarrow> pos2 \<le> pos3 \<and> pos3 \<le> length line" by metis
    then show ?thesis using r True op p \<open>cstr_at line pos = CHR ''[''\<close> assms(3) by (auto simp: ev Let_def returns_at_def)
  qed
qed

lemma atan_returns:
  assumes "names_fit line" "lo \<le> pos + 1" "pos \<le> length line"
  shows "returns_at line pos (read_atan e line rv pos v0)"
proof (cases "cstr_at line pos = CHR ''/'' \<and> cstr_at line (pos + 1) = CHR ''[''")
  case False
  then show ?thesis using assms(3) by (auto simp: read_atan_def returns_at_def Status_ExpressionSyntaxError_def)
next
  case True
  then have l: "pos + 1 \<le> length line" using cstr_at_lt [of line pos "CHR ''/''"] by simp
  obtain st pos1 v where "eval_expression e line rv (pos + 1) (ex_junk e pos 1) = Some (st, pos1, v)" "pos1 \<le> length line + 1"
    "st = Status_OK \<Longrightarrow> pos + 1 < pos1 \<and> pos1 \<le> length line"
    using expression_returns [OF assms(1) _ l, of e "ex_junk e pos 1"] assms(2) by (auto elim: returns_atE)
  then show ?thesis using True assms(3) by (auto simp: read_atan_def returns_at_def)
qed

lemma prm_returns:
  assumes "names_fit line" "lo \<le> pos" "pos \<le> length line"
  shows "returns_at line pos (read_prm e line rv pos v0)"
proof -
  let ?close = "\<lambda>id pos2 bitnum.
      if pos2 > length line then None
      else if cstr_at line pos2 \<noteq> CHR '']'' then Some (Status_ExpressionSyntaxError, pos2, v0)
      else let (st, v) = setting_result e id bitnum v0 in Some (st, pos2 + 1, v)"
  have close: "returns_at line pos (?close id pos2 bitnum)" if "pos \<le> pos2" "pos2 \<le> length line" for id pos2 bitnum
    using that cstr_at_lt [of line pos2 "CHR '']''"]
    by (auto simp: returns_at_def Status_ExpressionSyntaxError_def split: prod.splits)
  obtain st pos1 v where i: "read_integer_value e rv pos = Some (st, pos1, v)" "pos1 \<le> length line + 1"
    "st = Status_OK \<Longrightarrow> pos < pos1 \<and> pos1 \<le> length line"
    using integer_returns [OF assms] by (rule returns_atE) blast
  show ?thesis
  proof (cases "st = Status_OK")
    case False
    then show ?thesis using i by (simp add: read_prm_def returns_at_def)
  next
    case ok: True
    then have p: "pos < pos1" "pos1 \<le> length line" using i(3) by simp_all
    show ?thesis
    proof (cases "cstr_at line pos1 = CHR '',''")
      case False
      then show ?thesis using i ok p close [of pos1 v None] by (simp add: read_prm_def)
    next
      case True
      have "pos1 + 1 \<le> length line" "lo \<le> pos1 + 1" using cstr_at_lt [OF True] p assms by simp_all
      note int2 = integer_returns [OF assms(1) \<open>lo \<le> pos1 + 1\<close> \<open>pos1 + 1 \<le> length line\<close>, of e]
      obtain st2 pos2 b where b: "read_integer_value e rv (pos1 + 1) = Some (st2, pos2, b)" "pos2 \<le> length line + 1"
        "st2 = Status_OK \<Longrightarrow> pos1 + 1 < pos2 \<and> pos2 \<le> length line"
        using int2 by (rule returns_atE) blast
      then show ?thesis using True i ok p close [of pos2 v "Some b"]
        by (auto simp: read_prm_def returns_at_def Status_ExpressionArgumentOutOfRange_def split: option.splits prod.splits)
    qed
  qed
qed

lemma unary_returns:
  assumes "names_fit line" "lo \<le> pos + 1" "pos \<le> length line"
  shows "returns_at line pos (read_unary e p line rv pos v0)"
proof (cases "read_operation_unary line pos")
  case (Inr r)
  then show ?thesis using assms(3) read_operation_unary_err_pos [of line pos]
    by (cases r) (auto simp: read_unary_def returns_at_def)
next
  case (Inl r)
  then obtain op pos1 where op: "read_operation_unary line pos = Inl (op, pos1)" by (cases r) auto
  note p = read_operation_unary_pos [OF op]
  show ?thesis
  proof (cases "cstr_at line pos1 = CHR ''[''")
    case False
    then show ?thesis using op p by (simp add: read_unary_def returns_at_def Status_ExpressionSyntaxError_def)
  next
    case True
    then have l: "pos1 + 1 \<le> length line" using cstr_at_lt [OF True] by simp
    obtain st pos2 v where ev: "eval_expression e line rv pos1 v0 = Some (st, pos2, v)" "pos2 \<le> length line + 1"
      "st = Status_OK \<Longrightarrow> pos1 < pos2 \<and> pos2 \<le> length line"
      by (rule returns_atE [OF expression_returns [OF assms(1) _ p(2), of e v0]]) (use assms p in auto)
    consider "op = NGCUnaryOp_Exists" | "op = NGCUnaryOp_Parameter" | "op \<notin> {NGCUnaryOp_Exists, NGCUnaryOp_Parameter}" "st \<noteq> Status_OK"
      | "op = NGCUnaryOp_ATAN" "st = Status_OK"
      | "op \<notin> {NGCUnaryOp_Exists, NGCUnaryOp_Parameter, NGCUnaryOp_ATAN}" "st = Status_OK" by auto
    then show ?thesis
    proof cases
      case 1
      have "returns_at line pos (Some (read_exists e p line (pos1 + 1) v0))"
        by (rule returns_at_mono [OF read_exists_returns [OF l]]) (use p in simp)
      then show ?thesis using op True 1 by (simp add: read_unary_def)
    next
      case 2
      have "lo \<le> pos1 + 1" using assms(2) p(1) by simp
      from prm_returns [OF assms(1) this l, of e v0] have "returns_at line pos (read_prm e line rv (pos1 + 1) v0)"
        by (rule returns_at_mono) (use p in simp)
      then show ?thesis using op True 2 by (simp add: read_unary_def)
    next
      case 3
      then show ?thesis using op True ev by (auto simp: read_unary_def returns_at_def)
    next
      case 4
      have "lo \<le> pos2 + 1" "pos2 \<le> length line" using assms(2) p(1) ev 4 by auto
      from atan_returns [OF assms(1) this, of e v] have "returns_at line pos (read_atan e line rv pos2 v)"
        by (rule returns_at_mono) (use p ev 4 in auto)
      then show ?thesis using op True ev 4 by (simp add: read_unary_def)
    next
      case 5
      then show ?thesis using op True ev p by (auto simp: read_unary_def returns_at_def split: prod.splits)
    qed
  qed
qed

lemma body_returns:
  assumes "names_fit line" "lo \<le> pos + 1" "pos \<le> length line"
  shows "returns_at line pos (real_value_body e p line rv pos v0)"
proof -
  let ?c = "cstr_at line pos" and ?c1 = "cstr_at line (pos + 1)"
  have check: "returns_at line pos (map_option check_result r)" if "returns_at line pos r" for r
    using that by (auto simp: returns_at_def check_result_def Status_ExpressionInvalidResult_def split: option.splits)
  have neg: "returns_at line pos (map_option negate_result r)" if "returns_at line pos r" for r
    using that by (auto simp: returns_at_def negate_result_def split: option.splits)
  have sign: "returns_at line pos (rv (pos + 1) v0)" if "?c \<noteq> NUL"
  proof -
    have "pos + 1 \<le> length line" using cstr_at_lt [OF refl that] by simp
    from reads [OF assms(1,2) this] show ?thesis by (rule returns_at_mono) simp
  qed
  have float: "returns_at line pos (Some (case read_float line pos of Some (pos1, v) \<Rightarrow> (Status_OK, pos1, v)
      | None \<Rightarrow> (Status_BadNumberFormat, pos, v0)))"
    using assms(3) read_float_pos [of line pos]
    by (auto simp: returns_at_def Status_BadNumberFormat_def split: option.splits)
  show ?thesis
  proof (cases "?c = NUL")
    case True
    then show ?thesis using assms(3) by (simp add: real_value_body_def returns_at_def Status_ExpressionSyntaxError_def)
  next
    case False
    have branch: "returns_at line pos (map_option f (if b then x else y))"
      if "returns_at line pos (map_option f x)" "returns_at line pos (map_option f y)" for f b x y using that by simp
    have "\<not> length line < pos" using assms(3) by simp
    then show ?thesis
      unfolding real_value_body_def Let_def if_not_P [OF False] by (simp only: if_False)
        (intro branch check [OF expression_returns [OF assms]] check [OF parameter_returns [OF assms]]
        check [OF sign [OF False]] check [OF neg [OF sign [OF False]]] check [OF unary_returns [OF assms]] check [OF float])
  qed
qed

end

text \<open>With a depth greater than what is left of the line, a value is read or an error is reported.\<close>

lemma real_value_reader: "value_reader line (real_value e p line n) (length line + 1 - n)"
proof (induction n)
  case 0
  show ?case by unfold_locales simp
next
  case (Suc n)
  show ?case
  proof
    fix pos v0
    assume "names_fit line" "length line + 1 - Suc n \<le> pos" "pos \<le> length line"
    then show "returns_at line pos (real_value e p line (Suc n) pos v0)"
      using value_reader.body_returns [OF Suc.IH, of pos e p v0] by simp
  qed
qed

interpretation ngc: value_reader line "ngc_read_real_value e p line" 0 for e p line
  unfolding ngc_read_real_value_def using real_value_reader [of line e p "Suc (length line)"] by simp

section \<open>The depth of the recursion\<close>

definition extends :: "reader \<Rightarrow> reader \<Rightarrow> bool" where
  "extends rv rv' \<longleftrightarrow> (\<forall>pos v r. rv pos v = Some r \<longrightarrow> rv' pos v = Some r)"

lemma extendsD: "extends rv rv' \<Longrightarrow> rv pos v = Some r \<Longrightarrow> rv' pos v = Some r"
  unfolding extends_def by blast

lemma eval_loop_mono:
  assumes "extends rv rv'"
  shows "eval_loop e line rv n pos vs ops i = Some r \<Longrightarrow> eval_loop e line rv' n pos vs ops i = Some r"
proof (induction n arbitrary: pos vs ops i)
  case (Suc n)
  show ?case
  proof (cases "ops ! 0 = NGCBinaryOp_RightBracket \<or> MAX_STACK \<le> i")
    case True
    then show ?thesis using Suc.prems by (cases "ops ! 0 = NGCBinaryOp_RightBracket") auto
  next
    case no: False
    then obtain st pos1 v where r: "rv pos (vs ! i) = Some (st, pos1, v)"
      using Suc.prems no by (auto split: option.splits)
    then have r': "rv' pos (vs ! i) = Some (st, pos1, v)" by (rule extendsD [OF assms])
    show ?thesis
    proof (cases "st = Status_OK \<and> pos1 \<le> length line \<and> (\<exists>op pos2. read_operation line pos1 = Inl (op, pos2))")
      case False
      then show ?thesis using Suc.prems no r r' by (cases "read_operation line pos1") auto
    next
      case True
      then obtain op pos2 where op: "read_operation line pos1 = Inl (op, pos2)" by auto
      obtain st1 i1 vs1 ops1 where re: "reduce e i (vs[i := v]) (ops[i := op]) = (st1, i1, vs1, ops1)" by (metis prod_cases4)
      show ?thesis using Suc.prems True no r r' op re Suc.IH by (simp add: Let_def split: if_splits)
    qed
  qed
qed simp

lemma eval_expression_mono:
  assumes "extends rv rv'" "eval_expression e line rv pos v0 = Some r"
  shows "eval_expression e line rv' pos v0 = Some r"
proof (cases "pos \<le> length line \<and> cstr_at line pos = CHR ''[''")
  case False
  then show ?thesis using assms(2) by (auto simp: eval_expression_def split: if_splits)
next
  case True
  define vs where "vs = map (ex_junk e pos) [0..<MAX_STACK]"
  define ops where "ops = replicate MAX_STACK NGCBinaryOp_NoOp"
  note ev = eval_expression_def [of e line _ pos v0, folded vs_def ops_def]
  obtain st pos1 v where r: "rv (pos + 1) (vs ! 0) = Some (st, pos1, v)"
    using True assms(2) by (auto simp: ev Let_def split: option.splits)
  then have r': "rv' (pos + 1) (vs ! 0) = Some (st, pos1, v)" by (rule extendsD [OF assms(1)])
  show ?thesis
  proof (cases "st = Status_OK \<and> pos1 \<le> length line \<and> (\<exists>op pos2. read_operation line pos1 = Inl (op, pos2))")
    case False
    then show ?thesis using assms(2) True r r' by (cases "read_operation line pos1") (auto simp: ev Let_def)
  next
    case op: True
    then obtain op pos2 where op2: "read_operation line pos1 = Inl (op, pos2)" by auto
    then obtain l where l: "eval_loop e line rv (Suc (length line)) pos2 (vs[0 := v]) (ops[0 := op]) 1 = Some l"
      using assms(2) True r op by (auto simp: ev Let_def simp del: eval_loop.simps split: option.splits)
    from eval_loop_mono [OF assms(1) l] l show ?thesis
      using assms(2) True r r' op op2 by (simp add: ev Let_def del: eval_loop.simps)
  qed
qed

lemma integer_mono: "extends rv rv' \<Longrightarrow> read_integer_value e rv pos = Some r \<Longrightarrow> read_integer_value e rv' pos = Some r"
  by (auto simp: read_integer_value_def split: option.splits dest: extendsD)

lemma parameter_mono:
  assumes "extends rv rv'" "read_parameter e p line check rv pos v0 = Some r"
  shows "read_parameter e p line check rv' pos v0 = Some r"
proof (cases "cstr_at line pos = CHR ''#'' \<and> cstr_at line (pos + 1) \<noteq> CHR ''<''")
  case True
  then obtain x where x: "read_integer_value e rv (pos + 1) = Some x"
    using assms(2) by (auto simp: read_parameter_def Let_def split: option.splits)
  from integer_mono [OF assms(1) x] x show ?thesis using True assms(2) by (simp add: read_parameter_def Let_def)
next
  case False
  then show ?thesis using assms(2) by (auto simp: read_parameter_def Let_def split: if_splits)
qed

lemma atan_mono: "extends rv rv' \<Longrightarrow> read_atan e line rv pos v0 = Some r \<Longrightarrow> read_atan e line rv' pos v0 = Some r"
  by (auto simp: read_atan_def split: option.splits if_splits dest: eval_expression_mono)

lemma prm_mono:
  assumes "extends rv rv'" "read_prm e line rv pos v0 = Some r"
  shows "read_prm e line rv' pos v0 = Some r"
proof -
  obtain st pos1 v where x: "read_integer_value e rv pos = Some (st, pos1, v)"
    using assms(2) by (auto simp: read_prm_def Let_def split: option.splits)
  note x' = integer_mono [OF assms(1) x]
  show ?thesis
  proof (cases "st = Status_OK \<and> pos1 \<le> length line \<and> cstr_at line pos1 = CHR '',''")
    case False
    then show ?thesis using assms(2) x x' by (auto simp: read_prm_def Let_def split: if_splits)
  next
    case True
    then obtain y where y: "read_integer_value e rv (pos1 + 1) = Some y"
      using assms(2) x by (auto simp: read_prm_def Let_def split: option.splits)
    from integer_mono [OF assms(1) y] y show ?thesis using True assms(2) x x' by (simp add: read_prm_def Let_def)
  qed
qed

lemma unary_mono:
  assumes "extends rv rv'" "read_unary e p line rv pos v0 = Some r"
  shows "read_unary e p line rv' pos v0 = Some r"
proof (cases "read_operation_unary line pos")
  case (Inr x)
  then show ?thesis using assms(2) by (cases x) (simp add: read_unary_def)
next
  case (Inl x)
  then obtain op pos1 where op: "read_operation_unary line pos = Inl (op, pos1)" by (cases x) auto
  show ?thesis
  proof (cases "cstr_at line pos1 \<noteq> CHR ''['' \<or> op = NGCUnaryOp_Exists \<or> op = NGCUnaryOp_Parameter")
    case True
    then show ?thesis using assms(2) op prm_mono [OF assms(1)] by (auto simp: read_unary_def split: if_splits)
  next
    case False
    then obtain y where y: "eval_expression e line rv pos1 v0 = Some y"
      using assms(2) op by (auto simp: read_unary_def split: option.splits)
    from eval_expression_mono [OF assms(1) y] y show ?thesis using False assms(2) op atan_mono [OF assms(1)]
      by (cases y) (auto simp: read_unary_def split: if_splits)
  qed
qed

lemma body_mono:
  assumes "extends rv rv'"
  shows "extends (real_value_body e p line rv) (real_value_body e p line rv')"
proof -
  define X where "X r r' \<longleftrightarrow> (\<forall>x. r = Some x \<longrightarrow> r' = Some (x :: u8 \<times> nat \<times> f32))" for r r'
  have X: "X r r" "X r r' \<Longrightarrow> X s s' \<Longrightarrow> X (if b then r else s) (if b then r' else s')"
    "X r r' \<Longrightarrow> X (map_option f r) (map_option f r')" for r r' s s' b f
    unfolding X_def by (blast, metis, metis not_None_eq option.map(1,2))
  have h: "X (eval_expression e line rv pos v) (eval_expression e line rv' pos v)"
    "X (read_parameter e p line False rv pos v) (read_parameter e p line False rv' pos v)"
    "X (read_unary e p line rv pos v) (read_unary e p line rv' pos v)" "X (rv pos v) (rv' pos v)" for pos v
    unfolding X_def
    by (intro allI impI, erule eval_expression_mono [OF assms] parameter_mono [OF assms] unary_mono [OF assms] extendsD [OF assms])+
  have "X (real_value_body e p line rv pos v) (real_value_body e p line rv' pos v)" for pos v
    unfolding real_value_body_def Let_def by (intro X(3) X(2) h X(1))
  then show ?thesis unfolding extends_def X_def by blast
qed

lemma real_value_mono: "extends (real_value e p line n) (real_value e p line (n + k))"
proof (induction n)
  case (Suc n)
  then show ?case using body_mono by simp
qed (simp add: extends_def)

lemma real_value_depth:
  assumes "names_fit line" "pos \<le> length line" "length line - pos < n"
  shows "real_value e p line n pos v0 = ngc_read_real_value e p line pos v0"
proof -
  let ?N = "Suc (length line)"
  have "length line + 1 - n \<le> pos" using assms(2,3) by simp
  from value_reader.reads [OF real_value_reader assms(1) this assms(2)] obtain r
    where r: "real_value e p line n pos v0 = Some r" by (metis returns_atE)
  from ngc.reads [OF assms(1) _ assms(2)] obtain r'
    where r': "real_value e p line ?N pos v0 = Some r'" unfolding ngc_read_real_value_def by (metis returns_atE le0)
  have "real_value e p line (n + ?N) pos v0 = Some r" by (rule extendsD [OF real_value_mono r])
  moreover have "real_value e p line (?N + n) pos v0 = Some r'" by (rule extendsD [OF real_value_mono r'])
  ultimately show ?thesis using r r' by (simp add: ngc_read_real_value_def add.commute)
qed

text \<open>The defining equation of the reader, without the depth.\<close>

lemma ngc_read_real_value_rec:
  assumes "names_fit line" "pos \<le> length line"
  shows "ngc_read_real_value e p line pos v0 = real_value_body e p line (ngc_read_real_value e p line) pos v0"
proof -
  have "ngc_read_real_value e p line pos v0 = real_value e p line (Suc (Suc (length line))) pos v0"
    by (rule real_value_depth [symmetric, OF assms]) simp
  also have "\<dots> = real_value_body e p line (ngc_read_real_value e p line) pos v0"
    by (simp add: ngc_read_real_value_def)
  finally show ?thesis .
qed

section \<open>Uninitialised variables\<close>

text \<open>Two readers that agree on what they read without an error, whatever the variable for the result held.\<close>

definition agree :: "reader \<Rightarrow> reader \<Rightarrow> bool" where
  "agree rv rv' \<longleftrightarrow> (\<forall>pos v v'. ok_result (rv pos v) = ok_result (rv' pos v'))"

lemma agreeD: "agree rv rv' \<Longrightarrow> ok_result (rv pos v) = ok_result (rv' pos v')"
  by (simp add: agree_def)

lemma ok_result_simps [simp]:
  "ok_result None = None" "ok_result (Some (st, pos, v)) = (if st = Status_OK then Some (pos, v) else None)"
  by (simp_all add: ok_result_def)

lemma ok_result_eq_Some [simp]: "ok_result r = Some (pos, v) \<longleftrightarrow> r = Some (Status_OK, pos, v)"
  by (auto simp: ok_result_def split: option.splits)

lemma ok_result_eq_None: "ok_result r = None \<longleftrightarrow> (\<forall>pos v. r \<noteq> Some (Status_OK, pos, v))"
  by (auto simp: ok_result_def split: option.splits)

text \<open>The operators do not depend on them.\<close>

lemma execute_binary_junk [simp]: "execute_binary (e\<lparr>ex_junk := j\<rparr>) v op w = execute_binary e v op w"
  by (cases op) (simp_all add: execute_binary_def)

lemma execute_unary_junk [simp]: "execute_unary (e\<lparr>ex_junk := j\<rparr>) v op = execute_unary e v op"
  by (cases op) simp_all

lemma push_junk [simp]: "push (e\<lparr>ex_junk := j\<rparr>) v op s = push e v op s"
  by (induction e v op s rule: push.induct) (auto split: prod.splits)

lemma run_junk [simp]: "run (e\<lparr>ex_junk := j\<rparr>) line rd n pos s = run e line rd n pos s"
proof (induction n arbitrary: pos s)
  case (Suc n)
  then show ?case by (auto split: option.splits sum.splits)
qed simp

lemma expression_agree:
  assumes "agree rv rv'"
  shows "ok_result (eval_expression e line rv pos v) = ok_result (eval_expression (e\<lparr>ex_junk := j\<rparr>) line rv' pos v')"
proof -
  have "ok_result (rv pos v) = ok_result (rv' pos 0)" "ok_result (rv' pos v) = ok_result (rv' pos 0)" for pos v
    using assms unfolding agree_def by metis+
  then show ?thesis
    by (simp add: eval_expression_run [where rd = "\<lambda>pos. ok_result (rv' pos 0)"] run_expression_def del: run.simps)
qed

lemma agree_cases:
  assumes "ok_result r = ok_result r'"
  obtains "ok_result r = None" "ok_result r' = None" | pos v where "r = Some (Status_OK, pos, v)" "r' = Some (Status_OK, pos, v)"
proof (cases "ok_result r")
  case None
  then show ?thesis using that(1) assms by simp
next
  case (Some x)
  then obtain pos v where "ok_result r = Some (pos, v)" by (cases x) auto
  then show ?thesis using that(2) [of pos v] assms ok_result_eq_Some by metis
qed

lemma integer_agree:
  assumes "agree rv rv'"
  shows "ok_result (read_integer_value e rv pos) = ok_result (read_integer_value (e\<lparr>ex_junk := j\<rparr>) rv' pos)"
proof (rule agree_cases [OF agreeD [OF assms, of pos "ex_junk e pos 0" "j pos 0"]])
  assume "ok_result (rv pos (ex_junk e pos 0)) = None" "ok_result (rv' pos (j pos 0)) = None"
  then show ?thesis by (auto simp: read_integer_value_def ok_result_def split: option.splits if_splits)
next
  fix pos1 v assume "rv pos (ex_junk e pos 0) = Some (Status_OK, pos1, v)" "rv' pos (j pos 0) = Some (Status_OK, pos1, v)"
  then show ?thesis by (simp add: read_integer_value_def)
qed

lemma named_get_start:
  "fst (ngc_named_param_get g n v p) = fst (ngc_named_param_get g n v' p)"
  "fst (ngc_named_param_get g n v p) \<Longrightarrow> ngc_named_param_get g n v p = ngc_named_param_get g n v' p"
  by (auto simp: ngc_named_param_get_def Let_def split: option.splits)

lemma parameter_agree:
  assumes "agree rv rv'"
  shows "ok_result (read_parameter e p line check rv pos v) = ok_result (read_parameter (e\<lparr>ex_junk := j\<rparr>) p line check rv' pos v')"
proof (cases "cstr_at line pos = CHR ''#''")
  case False
  then show ?thesis by (simp add: read_parameter_def Status_BadNumberFormat_def)
next
  case True
  show ?thesis
  proof (cases "cstr_at line (pos + 1) = CHR ''<''")
    case n: True
    obtain st pos1 name where r: "ngc_read_name line (pos + 1) = (st, pos1, name)" by (metis prod_cases3)
    obtain ok1 v1 where g: "ngc_named_param_get (ex_named_get e) name v p = (ok1, v1)" by (metis surj_pair)
    obtain ok2 v2 where g': "ngc_named_param_get (ex_named_get e) name v' p = (ok2, v2)" by (metis surj_pair)
    have "ok1 = ok2" "ok1 \<Longrightarrow> v1 = v2"
      using named_get_start [of "ex_named_get e" name v p v'] g g' by auto
    then show ?thesis using True n r g g' by (auto simp: read_parameter_def Status_BadNumberFormat_def)
  next
    case n: False
    show ?thesis
    proof (rule agree_cases [OF integer_agree [OF assms, of e "pos + 1" j]])
      assume "ok_result (read_integer_value e rv (pos + 1)) = None"
        "ok_result (read_integer_value (e\<lparr>ex_junk := j\<rparr>) rv' (pos + 1)) = None"
      then show ?thesis using True n
        by (auto simp: read_parameter_def ok_result_def Let_def split: option.splits if_splits)
    next
      fix pos1 m assume "read_integer_value e rv (pos + 1) = Some (Status_OK, pos1, m)"
        "read_integer_value (e\<lparr>ex_junk := j\<rparr>) rv' (pos + 1) = Some (Status_OK, pos1, m)"
      then show ?thesis using True n
        by (auto simp: read_parameter_def Let_def Status_GcodeValueOutOfRange_def split: prod.splits)
    qed
  qed
qed

lemma atan_agree:
  assumes "agree rv rv'"
  shows "ok_result (read_atan e line rv pos v) = ok_result (read_atan (e\<lparr>ex_junk := j\<rparr>) line rv' pos v)"
proof (rule agree_cases [OF expression_agree [OF assms, of e line "pos + 1" "ex_junk e pos 1" j "j pos 1"]])
  assume "ok_result (eval_expression e line rv (pos + 1) (ex_junk e pos 1)) = None"
    "ok_result (eval_expression (e\<lparr>ex_junk := j\<rparr>) line rv' (pos + 1) (j pos 1)) = None"
  then show ?thesis
    by (auto simp: read_atan_def ok_result_def Status_ExpressionSyntaxError_def split: option.splits if_splits)
next
  fix pos1 w assume "eval_expression e line rv (pos + 1) (ex_junk e pos 1) = Some (Status_OK, pos1, w)"
    "eval_expression (e\<lparr>ex_junk := j\<rparr>) line rv' (pos + 1) (j pos 1) = Some (Status_OK, pos1, w)"
  then show ?thesis by (simp add: read_atan_def Status_ExpressionSyntaxError_def)
qed

lemma setting_result_junk:
  "setting_result (e\<lparr>ex_junk := j\<rparr>) sid b v = setting_result e sid b v"
  "fst (setting_result e sid b v) = fst (setting_result e sid b v')"
  "fst (setting_result e sid b v) = Status_OK \<Longrightarrow> setting_result e sid b v = setting_result e sid b v'"
  by (auto simp: setting_result_def Status_ExpressionArgumentOutOfRange_def Let_def split: setting_value.splits)

text \<open>What is read behind the first number of \<^verbatim>\<open>PRM\<close>.\<close>

definition prm_close :: "expr_env \<Rightarrow> string \<Rightarrow> i32 \<Rightarrow> f32 \<Rightarrow> nat \<Rightarrow> i32 option \<Rightarrow> (nat \<times> f32) option" where
  "prm_close e line sid v pos b =
     (if pos > length line \<or> cstr_at line pos \<noteq> CHR '']'' then None
      else ok_result (let (st, w) = setting_result e sid b v in Some (st, pos + 1, w)))"

lemma prm_close_junk: "prm_close (e\<lparr>ex_junk := j\<rparr>) line sid v' pos b = prm_close e line sid v pos b"
  using setting_result_junk(2,3) [of e sid b v v']
  by (cases "setting_result e sid b v"; cases "setting_result e sid b v'")
    (auto simp: prm_close_def setting_result_junk(1))

lemma ok_result_prm:
  "ok_result (read_prm e line rv pos v) =
     (case ok_result (read_integer_value e rv pos) of
        None \<Rightarrow> None
      | Some (pos1, sid) \<Rightarrow>
          if pos1 > length line then None
          else if cstr_at line pos1 = CHR '',''
          then (case ok_result (read_integer_value e rv (pos1 + 1)) of
                  None \<Rightarrow> None
                | Some (pos2, b) \<Rightarrow> if sint b < 0 \<or> sint b > 31 then None else prm_close e line sid v pos2 (Some b))
          else prm_close e line sid v pos1 None)"
proof (cases "ok_result (read_integer_value e rv pos)")
  case None
  then show ?thesis by (cases "read_integer_value e rv pos") (auto simp: read_prm_def ok_result_eq_None)
next
  case (Some x)
  then obtain pos1 sid where r: "read_integer_value e rv pos = Some (Status_OK, pos1, sid)" by (cases x) auto
  show ?thesis
  proof (cases "cstr_at line pos1 = CHR '',''")
    case False
    then show ?thesis using r by (simp add: read_prm_def prm_close_def Let_def Status_ExpressionSyntaxError_def)
  next
    case True
    show ?thesis
    proof (cases "ok_result (read_integer_value e rv (pos1 + 1))")
      case None
      then show ?thesis using r True
        by (cases "read_integer_value e rv (pos1 + 1)") (auto simp: read_prm_def Let_def ok_result_eq_None)
    next
      case (Some y)
      then obtain pos2 b where "read_integer_value e rv (pos1 + 1) = Some (Status_OK, pos2, b)" by (cases y) auto
      then show ?thesis using r True
        by (simp add: read_prm_def prm_close_def Let_def Status_ExpressionSyntaxError_def Status_ExpressionArgumentOutOfRange_def)
    qed
  qed
qed

lemma prm_agree:
  assumes "agree rv rv'"
  shows "ok_result (read_prm e line rv pos v) = ok_result (read_prm (e\<lparr>ex_junk := j\<rparr>) line rv' pos v')"
  unfolding ok_result_prm integer_agree [OF assms, where j = j] prm_close_junk [where v' = v' and v = v] ..

lemma unary_agree:
  assumes "agree rv rv'"
  shows "ok_result (read_unary e p line rv pos v) = ok_result (read_unary (e\<lparr>ex_junk := j\<rparr>) p line rv' pos v')"
proof (cases "\<exists>op pos1. read_operation_unary line pos = Inl (op, pos1) \<and> cstr_at line pos1 = CHR ''[''")
  case False
  then show ?thesis using read_operation_unary_err_pos [of line pos]
    by (cases "read_operation_unary line pos") (auto simp: read_unary_def Status_ExpressionSyntaxError_def)
next
  case True
  then obtain op pos1 where op: "read_operation_unary line pos = Inl (op, pos1)" "cstr_at line pos1 = CHR ''[''" by auto
  consider "op = NGCUnaryOp_Exists" | "op = NGCUnaryOp_Parameter" | "op \<notin> {NGCUnaryOp_Exists, NGCUnaryOp_Parameter}" by blast
  then show ?thesis
  proof cases
    case 1
    then show ?thesis using op by (simp add: read_unary_def read_exists_def Let_def Status_ExpressionSyntaxError_def)
  next
    case 2
    then show ?thesis using op prm_agree [OF assms] by (simp add: read_unary_def)
  next
    case 3
    show ?thesis
    proof (rule agree_cases [OF expression_agree [OF assms, of e line pos1 v j v']])
      assume "ok_result (eval_expression e line rv pos1 v) = None"
        "ok_result (eval_expression (e\<lparr>ex_junk := j\<rparr>) line rv' pos1 v') = None"
      then show ?thesis using 3 op
        by (cases "eval_expression e line rv pos1 v"; cases "eval_expression (e\<lparr>ex_junk := j\<rparr>) line rv' pos1 v'")
          (auto simp: read_unary_def ok_result_eq_None)
    next
      fix pos2 w assume "eval_expression e line rv pos1 v = Some (Status_OK, pos2, w)"
        "eval_expression (e\<lparr>ex_junk := j\<rparr>) line rv' pos1 v' = Some (Status_OK, pos2, w)"
      then show ?thesis using 3 op atan_agree [OF assms] by (simp add: read_unary_def)
    qed
  qed
qed

lemma ok_result_check: "ok_result (map_option check_result r) =
    (case ok_result r of None \<Rightarrow> None | Some (pos, v) \<Rightarrow> if f32_is_nan v \<or> f32_is_inf v then None else Some (pos, v))"
  by (cases r) (auto simp: check_result_def Status_ExpressionInvalidResult_def split: prod.splits)

lemma ok_result_negate: "ok_result (map_option negate_result r) = map_option (\<lambda>(pos, v). (pos, f32_neg v)) (ok_result r)"
  by (cases r) (auto simp: negate_result_def)

lemma body_agree:
  assumes "agree rv rv'"
  shows "agree (real_value_body e p line rv) (real_value_body (e\<lparr>ex_junk := j\<rparr>) p line rv')"
proof -
  have check: "ok_result (map_option check_result r) = ok_result (map_option check_result r')"
    if "ok_result r = ok_result r'" for r r' using that by (simp add: ok_result_check)
  have branch: "ok_result (map_option f (if b then r else s)) = ok_result (map_option f (if b then r' else s'))"
    if "ok_result (map_option f r) = ok_result (map_option f r')" "ok_result (map_option f s) = ok_result (map_option f s')"
    for f :: "u8 \<times> nat \<times> f32 \<Rightarrow> u8 \<times> nat \<times> f32" and b r r' s s' using that by simp
  have top: "ok_result (if b then None else if c then Some (Status_ExpressionSyntaxError, pos, v) else r) =
      ok_result (if b then None else if c then Some (Status_ExpressionSyntaxError, pos, v') else r')"
    if "ok_result r = ok_result r'" for b c pos and v v' :: f32 and r r'
    using that by (simp add: Status_ExpressionSyntaxError_def)
  have neg: "ok_result (map_option negate_result (rv pos v)) = ok_result (map_option negate_result (rv' pos v'))" for pos v v'
    using agreeD [OF assms, of pos v v'] by (simp add: ok_result_negate)
  have float: "ok_result (Some (case read_float line pos of Some (pos1, v) \<Rightarrow> (Status_OK, pos1, v) | None \<Rightarrow> (Status_BadNumberFormat, pos, v))) =
     ok_result (Some (case read_float line pos of Some (pos1, v) \<Rightarrow> (Status_OK, pos1, v) | None \<Rightarrow> (Status_BadNumberFormat, pos, v')))" for pos v v'
    by (simp add: Status_BadNumberFormat_def split: option.splits)
  show ?thesis
    unfolding agree_def real_value_body_def Let_def
    by (intro allI top branch check expression_agree [OF assms] parameter_agree [OF assms] agreeD [OF assms] neg unary_agree [OF assms] float)
qed

lemma real_value_agree: "agree (real_value e p line n) (real_value (e\<lparr>ex_junk := j\<rparr>) p line n)"
proof (induction n)
  case (Suc n)
  then show ?case by (simp add: body_agree)
qed (simp add: agree_def)

section \<open>Properties of the evaluator\<close>

lemma names_fit_no_name: "CHR ''>'' \<notin> set line \<Longrightarrow> names_fit line"
proof -
  have "t \<noteq> CHR ''>''" if "CHR ''>'' \<notin> set s" "name_loop s len = (n, t)" for s len n t
    using that by (induction s len arbitrary: n rule: name_loop.induct) (auto simp: NUL_def split: if_splits prod.splits)
  moreover assume "CHR ''>'' \<notin> set line"
  then have "CHR ''>'' \<notin> set (drop i line)" for i by (blast dest: in_set_dropD)
  ultimately show "names_fit line" unfolding names_fit_def by blast
qed

text \<open>
  C6. Reading an expression always comes to an end, whatever the line holds: with a depth of recursion of one more
  than the length of the line every reader returns, no more than five entries of the stacks of seven are in use, and
  nothing is read behind the terminator of the line. The position that is left is in the line and
  behind the one before if there was no error. (The names in the line must fit: one of 31 characters is written
  over the end of its buffer.)
\<close>

theorem ngc_eval_expression_returns:
  assumes "names_fit line" "pos \<le> length line"
  shows "(\<exists>st pos1 v. ngc_eval_expression e p line pos v0 = Some (st, pos1, v) \<and> pos1 \<le> length line + 1 \<and>
      (st = Status_OK \<longrightarrow> pos < pos1 \<and> pos1 \<le> length line)) \<and>
    (\<exists>st pos1 v. ngc_read_real_value e p line pos v0 = Some (st, pos1, v) \<and> pos1 \<le> length line + 1 \<and>
      (st = Status_OK \<longrightarrow> pos < pos1 \<and> pos1 \<le> length line))"
proof
  show "\<exists>st pos1 v. ngc_eval_expression e p line pos v0 = Some (st, pos1, v) \<and> pos1 \<le> length line + 1 \<and>
      (st = Status_OK \<longrightarrow> pos < pos1 \<and> pos1 \<le> length line)"
    using ngc.expression_returns [OF assms(1) _ assms(2), of e e p v0] unfolding ngc_eval_expression_def
    by (auto elim: returns_atE)
  show "\<exists>st pos1 v. ngc_read_real_value e p line pos v0 = Some (st, pos1, v) \<and> pos1 \<le> length line + 1 \<and>
      (st = Status_OK \<longrightarrow> pos < pos1 \<and> pos1 \<le> length line)"
    using ngc.reads [OF assms(1) _ assms(2), of e p v0] by (auto elim: returns_atE)
qed

theorem ngc_eval_expression_returns_witness:
  "\<forall>e p v0. \<exists>st pos1 v. ngc_eval_expression e p ''[1+[2*#3]-SIN[-[#<a]]'' 0 v0 = Some (st, pos1, v)"
  (is "\<forall>e p v0. ?P e p v0")
proof (intro allI)
  fix e p v0
  have "names_fit ''[1+[2*#3]-SIN[-[#<a]]''" by (rule names_fit_no_name) simp
  from ngc_eval_expression_returns [OF this, of 0 e p v0] show "?P e p v0" by auto
qed

lemma ngc_read_real_value_agree: "agree (ngc_read_real_value e p line) (ngc_read_real_value (e\<lparr>ex_junk := j\<rparr>) p line)"
  unfolding ngc_read_real_value_def by (rule real_value_agree)

text \<open>
  C22. The variables of the evaluator that have not been set when they are read (the slots of the stack of values,
  which are passed to the readers, and the results of failed readings, which are tested for being a
  number) do not influence what is evaluated: neither whether there is an error, nor the value and the
  position if there is none.
\<close>

theorem ngc_eval_expression_initialised:
  "ok_result (ngc_eval_expression e p line pos v0) = ok_result (ngc_eval_expression (e\<lparr>ex_junk := j\<rparr>) p line pos v1) \<and>
   ok_result (ngc_read_real_value e p line pos v0) = ok_result (ngc_read_real_value (e\<lparr>ex_junk := j\<rparr>) p line pos v1)"
  unfolding ngc_eval_expression_def
  by (intro conjI expression_agree agreeD ngc_read_real_value_agree)

end
