(* ===== verification/Ngc_expr_spec.thy ===== *)
theory Ngc_expr_spec
  imports Ngc_expr
begin

text \<open>
  What the expression evaluator means: expressions as trees, their text and their value. A tree is
  in order if its operators associate as the precedences say; the text of such a tree, in brackets, is
  evaluated to the value of the tree.
\<close>

section \<open>Trees\<close>

datatype expr =
    Num u32 | Par u16 | Brk expr | Fun ngc_unary_op expr | Neg expr | Bin ngc_binary_op expr expr

fun binop_name :: "ngc_binary_op \<Rightarrow> string" where
  "binop_name NGCBinaryOp_Plus = ''+''"
| "binop_name NGCBinaryOp_Minus = ''-''"
| "binop_name NGCBinaryOp_DividedBy = ''/''"
| "binop_name NGCBinaryOp_Times = ''*''"
| "binop_name NGCBinaryOp_Power = ''**''"
| "binop_name NGCBinaryOp_RightBracket = '']''"
| "binop_name NGCBinaryOp_And2 = ''AND''"
| "binop_name NGCBinaryOp_Modulo = ''MOD''"
| "binop_name NGCBinaryOp_NotExclusiveOR = ''OR''"
| "binop_name NGCBinaryOp_ExclusiveOR = ''XOR''"
| "binop_name NGCBinaryOp_EQ = ''EQ''"
| "binop_name NGCBinaryOp_NE = ''NE''"
| "binop_name NGCBinaryOp_GE = ''GE''"
| "binop_name NGCBinaryOp_GT = ''GT''"
| "binop_name NGCBinaryOp_LE = ''LE''"
| "binop_name NGCBinaryOp_LT = ''LT''"
| "binop_name NGCBinaryOp_NoOp = ''''"

fun unary_name :: "ngc_unary_op \<Rightarrow> string" where
  "unary_name NGCUnaryOp_ABS = ''ABS''"
| "unary_name NGCUnaryOp_ACOS = ''ACOS''"
| "unary_name NGCUnaryOp_ASIN = ''ASIN''"
| "unary_name NGCUnaryOp_ATAN = ''ATAN''"
| "unary_name NGCUnaryOp_COS = ''COS''"
| "unary_name NGCUnaryOp_EXP = ''EXP''"
| "unary_name NGCUnaryOp_FIX = ''FIX''"
| "unary_name NGCUnaryOp_FUP = ''FUP''"
| "unary_name NGCUnaryOp_LN = ''LN''"
| "unary_name NGCUnaryOp_Round = ''ROUND''"
| "unary_name NGCUnaryOp_SIN = ''SIN''"
| "unary_name NGCUnaryOp_SQRT = ''SQRT''"
| "unary_name NGCUnaryOp_TAN = ''TAN''"
| "unary_name NGCUnaryOp_Exists = ''EXISTS''"
| "unary_name NGCUnaryOp_Parameter = ''PRM''"

fun print_expr :: "expr \<Rightarrow> string" where
  "print_expr (Num n) = uitoa n"
| "print_expr (Par n) = ''#'' @ uitoa (ucast n)"
| "print_expr (Brk t) = ''['' @ print_expr t @ '']''"
| "print_expr (Fun u t) = unary_name u @ ''['' @ print_expr t @ '']''"
| "print_expr (Neg t) = ''-'' @ print_expr t"
| "print_expr (Bin op l r) = print_expr l @ binop_name op @ print_expr r"

text \<open>The value, if there is no error. The result of a bracket, a function or a parameter has to be finite.\<close>

definition finite_value :: "f32 \<Rightarrow> f32 option" where
  "finite_value v = (if f32_is_nan v \<or> f32_is_inf v then None else Some v)"

fun value_of :: "expr_env \<Rightarrow> 'm ngc_params \<Rightarrow> expr \<Rightarrow> f32 option" where
  "value_of e p (Num n) = Some (f32_of_u32 n)"
| "value_of e p (Par n) = (let (ok, v) = ngc_param_get (ex_ro_get e) n p in if ok then finite_value v else None)"
| "value_of e p (Brk t) = (case value_of e p t of None \<Rightarrow> None | Some v \<Rightarrow> finite_value v)"
| "value_of e p (Fun u t) =
     (case value_of e p t of
        None \<Rightarrow> None
      | Some v \<Rightarrow> let (st, w) = execute_unary e v u in if st = Status_OK then finite_value w else None)"
| "value_of e p (Neg t) = map_option f32_neg (value_of e p t)"
| "value_of e p (Bin op l r) =
     (case value_of e p l of
        None \<Rightarrow> None
      | Some v \<Rightarrow>
          (case value_of e p r of
             None \<Rightarrow> None
           | Some w \<Rightarrow> let (st, x) = execute_binary e v op w in if st = Status_OK then Some x else None))"

text \<open>The operators of a tree that are not in brackets.\<close>

fun operators :: "expr \<Rightarrow> ngc_binary_op list" where
  "operators (Bin op l r) = operators l @ op # operators r"
| "operators t = []"

definition is_operand :: "expr \<Rightarrow> bool" where
  "is_operand t \<longleftrightarrow> operators t = []"

text \<open>
  How tightly the operators bind, as the dialect of G-code has it: powers most tightly, then the multiplicative
  operators, the additive ones, the comparisons and, last, the logical ones.
\<close>

definition binding :: "ngc_binary_op \<Rightarrow> nat" where
  "binding op =
     (if op = NGCBinaryOp_Power then 6
      else if op \<in> {NGCBinaryOp_Times, NGCBinaryOp_DividedBy, NGCBinaryOp_Modulo} then 5
      else if op \<in> {NGCBinaryOp_Plus, NGCBinaryOp_Minus} then 4
      else if op \<in> {NGCBinaryOp_EQ, NGCBinaryOp_NE, NGCBinaryOp_GT, NGCBinaryOp_GE, NGCBinaryOp_LT, NGCBinaryOp_LE} then 3
      else if op \<in> {NGCBinaryOp_And2, NGCBinaryOp_NotExclusiveOR, NGCBinaryOp_ExclusiveOR} then 2
      else if op = NGCBinaryOp_NoOp then 5
      else 1)"

lemma binding_precedence: "binding op = precedence op"
  by (cases op) (simp_all add: binding_def)

text \<open>Operators that bind equally associate to the left. Numbers are those that are represented exactly.\<close>

fun in_order :: "expr \<Rightarrow> bool" where
  "in_order (Num n) \<longleftrightarrow> unat n < 2 ^ 24"
| "in_order (Par n) \<longleftrightarrow> True"
| "in_order (Brk t) \<longleftrightarrow> in_order t"
| "in_order (Fun u t) \<longleftrightarrow> u \<notin> {NGCUnaryOp_ATAN, NGCUnaryOp_Exists, NGCUnaryOp_Parameter} \<and> in_order t"
| "in_order (Neg t) \<longleftrightarrow> in_order t \<and> (case t of Num _ \<Rightarrow> False | Bin _ _ _ \<Rightarrow> False | _ \<Rightarrow> True)"
| "in_order (Bin op l r) \<longleftrightarrow> in_order l \<and> in_order r \<and> op \<notin> {NGCBinaryOp_NoOp, NGCBinaryOp_RightBracket} \<and>
     (\<forall>o1\<in>set (operators l). binding op \<le> binding o1) \<and> (\<forall>o1\<in>set (operators r). binding op < binding o1)"

declare in_order.simps(6) [unfolded binding_precedence, simp]
declare in_order.simps(6) [simp del]

section \<open>Reading what was printed\<close>

lemma cstr_at_pre_at: "cstr_at (pre @ s) (length pre + k) = cstr_at s k"
  by (simp add: cstr_at_def nth_append)

lemma cstr_at_Cons [simp]: "cstr_at (c # s) 0 = c" "cstr_at (c # s) (Suc k) = cstr_at s k"
  by (simp_all add: cstr_at_def)

lemma starts_with_Cons [simp]: "starts_with (c # s) (d # lit) \<longleftrightarrow> c = d \<and> starts_with s lit" "starts_with s []"
  "\<not> starts_with [] (d # lit)"
  by (auto simp: starts_with_def)

lemma read_operation_name:
  assumes "op \<noteq> NGCBinaryOp_NoOp" "op = NGCBinaryOp_Times \<Longrightarrow> cstr_at rest 0 \<noteq> CHR ''*''"
  shows "read_operation (pre @ binop_name op @ rest) (length pre) = Inl (op, length pre + length (binop_name op))"
proof -
  have c1: "cstr_at (pre @ s) (Suc (length pre)) = cstr_at s 1" for s using cstr_at_pre_at [of pre s 1] by simp
  show ?thesis using assms by (cases op) (simp_all add: read_operation_def Let_def c1)
qed

lemma read_operation_unary_name:
  "read_operation_unary (pre @ unary_name u @ rest) (length pre) = Inl (u, length pre + length (unary_name u))"
proof -
  have c1: "cstr_at (pre @ s) (Suc (length pre)) = cstr_at s 1" for s using cstr_at_pre_at [of pre s 1] by simp
  show ?thesis by (cases u) (simp_all add: read_operation_unary_def Let_def c1)
qed

lemma stops_binop: "op \<noteq> NGCBinaryOp_NoOp \<Longrightarrow> stops_number (binop_name op @ rest)"
  by (cases op) (simp_all add: stops_number_def is_digit_def)

text \<open>The first character of an expression.\<close>

lemma unary_name_first: "\<exists>c s. unary_name u = c # s \<and> is_upper c"
  by (cases u) (simp_all add: is_upper_def)

lemma print_expr_first:
  "in_order t \<Longrightarrow> \<exists>c. cstr_at (print_expr t @ rest) 0 = c \<and> c \<noteq> CHR ''*'' \<and> c \<noteq> NUL \<and>
     ((case t of Num _ \<Rightarrow> False | Bin _ _ _ \<Rightarrow> False | _ \<Rightarrow> True) \<longrightarrow> \<not> is_digit c \<and> c \<noteq> CHR ''.'')"
proof (induction t arbitrary: rest)
  case (Num n)
  obtain d where d: "d < 10" "cstr_at (uitoa n @ rest) 0 = digit_char d" using uitoa_first by blast
  then have "is_digit (cstr_at (uitoa n @ rest) 0)" by simp
  then show ?case by (auto simp: is_digit_def NUL_def)
next
  case (Fun u t)
  obtain c s where "unary_name u = c # s" "is_upper c" using unary_name_first by blast
  then show ?case by (auto simp: is_upper_def is_digit_def NUL_def)
qed (auto simp: is_digit_def NUL_def)

section \<open>The readers on printed operands\<close>

text \<open>What is read at a position, without the variables that have not been set.\<close>

definition reads :: "expr_env \<Rightarrow> 'm ngc_params \<Rightarrow> string \<Rightarrow> nat \<Rightarrow> (nat \<times> f32) option" where
  "reads e p line pos = ok_result (ngc_read_real_value e p line pos 0)"

lemma reads_eq: "ok_result (ngc_read_real_value e p line pos v) = reads e p line pos"
  using agreeD [OF ngc_read_real_value_agree [of e p line "ex_junk e"], of pos v 0] by (simp add: reads_def)

lemma reads_body:
  assumes "names_fit line" "pos \<le> length line"
  shows "reads e p line pos = ok_result (real_value_body e p line (ngc_read_real_value e p line) pos v)"
  unfolding reads_eq [symmetric, of e p line pos v] ngc_read_real_value_rec [OF assms] ..

text \<open>The branches of the reader by the first character.\<close>

definition checked :: "(nat \<times> f32) option \<Rightarrow> (nat \<times> f32) option" where
  "checked r = (case r of None \<Rightarrow> None | Some (pos, v) \<Rightarrow> if f32_is_nan v \<or> f32_is_inf v then None else Some (pos, v))"

lemma reads_bracket:
  assumes "names_fit line" "pos \<le> length line" "cstr_at line pos = CHR ''[''"
  shows "reads e p line pos = checked (run_expression e line (reads e p line) pos)"
  unfolding reads_body [OF assms(1,2), where v = 0]
  using assms(2,3) eval_expression_run [of "ngc_read_real_value e p line", OF reads_eq]
  by (simp add: real_value_body_def Let_def ok_result_check checked_def)

lemma reads_minus:
  assumes "names_fit line" "pos \<le> length line" "cstr_at line pos = CHR ''-''" "cstr_at line (pos + 1) \<noteq> NUL"
    "\<not> is_digit (cstr_at line (pos + 1))" "cstr_at line (pos + 1) \<noteq> CHR ''.''"
  shows "reads e p line pos = checked (map_option (\<lambda>(pos, v). (pos, f32_neg v)) (reads e p line (pos + 1)))"
  unfolding reads_body [OF assms(1,2), where v = 0]
  using assms(2-6)
  by (simp add: real_value_body_def Let_def ok_result_check checked_def is_sign_of_value_def ok_result_negate reads_eq)

lemma reads_parameter:
  assumes "names_fit line" "pos \<le> length line" "cstr_at line pos = CHR ''#''"
  shows "reads e p line pos = checked (ok_result (read_parameter e p line False (ngc_read_real_value e p line) pos 0))"
  unfolding reads_body [OF assms(1,2), where v = 0]
  using assms(2,3) by (simp add: real_value_body_def Let_def ok_result_check checked_def)

lemma reads_unary:
  assumes "names_fit line" "pos \<le> length line" "is_upper (cstr_at line pos)"
  shows "reads e p line pos = checked (ok_result (read_unary e p line (ngc_read_real_value e p line) pos 0))"
proof -
  have "cstr_at line pos \<notin> {CHR ''['', CHR ''#'', CHR ''+'', CHR ''-'', NUL}"
    using assms(3) by (auto simp: is_upper_def NUL_def)
  then show ?thesis unfolding reads_body [OF assms(1,2), where v = 0]
    using assms(2,3) by (simp add: real_value_body_def Let_def ok_result_check checked_def is_sign_of_value_def)
qed

lemma reads_number:
  assumes "names_fit line" "pos \<le> length line" "is_digit (cstr_at line pos)"
  shows "reads e p line pos = checked (read_float line pos)"
proof -
  have "cstr_at line pos \<notin> {CHR ''['', CHR ''#'', CHR ''+'', CHR ''-'', NUL}" "\<not> is_upper (cstr_at line pos)"
    using assms(3) by (auto simp: is_upper_def is_digit_def NUL_def)
  then show ?thesis unfolding reads_body [OF assms(1,2), where v = 0]
    using assms(2) by (simp add: real_value_body_def Let_def ok_result_check checked_def is_sign_of_value_def
        Status_BadNumberFormat_def check_result_def Status_ExpressionInvalidResult_def split: option.splits)
qed

text \<open>What the text of a tree reads as, at the end of \<open>pre\<close>.\<close>

definition outcome :: "string \<Rightarrow> string \<Rightarrow> f32 option \<Rightarrow> (nat \<times> f32) option" where
  "outcome pre txt r = map_option (\<lambda>v. (length pre + length txt, v)) r"

lemma checked_outcome: "checked (outcome pre txt r) = outcome pre txt (case r of None \<Rightarrow> None | Some v \<Rightarrow> finite_value v)"
  by (cases r) (simp_all add: outcome_def checked_def finite_value_def)

lemma finite_parts: "f32_is_finite v \<Longrightarrow> \<not> f32_is_nan v \<and> \<not> f32_is_inf v"
  by (simp add: f32_is_finite_def f32_is_nan_def f32_is_inf_def)

lemma reads_uitoa:
  assumes "names_fit (pre @ uitoa n @ rest)" "stops_number rest" "unat n < 2 ^ 24"
  shows "reads e p (pre @ uitoa n @ rest) (length pre) = Some (length pre + length (uitoa n), f32_of_u32 n)"
proof -
  obtain d where d: "d < 10" "cstr_at (uitoa n @ rest) 0 = digit_char d" using uitoa_first by blast
  then have "is_digit (cstr_at (pre @ uitoa n @ rest) (length pre))" by simp
  from reads_number [OF assms(1) _ this] have "reads e p (pre @ uitoa n @ rest) (length pre) =
      checked (read_float (pre @ uitoa n @ rest) (length pre))" by simp
  also have "read_float (pre @ uitoa n @ rest) (length pre) = Some (length pre + length (uitoa n), f32_of_u32 n)"
    using assms(2,3) by (intro read_float_uitoa) simp_all
  also have "checked \<dots> = Some (length pre + length (uitoa n), f32_of_u32 n)"
    using finite_parts [OF f32_of_nat_exact(1) [OF assms(3)]] by (simp add: checked_def f32_of_u32_def)
  finally show ?thesis .
qed

lemma integer_of_u32: "unat n < 2 ^ 24 \<Longrightarrow> integer_of (f32_of_u32 n) = (Status_OK, n)"
proof -
  assume n: "unat n < 2 ^ 24"
  note x = f32_of_nat_exact [OF n]
  have "f32_sub (f32_of_u32 n) (f32_of_u32 n) = 0"
    using finite_parts [OF x(1)] by (intro f32_sub_self) (simp_all add: f32_of_u32_def)
  moreover have "\<not> f32_less 0x3F7FF972 0" "\<not> f32_less 0x38D1B717 0" by (simp_all add: f32_eval)
  ultimately show ?thesis using x by (simp add: integer_of_def f32_of_u32_def Let_def)
qed

lemma sint_ucast_u16: "\<not> sint (ucast (n :: u16) :: i32) < 0"
proof -
  have l: "unat n < 65536" using unsigned_less [of n, where 'a = nat] by simp
  have "sint (of_nat m :: i32) = int m" if "m < 65536" for m
    using that by (simp add: signed_of_nat signed_take_bit_int_eq_self)
  from this [OF l] have "0 \<le> sint (of_nat (unat n) :: i32)" by linarith
  then show ?thesis by simp
qed

lemma integer_uitoa:
  assumes "names_fit (pre @ uitoa (ucast n) @ rest)" "stops_number rest"
  shows "read_integer_value e (ngc_read_real_value e p (pre @ uitoa (ucast n) @ rest)) (length pre) =
    Some (Status_OK, length pre + length (uitoa (ucast n)), ucast (n :: u16))"
proof -
  let ?line = "pre @ uitoa (ucast n) @ rest" and ?n = "ucast n :: u32"
  have l: "unat n < 65536" using unsigned_less [of n, where 'a = nat] by simp
  then have "unat ?n = unat n" by (simp add: unsigned_ucast_eq take_bit_nat_eq_self)
  with l have n: "unat ?n < 2 ^ 24" by simp
  have "reads e p ?line (length pre) = Some (length pre + length (uitoa ?n), f32_of_u32 ?n)"
    by (rule reads_uitoa [OF assms n])
  then have "ngc_read_real_value e p ?line (length pre) v = Some (Status_OK, length pre + length (uitoa ?n), f32_of_u32 ?n)" for v
    unfolding reads_eq [symmetric, of e p ?line "length pre" v] by simp
  then show ?thesis unfolding read_integer_value_def by (simp add: integer_of_u32 [OF n])
qed

text \<open>A numbered parameter is looked up, and the position is behind its number, whether it exists or not.\<close>

lemma parameter_uitoa:
  assumes "names_fit (pre @ ''#'' @ uitoa (ucast n) @ rest)" "stops_number rest"
  shows "ngc_read_parameter e p (pre @ ''#'' @ uitoa (ucast (n :: u16)) @ rest) check (length pre) v0 =
    Some (if (check \<longrightarrow> ngc_param_exists n) \<and> fst (ngc_param_get (ex_ro_get e) n p) then Status_OK else Status_GcodeValueOutOfRange,
      length pre + 1 + length (uitoa (ucast n)),
      if check \<longrightarrow> ngc_param_exists n then snd (ngc_param_get (ex_ro_get e) n p) else v0)"
proof -
  let ?line = "pre @ ''#'' @ uitoa (ucast n) @ rest"
  have c1: "cstr_at ?line (length pre + 1) \<noteq> CHR ''<''"
  proof -
    obtain d where d: "d < 10" "cstr_at (uitoa (ucast n) @ rest) 0 = digit_char d" using uitoa_first by blast
    then have "is_digit (cstr_at ?line (length pre + 1))" unfolding cstr_at_pre_at by simp
    then show ?thesis by (auto simp: is_digit_def)
  qed
  have i: "read_integer_value e (ngc_read_real_value e p ?line) (length pre + 1) =
      Some (Status_OK, length pre + 1 + length (uitoa (ucast n)), ucast n)"
    using integer_uitoa [of "pre @ ''#''" n rest e p] assms by simp
  have "ucast (ucast n :: u32) = n" by (rule ucast_up_ucast_id) (simp add: is_up)
  then show ?thesis using c1 i sint_ucast_u16 [of n]
    by (auto simp: ngc_read_parameter_def read_parameter_def Let_def split: prod.splits)
qed

lemma reads_par:
  assumes "names_fit (pre @ ''#'' @ uitoa (ucast n) @ rest)" "stops_number rest"
  shows "reads e p (pre @ ''#'' @ uitoa (ucast (n :: u16)) @ rest) (length pre) =
    outcome pre (''#'' @ uitoa (ucast n)) (value_of e p (Par n))"
proof -
  let ?line = "pre @ ''#'' @ uitoa (ucast n) @ rest"
  have c: "cstr_at ?line (length pre) = CHR ''#''" by simp
  have "reads e p ?line (length pre) = checked (ok_result (ngc_read_parameter e p ?line False (length pre) 0))"
    unfolding ngc_read_parameter_def by (rule reads_parameter [OF assms(1) _ c]) simp
  then show ?thesis unfolding parameter_uitoa [OF assms]
    by (cases "ngc_param_get (ex_ro_get e) n p") (auto simp: checked_def outcome_def finite_value_def Status_GcodeValueOutOfRange_def)
qed

section \<open>Trees are evaluated to their values\<close>

text \<open>A run of the abstract machine over the text of a tree and the operator behind it.\<close>

definition runs_tree :: "expr_env \<Rightarrow> 'm ngc_params \<Rightarrow> expr \<Rightarrow> bool" where
  "runs_tree e p t \<longleftrightarrow> (\<forall>pre rest line op s n.
     line = pre @ print_expr t @ binop_name op @ rest \<longrightarrow> names_fit line \<longrightarrow> op \<noteq> NGCBinaryOp_NoOp \<longrightarrow>
     (op = NGCBinaryOp_Times \<longrightarrow> cstr_at rest 0 \<noteq> CHR ''*'') \<longrightarrow>
     (\<forall>o1\<in>set (operators t). precedence op \<le> precedence o1) \<longrightarrow>
     (s \<noteq> [] \<longrightarrow> snd (last s) \<noteq> NGCBinaryOp_RightBracket) \<longrightarrow>
     (s \<noteq> [] \<longrightarrow> (\<forall>o1\<in>set (operators t). precedence (snd (hd s)) < precedence o1)) \<longrightarrow>
     length line - length pre < n \<longrightarrow>
     (case value_of e p t of
        None \<Rightarrow> run e line (reads e p line) n (length pre) s = None
      | Some v \<Rightarrow>
          (case push e v op s of
             None \<Rightarrow> run e line (reads e p line) n (length pre) s = None
           | Some s1 \<Rightarrow>
               \<exists>n1. length line - length (pre @ print_expr t @ binop_name op) < n1 \<and>
                 run e line (reads e p line) n (length pre) s =
                 run e line (reads e p line) n1 (length (pre @ print_expr t @ binop_name op)) s1)))"

definition reads_tree :: "expr_env \<Rightarrow> 'm ngc_params \<Rightarrow> expr \<Rightarrow> bool" where
  "reads_tree e p t \<longleftrightarrow> (\<forall>pre rest. names_fit (pre @ print_expr t @ rest) \<longrightarrow> stops_number rest \<longrightarrow>
     reads e p (pre @ print_expr t @ rest) (length pre) = outcome pre (print_expr t) (value_of e p t))"

lemma binop_name_length: "op \<noteq> NGCBinaryOp_NoOp \<Longrightarrow> 1 \<le> length (binop_name op)"
  by (cases op) simp_all

lemma operand_runs:
  assumes "reads_tree e p t" "operators t = []"
  shows "runs_tree e p t"
  unfolding runs_tree_def
proof (intro allI impI)
  fix pre rest line op and s :: "(f32 \<times> ngc_binary_op) list" and n
  assume line: "line = pre @ print_expr t @ binop_name op @ rest" and fit: "names_fit line" and op: "op \<noteq> NGCBinaryOp_NoOp"
    and star: "op = NGCBinaryOp_Times \<longrightarrow> cstr_at rest 0 \<noteq> CHR ''*''"
    and s: "s \<noteq> [] \<longrightarrow> snd (last s) \<noteq> NGCBinaryOp_RightBracket" and n: "length line - length pre < n"
  obtain m where m: "n = Suc m" using n by (cases n) auto
  have rd: "reads e p line (length pre) = outcome pre (print_expr t) (value_of e p t)"
    using assms(1) fit stops_binop [OF op, of rest] unfolding reads_tree_def line by blast
  have ro: "read_operation line (length pre + length (print_expr t)) =
      Inl (op, length (pre @ print_expr t @ binop_name op))"
    using read_operation_name [of op rest "pre @ print_expr t"] op star line by simp
  have len: "length pre + length (print_expr t) \<le> length line" "length (binop_name op) \<ge> 1"
    using line binop_name_length [OF op] by simp_all
  have g: "\<not> (s \<noteq> [] \<and> snd (last s) = NGCBinaryOp_RightBracket)" using s by blast
  show "case value_of e p t of
        None \<Rightarrow> run e line (reads e p line) n (length pre) s = None
      | Some v \<Rightarrow>
          (case push e v op s of
             None \<Rightarrow> run e line (reads e p line) n (length pre) s = None
           | Some s1 \<Rightarrow>
               \<exists>n1. length line - length (pre @ print_expr t @ binop_name op) < n1 \<and>
                 run e line (reads e p line) n (length pre) s =
                 run e line (reads e p line) n1 (length (pre @ print_expr t @ binop_name op)) s1)"
  proof (cases "value_of e p t")
    case None
    then show ?thesis using rd g by (simp add: m outcome_def del: not_not de_Morgan_conj)
  next
    case (Some v)
    have st: "run e line (reads e p line) n (length pre) s =
        (case push e v op s of None \<Rightarrow> None
         | Some s1 \<Rightarrow> run e line (reads e p line) m (length (pre @ print_expr t @ binop_name op)) s1)"
      unfolding m run.simps(2) if_not_P [OF g] rd using Some len(1) ro by (simp add: outcome_def split: option.split)
    have "length line - length (pre @ print_expr t @ binop_name op) < m" using n len line m by simp
    then show ?thesis unfolding st using Some by (auto split: option.splits)
  qed
qed

lemma run_brackets:
  assumes "runs_tree e p t" "line = pre @ ''['' @ print_expr t @ '']'' @ rest" "names_fit line"
  shows "run_expression e line (reads e p line) (length pre) = outcome pre (''['' @ print_expr t @ '']'') (value_of e p t)"
proof -
  let ?n = "Suc (Suc (length line))" and ?pre = "pre @ ''[''"
  have l: "line = ?pre @ print_expr t @ binop_name NGCBinaryOp_RightBracket @ rest" using assms(2) by simp
  have b: "\<forall>o1\<in>set (operators t). precedence NGCBinaryOp_RightBracket \<le> precedence o1" using precedence_bounds(1) by simp
  have nn: "length line - length ?pre < ?n" by simp
  have c: "length pre \<le> length line" "cstr_at line (length pre) = CHR ''[''" using assms(2) by simp_all
  have "case value_of e p t of
        None \<Rightarrow> run e line (reads e p line) ?n (length ?pre) [] = None
      | Some v \<Rightarrow>
          (case push e v NGCBinaryOp_RightBracket [] of
             None \<Rightarrow> run e line (reads e p line) ?n (length ?pre) [] = None
           | Some s1 \<Rightarrow>
               \<exists>n1. length line - length (?pre @ print_expr t @ binop_name NGCBinaryOp_RightBracket) < n1 \<and>
                 run e line (reads e p line) ?n (length ?pre) [] =
                 run e line (reads e p line) n1 (length (?pre @ print_expr t @ binop_name NGCBinaryOp_RightBracket)) s1)"
    by (rule assms(1) [unfolded runs_tree_def, rule_format, OF l assms(3)]) (use b nn in simp_all)
  moreover have "run e line (reads e p line) n1 q [(v, NGCBinaryOp_RightBracket)] = Some (q, v)" if "k < n1" for k n1 q v
    using that by (cases n1) simp_all
  ultimately show ?thesis using c
    by (auto simp: run_expression_def outcome_def simp del: run.simps split: option.splits)
qed

lemma binary_runs:
  assumes l: "runs_tree e p l" and r: "runs_tree e p r" and io: "in_order (Bin o1 l r)"
  shows "runs_tree e p (Bin o1 l r)"
  unfolding runs_tree_def
proof (intro allI impI)
  fix pre rest line op and s :: "(f32 \<times> ngc_binary_op) list" and n
  let ?run = "run e line (reads e p line)"
  assume line: "line = pre @ print_expr (Bin o1 l r) @ binop_name op @ rest" and fit: "names_fit line" and op: "op \<noteq> NGCBinaryOp_NoOp"
    and star: "op = NGCBinaryOp_Times \<longrightarrow> cstr_at rest 0 \<noteq> CHR ''*''"
    and low: "\<forall>o2\<in>set (operators (Bin o1 l r)). precedence op \<le> precedence o2"
    and s: "s \<noteq> [] \<longrightarrow> snd (last s) \<noteq> NGCBinaryOp_RightBracket"
    and high: "s \<noteq> [] \<longrightarrow> (\<forall>o2\<in>set (operators (Bin o1 l r)). precedence (snd (hd s)) < precedence o2)"
    and n: "length line - length pre < n"
  let ?pre = "pre @ print_expr l @ binop_name o1" and ?stop = "length (pre @ print_expr (Bin o1 l r) @ binop_name op)"
  have io': "in_order l" "in_order r" "o1 \<noteq> NGCBinaryOp_NoOp" "o1 \<noteq> NGCBinaryOp_RightBracket"
    "\<forall>o2\<in>set (operators l). precedence o1 \<le> precedence o2" "\<forall>o2\<in>set (operators r). precedence o1 < precedence o2"
    using io by simp_all
  have fst: "cstr_at (print_expr r @ binop_name op @ rest) 0 \<noteq> CHR ''*''" using print_expr_first [OF io'(2)] by auto
  have lineL: "line = pre @ print_expr l @ binop_name o1 @ (print_expr r @ binop_name op @ rest)" using line by simp
  have lineR: "line = ?pre @ print_expr r @ binop_name op @ rest" using line by simp
  have L: "case value_of e p l of None \<Rightarrow> ?run n (length pre) s = None
      | Some v \<Rightarrow> (case push e v o1 s of None \<Rightarrow> ?run n (length pre) s = None
         | Some s1 \<Rightarrow> \<exists>n1. length line - length ?pre < n1 \<and> ?run n (length pre) s = ?run n1 (length ?pre) s1)"
    by (rule l [unfolded runs_tree_def, rule_format, OF lineL fit]) (use io' fst s high n in auto)
  show "case value_of e p (Bin o1 l r) of
        None \<Rightarrow> ?run n (length pre) s = None
      | Some v \<Rightarrow>
          (case push e v op s of
             None \<Rightarrow> ?run n (length pre) s = None
           | Some s1 \<Rightarrow> \<exists>n1. length line - ?stop < n1 \<and> ?run n (length pre) s = ?run n1 ?stop s1)"
  proof (cases "value_of e p l")
    case None
    then show ?thesis using L by simp
  next
    case (Some v)
    have ps: "push e v o1 s = Some ((v, o1) # s)" using high by (cases s) auto
    with L Some obtain n1 where n1: "length line - length ?pre < n1" "?run n (length pre) s = ?run n1 (length ?pre) ((v, o1) # s)"
      by auto
    have R: "case value_of e p r of None \<Rightarrow> ?run n1 (length ?pre) ((v, o1) # s) = None
      | Some w \<Rightarrow> (case push e w op ((v, o1) # s) of None \<Rightarrow> ?run n1 (length ?pre) ((v, o1) # s) = None
         | Some s1 \<Rightarrow> \<exists>n2. length line - length (?pre @ print_expr r @ binop_name op) < n2 \<and>
             ?run n1 (length ?pre) ((v, o1) # s) = ?run n2 (length (?pre @ print_expr r @ binop_name op)) s1)"
      by (rule r [unfolded runs_tree_def, rule_format, OF lineR fit]) (use op star low io' s n1(1) in auto)
    have e: "length (?pre @ print_expr r @ binop_name op) = ?stop" by simp
    show ?thesis
    proof (cases "value_of e p r")
      case None
      then show ?thesis using R Some n1(2) by simp
    next
      case w: (Some w)
      obtain st x where x: "execute_binary e v o1 w = (st, x)" by (metis surj_pair)
      have "push e w op ((v, o1) # s) = (if st = Status_OK then push e x op s else None)" using low x by simp
      then show ?thesis using R Some w n1(2) x unfolding e by (auto split: if_splits option.splits)
    qed
  qed
qed

lemma reads_tree_Brk:
  assumes "runs_tree e p t"
  shows "reads_tree e p (Brk t)"
  unfolding reads_tree_def
proof (intro allI impI)
  fix pre rest
  let ?line = "pre @ print_expr (Brk t) @ rest"
  assume fit: "names_fit ?line"
  have l: "?line = pre @ ''['' @ print_expr t @ '']'' @ rest" by simp
  have "reads e p ?line (length pre) = checked (run_expression e ?line (reads e p ?line) (length pre))"
    by (rule reads_bracket [OF fit]) simp_all
  also have "\<dots> = outcome pre (print_expr (Brk t)) (value_of e p (Brk t))"
    unfolding run_brackets [OF assms l fit] checked_outcome by simp
  finally show "reads e p ?line (length pre) = outcome pre (print_expr (Brk t)) (value_of e p (Brk t))" .
qed

lemma ok_result_unary:
  assumes "read_operation_unary line pos = Inl (u, pos1)" "cstr_at line pos1 = CHR ''[''"
    "u \<notin> {NGCUnaryOp_ATAN, NGCUnaryOp_Exists, NGCUnaryOp_Parameter}"
  shows "ok_result (read_unary e p line rv pos v0) =
    (case ok_result (eval_expression e line rv pos1 v0) of
       None \<Rightarrow> None
     | Some (pos2, v) \<Rightarrow> let (st, w) = execute_unary e v u in if st = Status_OK then Some (pos2, w) else None)"
proof (cases "ok_result (eval_expression e line rv pos1 v0)")
  case None
  then show ?thesis using assms by (cases "eval_expression e line rv pos1 v0") (auto simp: read_unary_def ok_result_eq_None)
next
  case (Some x)
  then obtain pos2 v where "eval_expression e line rv pos1 v0 = Some (Status_OK, pos2, v)" by (cases x) auto
  then show ?thesis using assms by (auto simp: read_unary_def split: prod.splits)
qed

lemma reads_tree_Fun:
  assumes "runs_tree e p t" "in_order (Fun u t)"
  shows "reads_tree e p (Fun u t)"
  unfolding reads_tree_def
proof (intro allI impI)
  fix pre rest
  let ?line = "pre @ print_expr (Fun u t) @ rest" and ?pos = "length pre + length (unary_name u)" and ?rv = "ngc_read_real_value e p"
  assume fit: "names_fit ?line"
  have l: "?line = (pre @ unary_name u) @ ''['' @ print_expr t @ '']'' @ rest" by simp
  have up: "is_upper (cstr_at ?line (length pre))" using unary_name_first [of u] by auto
  have op: "read_operation_unary ?line (length pre) = Inl (u, ?pos)"
    using read_operation_unary_name [of pre u "''['' @ print_expr t @ '']'' @ rest"] by simp
  have br: "cstr_at ?line ?pos = CHR ''[''" using cstr_at_pre_at [of pre "unary_name u @ ''['' @ print_expr t @ '']'' @ rest" "length (unary_name u)"]
    by simp
  have "ok_result (eval_expression e ?line (?rv ?line) ?pos 0) = run_expression e ?line (reads e p ?line) ?pos"
    by (rule eval_expression_run) (rule reads_eq)
  also have "\<dots> = outcome (pre @ unary_name u) (''['' @ print_expr t @ '']'') (value_of e p t)"
    using run_brackets [OF assms(1) l fit] by simp
  finally have ev: "ok_result (eval_expression e ?line (?rv ?line) ?pos 0) =
      outcome (pre @ unary_name u) (''['' @ print_expr t @ '']'') (value_of e p t)" .
  have "reads e p ?line (length pre) = checked (ok_result (read_unary e p ?line (?rv ?line) (length pre) 0))"
    by (rule reads_unary [OF fit _ up]) simp
  also have "\<dots> = outcome pre (print_expr (Fun u t)) (value_of e p (Fun u t))"
    using assms(2) ok_result_unary [OF op br, of e p "?rv ?line" 0] unfolding ev
    by (cases "value_of e p t") (auto simp: outcome_def checked_def finite_value_def split: prod.splits)
  finally show "reads e p ?line (length pre) = outcome pre (print_expr (Fun u t)) (value_of e p (Fun u t))" .
qed

lemma value_of_finite: "in_order t \<Longrightarrow> operators t = [] \<Longrightarrow> value_of e p t = Some v \<Longrightarrow> finite_value v = Some v"
proof (induction t arbitrary: v)
  case (Num n)
  then show ?case using finite_parts [OF f32_of_nat_exact(1), of "unat n"] by (auto simp: finite_value_def f32_of_u32_def)
next
  case (Neg t)
  then obtain w where w: "value_of e p t = Some w" "v = f32_neg w" by auto
  have "operators t = []" using Neg.prems(1) by (cases t) auto
  with Neg w(1) have "finite_value w = Some w" by simp
  then show ?case unfolding w(2) by (simp add: finite_value_def split: if_splits)
qed (auto simp: finite_value_def Let_def split: option.splits if_splits prod.splits)

lemma reads_tree_Neg:
  assumes "reads_tree e p t" "in_order (Neg t)"
  shows "reads_tree e p (Neg t)"
  unfolding reads_tree_def
proof (intro allI impI)
  fix pre rest
  let ?line = "pre @ print_expr (Neg t) @ rest"
  assume fit: "names_fit ?line" and st: "stops_number rest"
  have c: "cstr_at ?line (length pre + 1) = cstr_at (print_expr t @ rest) 0" unfolding cstr_at_pre_at by simp
  have io: "in_order t" "case t of Num _ \<Rightarrow> False | Bin _ _ _ \<Rightarrow> False | _ \<Rightarrow> True" "operators t = []"
    using assms(2) by (cases t; simp)+
  have c1: "cstr_at ?line (length pre + 1) \<noteq> NUL" "\<not> is_digit (cstr_at ?line (length pre + 1))"
    "cstr_at ?line (length pre + 1) \<noteq> CHR ''.''"
    unfolding c using print_expr_first [OF io(1), of rest] io(2) by auto
  have "reads e p ?line (length pre) = checked (map_option (\<lambda>(pos, v). (pos, f32_neg v)) (reads e p ?line (length pre + 1)))"
    by (rule reads_minus [OF fit _ _ c1]) simp_all
  also have "reads e p ?line (length pre + 1) = outcome (pre @ ''-'') (print_expr t) (value_of e p t)"
    using assms(1) [unfolded reads_tree_def, rule_format, of "pre @ ''-''" rest] fit st by simp
  also have "checked (map_option (\<lambda>(pos, v). (pos, f32_neg v)) (outcome (pre @ ''-'') (print_expr t) (value_of e p t))) =
      outcome pre (print_expr (Neg t)) (value_of e p (Neg t))"
    using value_of_finite [OF io(1,3), of e p]
    by (cases "value_of e p t") (auto simp: outcome_def checked_def finite_value_def split: if_splits)
  finally show "reads e p ?line (length pre) = outcome pre (print_expr (Neg t)) (value_of e p (Neg t))" .
qed

lemma trees_run: "in_order t \<Longrightarrow> runs_tree e p t \<and> (operators t = [] \<longrightarrow> reads_tree e p t)"
proof (induction t)
  case (Num n)
  then have "reads_tree e p (Num n)" by (auto simp: reads_tree_def outcome_def reads_uitoa)
  then show ?case by (simp add: operand_runs)
next
  case (Par n)
  have "reads_tree e p (Par n)" by (auto simp: reads_tree_def reads_par [simplified])
  then show ?case by (simp add: operand_runs)
next
  case (Brk t)
  then have "reads_tree e p (Brk t)" by (intro reads_tree_Brk) simp
  then show ?case by (simp add: operand_runs)
next
  case (Fun u t)
  then have "reads_tree e p (Fun u t)" by (intro reads_tree_Fun) simp_all
  then show ?case by (simp add: operand_runs)
next
  case (Neg t)
  have "operators t = []" using Neg.prems by (cases t) auto
  with Neg have "reads_tree e p (Neg t)" by (intro reads_tree_Neg) simp_all
  then show ?case by (simp add: operand_runs)
next
  case (Bin o1 l r)
  then have "runs_tree e p (Bin o1 l r)" by (intro binary_runs) simp_all
  then show ?case by simp
qed

lemma expression_value:
  assumes "in_order t" "names_fit (pre @ ''['' @ print_expr t @ '']'' @ rest)"
  shows "ok_result (ngc_eval_expression e p (pre @ ''['' @ print_expr t @ '']'' @ rest) (length pre) v0) =
    map_option (\<lambda>v. (length pre + length (print_expr t) + 2, v)) (value_of e p t)"
proof -
  let ?line = "pre @ ''['' @ print_expr t @ '']'' @ rest"
  have "ok_result (ngc_eval_expression e p ?line (length pre) v0) = run_expression e ?line (reads e p ?line) (length pre)"
    unfolding ngc_eval_expression_def by (rule eval_expression_run) (rule reads_eq)
  also have "\<dots> = outcome pre (''['' @ print_expr t @ '']'') (value_of e p t)"
    by (rule run_brackets [OF _ refl assms(2)]) (use trees_run [OF assms(1)] in blast)
  finally show ?thesis by (simp add: outcome_def)
qed

text \<open>
  C4. The evaluator computes what expressions mean: the text of an expression tree in brackets, wherever it stands in
  a line, is evaluated to the value of the tree, at the position behind the bracket, and to an error exactly if
  the tree has no value. So the two stacks make the operators bind as \<open>binding\<close> says, operators
  that bind equally associate to the left, \<open>**\<close> too, and functions, parameters and nested brackets are evaluated first.
\<close>

theorem ngc_eval_expression_correct:
  assumes "in_order t" "names_fit (pre @ ''['' @ print_expr t @ '']'' @ rest)"
  shows "ok_result (ngc_eval_expression e p (pre @ ''['' @ print_expr t @ '']'' @ rest) (length pre) v0) =
    map_option (\<lambda>v. (length pre + length (print_expr t) + 2, v)) (value_of e p t)"
  using assms by (rule expression_value)

theorem ngc_eval_expression_correct_witness:
  "\<forall>e p v0. ok_result (ngc_eval_expression e p ''G1X[2+3*[10-4]-1]F9'' 3 v0) = Some (17, 0x41980000)"
proof (intro allI)
  fix e p v0
  let ?t = "Bin NGCBinaryOp_Minus (Bin NGCBinaryOp_Plus (Num 2) (Bin NGCBinaryOp_Times (Num 3)
    (Brk (Bin NGCBinaryOp_Minus (Num 10) (Num 4))))) (Num 1)"
  have u: "uitoa 2 = ''2''" "uitoa 3 = ''3''" "uitoa 10 = ''10''" "uitoa 4 = ''4''" "uitoa 1 = ''1''" by code_simp+
  have line: "''G1X[2+3*[10-4]-1]F9'' = ''G1X'' @ ''['' @ print_expr ?t @ '']'' @ ''F9''" by (simp add: u)
  have "value_of e p ?t = Some 0x41980000" by (simp add: execute_binary_def finite_value_def f32_eval)
  moreover have "in_order ?t" by simp
  moreover have "names_fit (''G1X'' @ ''['' @ print_expr ?t @ '']'' @ ''F9'')" by (rule names_fit_no_name) (simp add: u)
  moreover have "length ''G1X'' = 3" "3 + length (print_expr ?t) + 2 = 17" by (simp_all add: u)
  ultimately show "ok_result (ngc_eval_expression e p ''G1X[2+3*[10-4]-1]F9'' 3 v0) = Some (17, 0x41980000)" using ngc_eval_expression_correct [of ?t "''G1X''" "''F9''" e p v0] unfolding line [symmetric]
    by (simp only: option.map)
qed

text \<open>
  What the evaluator does not check: dividing by zero with \<open>MOD\<close> is not an error but gives a NaN, which a
  comparison takes for unequal and which is passed on as the result of the whole expression; the same expression in a
  second pair of brackets is an error.
\<close>

theorem ngc_eval_mod_zero:
  "ok_result (ngc_eval_expression e p ''[1MOD0]'' 0 v0) = Some (7, f32_nan) \<and>
   ok_result (ngc_eval_expression e p ''[[1MOD0]]'' 0 v0) = None"
proof -
  let ?t = "Bin NGCBinaryOp_Modulo (Num 1) (Num 0)"
  have u: "uitoa 0 = ''0''" "uitoa 1 = ''1''" by code_simp+
  have v: "value_of e p ?t = Some f32_nan" "value_of e p (Brk ?t) = None"
    by (simp_all add: execute_binary_def finite_value_def f32_eval)
  have n: "names_fit ([] @ ''['' @ print_expr ?t @ '']'' @ [])" "names_fit ([] @ ''['' @ print_expr (Brk ?t) @ '']'' @ [])"
    by (rule names_fit_no_name; simp add: u)+
  show ?thesis
    using expression_value [OF _ n(1), of e p v0] expression_value [OF _ n(2), of e p v0] by (simp add: u v del: value_of.simps)
qed

end
