(* ===== verification/Ngc_message.thy ===== *)
theory Ngc_message
  imports Ngc_expr_spec
begin

text \<open>
  Messages with parameters, \<^verbatim>\<open>ngc_substitute_parameters\<close> and \<^verbatim>\<open>ngc_process_comment\<close> of \<^verbatim>\<open>grbl/ngc_expr.c\<close>. The text is
  scanned twice, first for the length of the result, which is then allocated, and then for the result. A
  result that does not fit the allocation, a number that does not fit the buffer it is printed to, and an access
  behind the terminator of the text are a fault.
\<close>

section \<open>Formats\<close>

text \<open>The state of the scanner: the position in a format, zero outside of one, the digit of the format (a static
  variable of \<^verbatim>\<open>get_format\<close>), the decimals in force and the value of the last parameter.\<close>

record fmt_state =
  parse_format :: int
  fmt_digit :: nat
  decimals :: nat
  last_value :: f32

definition get_format :: "expr_env \<Rightarrow> char \<Rightarrow> fmt_state \<Rightarrow> fmt_state" where
  "get_format e c s =
     (if parse_format s = 1
      then if c = CHR ''d'' then s\<lparr>decimals := 0, parse_format := -2\<rparr>
           else if c = CHR ''f'' then s\<lparr>decimals := ex_float_decimals e, parse_format := -2\<rparr>
           else if c = CHR ''.'' then s\<lparr>parse_format := 2\<rparr>
           else s\<lparr>parse_format := 0\<rparr>
      else if parse_format s = 2
      then if is_digit c then s\<lparr>fmt_digit := digit_of c, parse_format := 3\<rparr> else s\<lparr>parse_format := 0\<rparr>
      else if c = CHR ''f'' then s\<lparr>decimals := fmt_digit s, parse_format := -4\<rparr>
      else s\<lparr>parse_format := 0\<rparr>)"

text \<open>\<^verbatim>\<open>decimals ? ftoa(value, decimals) : trim_float(ftoa(value, decimals))\<close>.\<close>

definition print_value :: "fmt_state \<Rightarrow> string option" where
  "print_value s =
     (let txt = ftoa (last_value s) (decimals s)
      in if length txt > STRLEN_COORDVALUE then None
         else Some (if decimals s \<noteq> 0 then txt else trim_float txt))"

section \<open>The two passes\<close>

text \<open>The text for the parameter at \<open>pos\<close>, the position behind it and the state.\<close>

definition substitute_at ::
    "expr_env \<Rightarrow> 'm ngc_params \<Rightarrow> string \<Rightarrow> nat \<Rightarrow> fmt_state \<Rightarrow> (string \<times> nat \<times> fmt_state) option"
where
  "substitute_at e p line pos s =
     (case ngc_read_parameter e p line True pos (last_value s) of
        None \<Rightarrow> None
      | Some (st, pos1, v) \<Rightarrow>
          let s1 = s\<lparr>last_value := v\<rparr>
          in if st = Status_OK
             then (case print_value s1 of None \<Rightarrow> None | Some txt \<Rightarrow> Some (txt, pos1, s1))
             else Some (''N/A'', pos1, s1))"

text \<open>The first argument bounds the number of passes of the loop, each of which advances.\<close>

fun substitute_length ::
    "expr_env \<Rightarrow> 'm ngc_params \<Rightarrow> string \<Rightarrow> nat \<Rightarrow> nat \<Rightarrow> nat \<Rightarrow> fmt_state \<Rightarrow> (nat \<times> fmt_state) option"
where
  "substitute_length e p line 0 pos len s = None"
| "substitute_length e p line (Suc n) pos len s =
     (let c = cstr_at line pos
      in if pos > length line then None
         else if c = NUL then Some (len, s)
         else if parse_format s \<noteq> 0
         then let s1 = get_format e c s
              in if parse_format s1 < 0
                 then substitute_length e p line n (pos + 1) (len + nat (- parse_format s1)) (s1\<lparr>parse_format := 0\<rparr>)
                 else substitute_length e p line n (pos + 1) len s1
         else if c = CHR ''%'' then substitute_length e p line n (pos + 1) len (s\<lparr>parse_format := 1\<rparr>)
         else if c = CHR ''#''
         then (case substitute_at e p line pos s of
                 None \<Rightarrow> None
               | Some (txt, pos1, s1) \<Rightarrow> substitute_length e p line n pos1 (len + length txt) s1)
         else substitute_length e p line n (pos + 1) (len + 1) s)"

text \<open>The characters of a format are kept in a buffer of five, which is copied up to its first terminator if it turns out
  not to be a format.\<close>

fun substitute_text ::
    "expr_env \<Rightarrow> 'm ngc_params \<Rightarrow> string \<Rightarrow> nat \<Rightarrow> nat \<Rightarrow> string \<Rightarrow> string \<Rightarrow> fmt_state \<Rightarrow> (string \<times> fmt_state) option"
where
  "substitute_text e p line 0 pos out fmt s = None"
| "substitute_text e p line (Suc n) pos out fmt s =
     (let c = cstr_at line pos
      in if pos > length line then None
         else if c = NUL then Some (out, s)
         else if parse_format s \<noteq> 0
         then let fmt1 = fmt[nat (parse_format s) := c]; s1 = get_format e c s
              in if parse_format s1 < 0
                 then substitute_text e p line n (pos + 1) out fmt1 (s1\<lparr>parse_format := 0\<rparr>)
                 else if parse_format s1 = 0
                 then substitute_text e p line n (pos + 1) (out @ takeWhile (\<lambda>c. c \<noteq> NUL) fmt1) fmt1 s1
                 else substitute_text e p line n (pos + 1) out fmt1 s1
         else if c = CHR ''%''
         then substitute_text e p line n (pos + 1) out (fmt[0 := c]) (s\<lparr>parse_format := 1\<rparr>)
         else if c = CHR ''#''
         then (case substitute_at e p line pos s of
                 None \<Rightarrow> None
               | Some (txt, pos1, s1) \<Rightarrow> substitute_text e p line n pos1 (out @ txt) fmt s1)
         else substitute_text e p line n (pos + 1) (out @ [c]) fmt s)"

datatype substituted = Sub_null | Sub_string string | Sub_fault

text \<open>The result, the static digit and the outcomes of the allocations to come.\<close>

definition ngc_substitute_parameters ::
    "expr_env \<Rightarrow> 'm ngc_params \<Rightarrow> bool list \<Rightarrow> nat \<Rightarrow> string option \<Rightarrow> substituted \<times> nat \<times> bool list"
where
  "ngc_substitute_parameters e p mem d text =
     (case text of
        None \<Rightarrow> (Sub_null, d, mem)
      | Some txt \<Rightarrow>
          let line = dropWhile (\<lambda>c. c = CHR '' '') txt; n = Suc (length line);
              s0 = \<lparr>parse_format = 0, fmt_digit = d, decimals = ex_float_decimals e, last_value = ex_junk e 0 0\<rparr>
          in (case substitute_length e p line n 0 0 s0 of
                None \<Rightarrow> (Sub_fault, d, mem)
              | Some (len, s1) \<Rightarrow>
                  let (ok, mem1) = malloc mem
                  in if ok
                     then (case substitute_text e p line n 0 [] (replicate 5 NUL) s1 of
                             None \<Rightarrow> (Sub_fault, fmt_digit s1, mem1)
                           | Some (out, s2) \<Rightarrow> (if length out \<le> len then Sub_string out else Sub_fault, fmt_digit s2, mem1))
                     else (Sub_null, fmt_digit s1, mem1)))"

definition starts_nocase :: "string \<Rightarrow> string \<Rightarrow> bool" where
  "starts_nocase s lit \<longleftrightarrow> starts_with (map CAPS s) lit"

text \<open>The message, what is left of the comment in its buffer, and the rest as before.\<close>

definition ngc_process_comment ::
    "expr_env \<Rightarrow> 'm ngc_params \<Rightarrow> bool list \<Rightarrow> nat \<Rightarrow> string option \<Rightarrow> substituted \<times> string option \<times> nat \<times> bool list"
where
  "ngc_process_comment e p mem d text =
     (case text of
        None \<Rightarrow> (Sub_null, None, d, mem)
      | Some comment \<Rightarrow>
          if starts_nocase comment ''DEBUG,''
          then if ex_debug_out e
               then let (r, d1, mem1) = ngc_substitute_parameters e p mem d (Some (drop 6 comment))
                    in (r, Some (take 6 comment), d1, mem1)
               else (Sub_null, Some [], d, mem)
          else if starts_nocase comment ''PRINT,''
          then let (r, d1, mem1) = ngc_substitute_parameters e p mem d (Some (drop 6 comment))
               in (r, Some (take 6 comment), d1, mem1)
          else (Sub_null, Some comment, d, mem))"

section \<open>Texts of literals and parameters\<close>















end
