(* ===== verification/Ngc_program.thy ===== *)
theory Ngc_program
  imports Ngc_flowctrl Ngc_expr_spec
begin

text \<open>
  Programs with expressions: the flow control interpreter calls the expression evaluator for its conditions and
  counts. The interface between them is a locale, whose law is what the evaluator promises for the
  expressions it is given; the evaluator of \<open>Ngc_expr\<close> provides it for the texts of expression trees.
\<close>

section \<open>The interface\<close>

locale evaluator =
  fixes eval :: "string \<Rightarrow> nat \<Rightarrow> 'm ngc_params \<Rightarrow> u8 \<times> f32 \<times> nat"
    and denotes :: "string \<Rightarrow> nat \<Rightarrow> 'm ngc_params \<Rightarrow> f32 \<Rightarrow> nat \<Rightarrow> bool"
  assumes evaluates: "denotes line pos p v pos1 \<Longrightarrow> eval line pos p = (Status_OK, v, pos1)"
begin

text \<open>A conditional runs the first branch whose condition denotes something but zero.\<close>

lemma conditional:
  assumes "env_eval env = eval" "flow_reachable env0 s" "\<not> skipping s" "stack_idx s < 19"
    "\<forall>b\<in>set (b0 # bs). balanced (br_body b) \<and> (\<exists>p. denotes (br_line b) (br_pos b) (params s) (val b) p)" "balanced else_body"
  shows "\<exists>s'. run_if env lbl lnr b0 bs else_body s =
      (map (\<lambda>j. (Status_OK, j = length (takeWhile (\<lambda>b. f32_is_zero (val b)) (b0 # bs)))) [0 ..< length bs + 2]
       @ [(Status_OK, True)], s') \<and>
    stack s' = stack s \<and> stack_idx s' = stack_idx s \<and> skip_sub s' = skip_sub s"
proof (rule run_if_branches [OF assms(2-4) _ assms(6)])
  show "\<forall>b\<in>set (b0 # bs). balanced (br_body b) \<and>
      (\<exists>p. env_eval env (br_line b) (br_pos b) (params s) = (Status_OK, val b, p))"
    unfolding assms(1) using assms(5) evaluates by blast
qed

text \<open>A loop is repeated as often as its argument says.\<close>

lemma repeated:
  assumes "env_eval env = eval" "flow_reachable env0 s" "\<not> skipping s" "stack_idx s < 19" "hal_file (stream s) \<noteq> 0"
    "denotes line pos (params s) v p" "\<not> f32_is_nan v" "\<not> f32_rint_le_zero v"
    "balanced body" "\<forall>t. hal_file (stream (body t)) = hal_file (stream t)"
  shows "\<exists>s1. cmd_repeat env lbl lnr line pos s = (Status_OK, p, s1) \<and> unat (f32_rint_u32 v) > 0 \<and>
    (\<forall>k < unat (f32_rint_u32 v). \<not> skipping ((repeat_pass env lbl body ^^ k) s1)) \<and>
    stack ((repeat_pass env lbl body ^^ unat (f32_rint_u32 v)) s1) = stack s \<and>
    stack_idx ((repeat_pass env lbl body ^^ unat (f32_rint_u32 v)) s1) = stack_idx s"
proof -
  have e: "env_eval env line pos (params s) = (Status_OK, v, p)" unfolding assms(1) using assms(6) by (rule evaluates)
  have n: "unat (f32_rint_u32 v) = (if f32_rint_le_zero v then 0 else unat (f32_rint_u32 v))" using assms(8) by simp
  from repeat_runs [OF assms(2-5) e assms(7,9,10) n, of lbl lnr] assms(8) show ?thesis by blast
qed

end

section \<open>The evaluator as the interpreter calls it\<close>

text \<open>The status, the value and the position of a call of \<^verbatim>\<open>ngc_eval_expression\<close>. Where the call writes outside of its
  buffers (a name of 31 characters) the code has no defined result; what stands here for it is not used, since such lines
  do not denote anything.\<close>

definition program_eval :: "expr_env \<Rightarrow> string \<Rightarrow> nat \<Rightarrow> 'm ngc_params \<Rightarrow> u8 \<times> f32 \<times> nat" where
  "program_eval e line pos p =
     (case ngc_eval_expression e p line pos (ex_junk e pos 0) of
        Some (st, pos1, v) \<Rightarrow> (st, v, pos1)
      | None \<Rightarrow> (Status_UserException, ex_junk e pos 0, pos))"

definition expr_denotes :: "expr_env \<Rightarrow> string \<Rightarrow> nat \<Rightarrow> 'm ngc_params \<Rightarrow> f32 \<Rightarrow> nat \<Rightarrow> bool" where
  "expr_denotes e line pos p v pos1 \<longleftrightarrow>
     (\<exists>pre t rest. line = pre @ ''['' @ print_expr t @ '']'' @ rest \<and> pos = length pre \<and> in_order t \<and> names_fit line \<and>
        value_of e p t = Some v \<and> pos1 = pos + length (print_expr t) + 2)"

interpretation expr: evaluator "program_eval e" "expr_denotes e" for e
proof
  fix line :: string and pos pos1 :: nat and p :: "'a ngc_params" and v :: f32
  assume "expr_denotes e line pos p v pos1"
  then obtain pre t rest where d: "line = pre @ ''['' @ print_expr t @ '']'' @ rest" "pos = length pre" "in_order t"
    "names_fit line" "value_of e p t = Some v" "pos1 = pos + length (print_expr t) + 2"
    unfolding expr_denotes_def by blast
  have "ok_result (ngc_eval_expression e p line pos (ex_junk e pos 0)) = Some (pos1, v)"
    using expression_value [of t pre rest e p "ex_junk e pos 0"] d by simp
  then show "program_eval e line pos p = (Status_OK, v, pos1)" by (simp add: program_eval_def)
qed

section \<open>Programs\<close>

text \<open>
  C19. The interpreter and the evaluator together: of the branches of a conditional with the conditions
  \<open>[t]\<close> the first one is run whose tree has a value other than zero, the else branch if there is none, and the
  stack is as before.
\<close>

theorem program_conditional:
  assumes "flow_reachable env0 s" "\<not> skipping s" "stack_idx s < 19"
    "\<forall>b\<in>set (b0 # bs). balanced (br_body b) \<and> br_line b = kw b @ ''['' @ print_expr (cond b) @ '']'' \<and> br_pos b = length (kw b) \<and>
       in_order (cond b) \<and> names_fit (br_line b) \<and> value_of e (params s) (cond b) = Some (val b)" "balanced else_body"
  shows "\<exists>s'. run_if (env\<lparr>env_eval := program_eval e\<rparr>) lbl lnr b0 bs else_body s =
      (map (\<lambda>j. (Status_OK, j = length (takeWhile (\<lambda>b. f32_is_zero (val b)) (b0 # bs)))) [0 ..< length bs + 2]
       @ [(Status_OK, True)], s') \<and>
    stack s' = stack s \<and> stack_idx s' = stack_idx s \<and> skip_sub s' = skip_sub s"
proof (rule expr.conditional [OF _ assms(1-3) _ assms(5)])
  show "\<forall>b\<in>set (b0 # bs). balanced (br_body b) \<and> (\<exists>p. expr_denotes e (br_line b) (br_pos b) (params s) (val b) p)"
  proof
    fix b assume "b \<in> set (b0 # bs)"
    with assms(4) have b: "balanced (br_body b)" "br_line b = kw b @ ''['' @ print_expr (cond b) @ '']'' @ []" "br_pos b = length (kw b)"
      "in_order (cond b)" "names_fit (br_line b)" "value_of e (params s) (cond b) = Some (val b)" by auto
    then show "balanced (br_body b) \<and> (\<exists>p. expr_denotes e (br_line b) (br_pos b) (params s) (val b) p)"
      unfolding expr_denotes_def by blast
  qed
qed simp

theorem program_conditional_witness:
  "\<forall>e. \<exists>s'. run_if (mini_env\<lparr>env_eval := program_eval e\<rparr>) 7 1
      \<lparr>br_line = ''IF[3-3]'', br_pos = 2, br_body = \<lambda>s. s\<rparr> [\<lparr>br_line = ''ELSEIF[2*1]'', br_pos = 6, br_body = \<lambda>s. s\<rparr>]
      (\<lambda>s. s) (init_flow (mem_sfile [])) =
    ([(0, False), (0, True), (0, False), (0, True)], s') \<and> stack_idx s' = -1"
  (is "\<forall>e. ?P e")
proof (intro allI)
  fix e
  let ?s = "init_flow (mem_sfile []) :: (nat, u8 list) flow"
  let ?t0 = "Bin NGCBinaryOp_Minus (Num 3) (Num 3)" and ?t1 = "Bin NGCBinaryOp_Times (Num 2) (Num 1)"
  let ?b0 = "\<lparr>br_line = ''IF[3-3]'', br_pos = 2, br_body = \<lambda>s. s\<rparr> :: (nat, u8 list) branch"
  let ?b1 = "\<lparr>br_line = ''ELSEIF[2*1]'', br_pos = 6, br_body = \<lambda>s. s\<rparr> :: (nat, u8 list) branch"
  let ?kw = "\<lambda>b :: (nat, u8 list) branch. if br_pos b = 2 then ''IF'' else ''ELSEIF''"
  let ?cond = "\<lambda>b :: (nat, u8 list) branch. if br_pos b = 2 then ?t0 else ?t1"
  let ?val = "\<lambda>b :: (nat, u8 list) branch. if br_pos b = 2 then f32_0 else 0x40000000"
  have u: "uitoa 3 = ''3''" "uitoa 2 = ''2''" "uitoa 1 = ''1''" by code_simp+
  have r: "flow_reachable mini_env ?s" by (rule reach_init)
  have a: "\<not> skipping ?s" "stack_idx ?s < 19" by (simp_all add: skipping_def init_flow_def)
  have b: "balanced (\<lambda>s. s)" by (simp add: balanced_def)
  have f: "f32_of_u32 3 = 0x40400000" "f32_of_u32 2 = 0x40000000" "f32_of_u32 1 = 0x3F800000"
    "f32_mul 0x40000000 0x3F800000 = 0x40000000" "f32_sub 0x40400000 0x40400000 = 0" "\<not> f32_is_zero 0x40000000"
    by (simp add: f32_eval, simp add: f32_eval, simp add: f32_eval, simp add: f32_eval, simp add: f32_sub_self f32_eval, simp add: f32_eval)
  have v: "value_of e (params ?s) ?t0 = Some f32_0" "value_of e (params ?s) ?t1 = Some 0x40000000"
    by (simp_all add: execute_binary_def f f32_0_def)
  have n: "names_fit ''IF[3-3]''" "names_fit ''ELSEIF[2*1]''" by (rule names_fit_no_name; simp)+
  have "\<forall>b\<in>set (?b0 # [?b1]). balanced (br_body b) \<and> br_line b = ?kw b @ ''['' @ print_expr (?cond b) @ '']'' \<and>
      br_pos b = length (?kw b) \<and> in_order (?cond b) \<and> names_fit (br_line b) \<and> value_of e (params ?s) (?cond b) = Some (?val b)"
    using b n v by (simp add: u del: value_of.simps)
  from program_conditional [OF r a this b, of mini_env 7 1] obtain s' where
    "run_if (mini_env\<lparr>env_eval := program_eval e\<rparr>) 7 1 ?b0 [?b1] (\<lambda>s. s) ?s = ([(0, False), (0, True), (0, False), (0, True)], s')"
    "stack_idx s' = -1"
    using f(6) by (auto simp: init_flow_def upt_rec)
  then show "?P e" by blast
qed

end
