(* ===== verification/Stepper.thy ===== *)
theory Stepper
  imports System_states Float_arith Ring
begin

text \<open>
  The stepper interrupt of \<^verbatim>\<open>grbl/stepper.c\<close>: a ring of ten step segments, filled by the foreground from
  the blocks of the planner, and the interrupt that takes them and traces the line of a block with
  Bresenham's algorithm, at up to eight ticks per step (the levels of the adaptive step smoothing). The
  firmware is built for four axes (\<^verbatim>\<open>N_AXIS\<close> is 4) with step smoothing, and without backlash compensation,
  spindle synchronisation, jerk limits and kinematics.

  Pointers into the two rings are indices. The lists of output commands are allocated cells: reading one
  that was freed, and reading through a null pointer, is the value \<open>None\<close>. What the interrupt has the driver and
  the other modules do is recorded, in order, in \<open>st_out\<close>.
\<close>

unbundle bit_operations_syntax

section \<open>Data\<close>

definition N_AXIS :: nat where "N_AXIS = 4"

definition SEGMENT_BUFFER_SIZE :: nat where "SEGMENT_BUFFER_SIZE = 10"

definition MAX_AMASS_LEVEL :: nat where "MAX_AMASS_LEVEL = 3"

lemmas stepper_sizes = N_AXIS_def SEGMENT_BUFFER_SIZE_def MAX_AMASS_LEVEL_def

datatype ramp_type = Ramp_Accel | Ramp_Cruise | Ramp_Decel | Ramp_DecelOverride

record output_command =
  oc_digital :: bool
  oc_port :: u8
  oc_value :: i32
  oc_next :: "ptr option"

record st_block =
  sb_steps :: "u32 list"
  sb_event_count :: u32
  sb_steps_per_mm :: f32
  sb_millimeters :: f32
  sb_programmed_rate :: f32
  sb_message :: "string option"
  sb_output_commands :: "ptr option"
  sb_direction :: u8
  sb_overrides :: u16
  sb_backlash_motion :: bool
  sb_dynamic_rpm :: bool
  sb_offset_id :: u8
  sb_spindle :: ptr

record segment =
  sg_exec_block :: nat
  sg_cycles_per_tick :: u32
  sg_current_rate :: f32
  sg_target_position :: f32
  sg_n_step :: u32
  sg_spindle_pwm :: u32
  sg_spindle_rpm :: f32
  sg_ramp_type :: ramp_type
  sg_spindle_sync :: bool
  sg_cruising :: bool
  sg_amass_level :: nat
  sg_update_pwm :: bool
  sg_update_rpm :: bool

text \<open>A block of the planner, \<^verbatim>\<open>grbl/planner.h\<close>. The data for constant surface speed is one structure of the
  spindle, to which the blocks that use it point (\<open>ps_css\<close>).\<close>

record plan_spindle =
  ps_state :: u8
  ps_css :: bool
  ps_rpm :: f32
  ps_hal :: ptr

record plan_condition =
  rapid_motion :: bool
  system_motion :: bool
  jog_motion :: bool
  backlash_motion :: bool
  no_feed_override :: bool
  inverse_time :: bool
  units_per_rev :: bool
  is_rpm_rate_adjusted :: bool
  is_laser_ppi_mode :: bool
  cond_coolant :: u8

record plan_block =
  pb_steps :: "u32 list"
  pb_step_event_count :: u32
  pb_direction :: u8
  pb_offset_id :: u8
  pb_overrides :: u16
  pb_condition :: plan_condition
  pb_line_number :: i32
  pb_target_mm :: "f32 list"
  entry_speed_sqr :: f32
  max_entry_speed_sqr :: f32
  acceleration :: f32
  millimeters :: f32
  max_junction_speed_sqr :: f32
  rapid_rate :: f32
  programmed_rate :: f32
  pb_spindle :: plan_spindle
  pb_message :: "string option"
  pb_output_commands :: "ptr option"

definition spindle_on :: "plan_spindle \<Rightarrow> bool" where
  "spindle_on sp = bit (ps_state sp) 0"

definition spindle_synchronized :: "plan_spindle \<Rightarrow> bool" where
  "spindle_synchronized sp = bit (ps_state sp) 7"

record stepper =
  new_block :: bool
  dir_changed :: u8
  step_out :: u8
  dir_out :: u8
  amass_level :: nat
  step_count :: u32
  step_event_count :: u32
  st_steps :: "u32 list"
  counter :: "u32 list"
  exec_block :: "nat option"
  exec_segment :: "nat option"

datatype st_action =
    Pulse_start bool u8 u8 u8 | Cycles_per_tick u32 | Stepper_go_idle bool | Stepper_wake_up
  | Stepper_enable u8 bool | Delay_ms u16 | Deenergize_task u16 | Deenergize_task_delete | Sync_velocity_task_delete
  | Sync_velocity_task | Digital_out u8 bool | Analog_out u8 i32 | Message string | Message_freed string
  | Report_offset | Update_pwm ptr u32 | Update_rpm ptr f32 | Pwm_off ptr | Probe_configure

text \<open>The segment preparation data \<^verbatim>\<open>prep\<close>.\<close>

record prep =
  velocity_profile :: bool
  hold_partial_block :: bool
  parking :: bool
  decel_override :: bool
  ramp_type :: ramp_type
  dt_remainder :: f32
  steps_remaining :: u32
  steps_per_mm :: f32
  req_mm_increment :: f32
  last_st_block :: nat
  last_steps_remaining :: u32
  last_steps_per_mm :: f32
  last_dt_remainder :: f32
  mm_complete :: f32
  current_speed :: f32
  maximum_speed :: f32
  exit_speed :: f32
  accelerate_until :: f32
  decelerate_after :: f32
  target_position :: f32
  target_feed :: f32
  inv_feedrate :: f32
  current_spindle_rpm :: f32

text \<open>The static variables of \<^verbatim>\<open>stepper.c\<close> and the members of \<^verbatim>\<open>sys\<close> that it uses.\<close>

record smem =
  st :: stepper
  st_block_buffer :: "st_block list"
  segment_buffer :: "segment list"
  segment_tail :: nat
  segment_head :: nat
  cycles_per_tick :: u32
  cycles_per_min :: f32
  amass_level_1 :: u32
  amass_level_2 :: u32
  amass_level_3 :: u32
  st_prep_block :: nat
  st_hold_block :: st_block
  pl_block :: "nat option"
  prep :: prep
  stepping :: bool
  exec_fast_hold :: bool
  command_cells :: "ptr \<Rightarrow> output_command option"
  position :: "i32 list"
  probe_position :: "i32 list"
  probing_active :: bool
  st_is_homing :: bool
  homing_axis_lock :: u8
  override_control :: u16
  st_exec_state :: u32
  st_exec_alarm :: u32
  st_deenergize_pending :: bool
  steppers_enabled :: bool
  st_out :: "st_action list"

text \<open>The settings, and what the functions of other modules return.\<close>

record st_env =
  se_state :: u32
  se_idle_lock_time :: u16
  se_energize :: u8
  se_enable_delay :: u16
  se_enable_invert :: u8
  se_task_added :: bool
  se_laser :: "ptr \<Rightarrow> bool"
  se_probe_configure :: bool
  se_f_step_timer :: u32

definition st_emit :: "st_action list \<Rightarrow> smem \<Rightarrow> smem" where
  "st_emit as s = s\<lparr>st_out := st_out s @ as\<rparr>"

definition upd_st :: "(stepper \<Rightarrow> stepper) \<Rightarrow> smem \<Rightarrow> smem" where
  "upd_st f s = s\<lparr>st := f (st s)\<rparr>"

definition upd_prep :: "(prep \<Rightarrow> prep) \<Rightarrow> smem \<Rightarrow> smem" where
  "upd_prep f s = s\<lparr>prep := f (prep s)\<rparr>"

text \<open>The elements of the two rings are linked in a circle by \<open>st_reset\<close>.\<close>

definition next_segment :: "nat \<Rightarrow> nat" where
  "next_segment i = (if i = SEGMENT_BUFFER_SIZE - 1 then 0 else i + 1)"

definition next_st_block :: "nat \<Rightarrow> nat" where
  "next_st_block i = (if i = SEGMENT_BUFFER_SIZE - 2 then 0 else i + 1)"

section \<open>Switching the motors\<close>

definition st_deenergize :: "st_env \<Rightarrow> smem \<Rightarrow> smem" where
  "st_deenergize e s =
     (if st_deenergize_pending s
      then (st_emit [Stepper_enable (se_energize e) True] s)\<lparr>st_deenergize_pending := False\<rparr>
      else s)"

definition st_wake_up :: "st_env \<Rightarrow> smem \<Rightarrow> smem" where
  "st_wake_up e s =
     (let s1 = upd_st (\<lambda>t. t\<lparr>dir_out := 0\<rparr>) (s\<lparr>stepping := True, st_deenergize_pending := False\<rparr>);
          s2 = st_emit [Stepper_go_idle True] s1;
          s3 = (if \<not> steppers_enabled s2 \<and> se_enable_delay e \<noteq> 0
                then st_emit [Stepper_enable 0x0F False, Delay_ms (se_enable_delay e)] s2 else s2)
      in st_emit [Stepper_wake_up] s3)"

definition st_go_idle :: "st_env \<Rightarrow> smem \<Rightarrow> smem" where
  "st_go_idle e s =
     (let s1 = st_emit [Stepper_go_idle False, Sync_velocity_task_delete] (s\<lparr>stepping := False\<rparr>)
      in if (se_idle_lock_time e \<noteq> 255 \<or> st_exec_alarm s1 \<noteq> 0 \<or> se_state e = STATE_SLEEP) \<and> se_state e \<noteq> STATE_HOMING
         then
           if se_idle_lock_time e = 0 \<or> se_state e = STATE_SLEEP then st_emit [Stepper_enable 0 True] s1
           else (st_emit [Deenergize_task_delete, Deenergize_task (se_idle_lock_time e)] s1)
                  \<lparr>st_deenergize_pending := se_task_added e\<rparr>
         else st_emit [Stepper_enable (if se_idle_lock_time e = 255 then 0x0F else se_energize e) True] s1)"

definition st_is_stepping :: "smem \<Rightarrow> bool" where
  "st_is_stepping s \<longleftrightarrow> stepping s \<and> exec_block (st s) \<noteq> None"

section \<open>The interrupt\<close>

text \<open>The pulses computed by the previous interrupt go out.\<close>

definition isr_pulse :: "smem \<Rightarrow> smem" where
  "isr_pulse s =
     (if exec_block (st s) \<noteq> None
      then
        let t = st s;
            s1 = st_emit [Pulse_start (new_block t) (dir_changed t) (dir_out t) (step_out t)] s;
            s2 = upd_st (\<lambda>t. t\<lparr>new_block := False\<rparr>) s1
        in if step_count (st s2) = 0 then upd_st (\<lambda>t. t\<lparr>exec_segment := None\<rparr>) s2 else s2
      else s)"

text \<open>The output commands of a block.\<close>

partial_function (option) run_output_commands :: "ptr option \<Rightarrow> smem \<Rightarrow> smem option" where
  "run_output_commands p s =
     (case p of
        None \<Rightarrow> Some s
      | Some a \<Rightarrow>
          (case command_cells s a of
             None \<Rightarrow> None
           | Some c \<Rightarrow>
               run_output_commands (oc_next c)
                 (st_emit [if oc_digital c then Digital_out (oc_port c) (oc_value c \<noteq> 0)
                           else Analog_out (oc_port c) (oc_value c)] s)))"

declare run_output_commands.simps [code]

definition upd_block :: "nat \<Rightarrow> (st_block \<Rightarrow> st_block) \<Rightarrow> smem \<Rightarrow> smem" where
  "upd_block b f s = s\<lparr>st_block_buffer := (st_block_buffer s)[b := f (st_block_buffer s ! b)]\<rparr>"

text \<open>The segment starts a new block.\<close>

definition isr_new_block :: "st_env \<Rightarrow> nat \<Rightarrow> smem \<Rightarrow> smem option" where
  "isr_new_block e b s =
     (let blk = st_block_buffer s ! b;
          changed = dir_out (st s) XOR sb_direction blk;
          s1 = upd_st (\<lambda>t. t\<lparr>dir_changed := changed, dir_out := (if changed \<noteq> 0 then sb_direction blk else dir_out t)\<rparr>) s;
          s2 = (case exec_block (st s1) of
                  Some o1 \<Rightarrow> if sb_offset_id (st_block_buffer s1 ! o1) \<noteq> sb_offset_id blk then st_emit [Report_offset] s1 else s1
                | None \<Rightarrow> s1);
          s3 = upd_st (\<lambda>t. t\<lparr>exec_block := Some b, step_event_count := sb_event_count blk, new_block := True\<rparr>) s2;
          s4 = (if bit (sb_overrides blk) 15 then s3\<lparr>override_control := sb_overrides blk\<rparr> else s3)
      in case run_output_commands (sb_output_commands blk) s4 of
           None \<Rightarrow> None
         | Some s5 \<Rightarrow>
             let s6 = upd_block b (\<lambda>k. k\<lparr>sb_output_commands := None\<rparr>) s5;
                 s7 = (case sb_message blk of
                         None \<Rightarrow> s6
                       | Some m \<Rightarrow> upd_block b (\<lambda>k. k\<lparr>sb_message := None\<rparr>)
                                     (st_emit [if se_task_added e then Message m else Message_freed m] s6))
             in Some (upd_st (\<lambda>t. t\<lparr>counter := replicate N_AXIS (drop_bit 1 (step_event_count t))\<rparr>) s7))"

text \<open>The next segment is taken from the ring.\<close>

definition isr_load_segment :: "st_env \<Rightarrow> smem \<Rightarrow> smem option" where
  "isr_load_segment e s =
     (let i = segment_tail s; seg = segment_buffer s ! i; b = sg_exec_block seg;
          s1 = upd_st (\<lambda>t. t\<lparr>exec_segment := Some i\<rparr>) s;
          s2 = (if sg_cycles_per_tick seg \<noteq> cycles_per_tick s1
                then (st_emit [Cycles_per_tick (sg_cycles_per_tick seg)] s1)\<lparr>cycles_per_tick := sg_cycles_per_tick seg\<rparr>
                else s1);
          s3 = upd_st (\<lambda>t. t\<lparr>step_count := sg_n_step seg\<rparr>) s2
      in case (if exec_block (st s3) \<noteq> Some b then isr_new_block e b s3 else Some s3) of
           None \<Rightarrow> None
         | Some s4 \<Rightarrow>
             let blk = st_block_buffer s4 ! b;
                 s5 = upd_st (\<lambda>t. t\<lparr>amass_level := sg_amass_level seg,
                                    st_steps := map (drop_bit (sg_amass_level seg)) (sb_steps blk)\<rparr>) s4
             in Some (if sg_update_pwm seg then st_emit [Update_pwm (sb_spindle blk) (sg_spindle_pwm seg)] s5
                      else if sg_update_rpm seg then st_emit [Update_rpm (sb_spindle blk) (sg_spindle_rpm seg)] s5
                      else s5))"

text \<open>The ring is empty: the motion is complete. The code reads the block that was executed.\<close>

definition isr_shutdown :: "st_env \<Rightarrow> smem \<Rightarrow> smem option" where
  "isr_shutdown e s =
     (let s1 = st_go_idle e s
      in case exec_block (st s1) of
           None \<Rightarrow> None
         | Some b \<Rightarrow>
             let blk = st_block_buffer s1 ! b;
                 s2 = (if sb_dynamic_rpm blk \<and> se_laser e (sb_spindle blk)
                       then st_emit [Pwm_off (sb_spindle blk)] (upd_prep (\<lambda>p. p\<lparr>current_spindle_rpm := f32_0\<rparr>) s1) else s1);
                 s3 = upd_st (\<lambda>t. t\<lparr>exec_block := None\<rparr>) (s2\<lparr>cycles_per_tick := 0\<rparr>)
             in Some (s3\<lparr>st_exec_state := st_exec_state s3 OR EXEC_CYCLE_COMPLETE\<rparr>))"

definition isr_probe :: "bool \<Rightarrow> smem \<Rightarrow> smem" where
  "isr_probe triggered s =
     (if probing_active s \<and> triggered
      then s\<lparr>probing_active := False, probe_position := position s, st_exec_state := st_exec_state s OR EXEC_MOTION_CANCEL\<rparr>
      else s)"

text \<open>One axis: the counter, whether it steps, and its position. The code leaves the counter of the Z axis alone
  if there are no steps in it.\<close>

definition step_axis :: "nat \<Rightarrow> smem \<Rightarrow> smem" where
  "step_axis i s =
     (let t = st s; c = counter t ! i + st_steps t ! i
      in if i = 2 \<and> st_steps t ! i = 0 then s
         else if step_event_count t < c
         then (upd_st (\<lambda>t. t\<lparr>step_out := step_out t OR push_bit i 1, counter := (counter t)[i := c - step_event_count t]\<rparr>) s)
                \<lparr>position := (position s)[i := position s ! i + (if bit (dir_out t) i then -1 else 1)]\<rparr>
         else upd_st (\<lambda>t. t\<lparr>counter := (counter t)[i := c]\<rparr>) s)"

definition isr_step :: "smem \<Rightarrow> smem" where
  "isr_step s =
     (let s1 = step_axis 3 (step_axis 2 (step_axis 1 (step_axis 0 (upd_st (\<lambda>t. t\<lparr>step_out := 0\<rparr>) s))));
          s2 = (if st_is_homing s1 then upd_st (\<lambda>t. t\<lparr>step_out := step_out t AND homing_axis_lock s1\<rparr>) s1 else s1)
      in if step_count (st s2) = 0 then s2\<lparr>segment_tail := next_segment (segment_tail s2)\<rparr>
         else
           let s3 = upd_st (\<lambda>t. t\<lparr>step_count := step_count t - 1\<rparr>) s2
           in if step_count (st s3) = 0 then s3\<lparr>segment_tail := next_segment (segment_tail s3)\<rparr> else s3)"

definition stepper_driver_interrupt_handler :: "st_env \<Rightarrow> bool \<Rightarrow> smem \<Rightarrow> smem option" where
  "stepper_driver_interrupt_handler e triggered s =
     (let s1 = isr_pulse s
      in if exec_segment (st s1) = None
         then
           if segment_tail s1 \<noteq> segment_head s1
           then (case isr_load_segment e s1 of None \<Rightarrow> None | Some s2 \<Rightarrow> Some (isr_step (isr_probe triggered s2)))
           else isr_shutdown e s1
         else Some (isr_step (isr_probe triggered s1)))"

section \<open>What the foreground gives the interrupt\<close>

text \<open>A new block is started: its steps are multiplied so that every level of step smoothing can divide them again.\<close>

definition prep_new_st_block :: "plan_block \<Rightarrow> smem \<Rightarrow> smem" where
  "prep_new_st_block pb s =
     (let b = next_st_block (st_prep_block s)
      in upd_block b (\<lambda>k. k\<lparr>sb_steps := map (push_bit MAX_AMASS_LEVEL) (pb_steps pb),
             sb_event_count := push_bit MAX_AMASS_LEVEL (pb_step_event_count pb),
             sb_direction := pb_direction pb, sb_programmed_rate := programmed_rate pb, sb_millimeters := millimeters pb,
             sb_steps_per_mm := f32_div (f32_of_u32 (pb_step_event_count pb)) (millimeters pb),
             sb_spindle := ps_hal (pb_spindle pb), sb_output_commands := pb_output_commands pb,
             sb_overrides := pb_overrides pb, sb_offset_id := pb_offset_id pb,
             sb_backlash_motion := backlash_motion (pb_condition pb), sb_message := pb_message pb\<rparr>)
           (s\<lparr>st_prep_block := b\<rparr>))"

text \<open>The segment at the head of the ring, its number of steps and its time per step, is passed to the interrupt.\<close>

definition prep_queue_segment :: "u32 \<Rightarrow> u32 \<Rightarrow> segment \<Rightarrow> smem \<Rightarrow> smem" where
  "prep_queue_segment n cycles seg s =
     (let level = (if cycles < amass_level_1 s then 0
                   else if cycles < amass_level_2 s then 1 else if cycles < amass_level_3 s then 2 else 3);
          seg1 = seg\<lparr>sg_exec_block := st_prep_block s, sg_amass_level := level,
                     sg_n_step := push_bit level n, sg_cycles_per_tick := drop_bit level cycles\<rparr>
      in s\<lparr>segment_buffer := (segment_buffer s)[segment_head s := seg1], segment_head := next_segment (segment_head s)\<rparr>)"

section \<open>Reset, parking and reports\<close>

text \<open>Static memory is zero when the firmware starts, and when it is cleared.\<close>

definition zero_stepper :: stepper where
  "zero_stepper = \<lparr>new_block = False, dir_changed = 0, step_out = 0, dir_out = 0, amass_level = 0, step_count = 0,
     step_event_count = 0, st_steps = replicate N_AXIS 0, counter = replicate N_AXIS 0, exec_block = None, exec_segment = None\<rparr>"

definition zero_prep :: prep where
  "zero_prep = \<lparr>velocity_profile = False, hold_partial_block = False, parking = False, decel_override = False,
     ramp_type = Ramp_Accel, dt_remainder = 0, steps_remaining = 0, steps_per_mm = 0, req_mm_increment = 0,
     last_st_block = 0, last_steps_remaining = 0, last_steps_per_mm = 0, last_dt_remainder = 0, mm_complete = 0,
     current_speed = 0, maximum_speed = 0, exit_speed = 0, accelerate_until = 0, decelerate_after = 0,
     target_position = 0, target_feed = 0, inv_feedrate = 0, current_spindle_rpm = 0\<rparr>"

definition zero_st_block :: st_block where
  "zero_st_block = \<lparr>sb_steps = replicate N_AXIS 0, sb_event_count = 0, sb_steps_per_mm = 0, sb_millimeters = 0,
     sb_programmed_rate = 0, sb_message = None, sb_output_commands = None, sb_direction = 0, sb_overrides = 0,
     sb_backlash_motion = False, sb_dynamic_rpm = False, sb_offset_id = 0, sb_spindle = 0\<rparr>"

definition zero_segment :: segment where
  "zero_segment = \<lparr>sg_exec_block = 0, sg_cycles_per_tick = 0, sg_current_rate = 0, sg_target_position = 0, sg_n_step = 0,
     sg_spindle_pwm = 0, sg_spindle_rpm = 0, sg_ramp_type = Ramp_Accel, sg_spindle_sync = False, sg_cruising = False,
     sg_amass_level = 0, sg_update_pwm = False, sg_update_rpm = False\<rparr>"

definition zero_smem :: smem where
  "zero_smem = \<lparr>st = zero_stepper, st_block_buffer = replicate (SEGMENT_BUFFER_SIZE - 1) zero_st_block,
     segment_buffer = replicate SEGMENT_BUFFER_SIZE zero_segment, segment_tail = 0, segment_head = 0, cycles_per_tick = 0,
     cycles_per_min = 0, amass_level_1 = 0, amass_level_2 = 0, amass_level_3 = 0, st_prep_block = 0,
     st_hold_block = zero_st_block, pl_block = None, prep = zero_prep, stepping = False, exec_fast_hold = False,
     command_cells = (\<lambda>_. None), position = replicate N_AXIS 0, probe_position = replicate N_AXIS 0,
     probing_active = False, st_is_homing = False, homing_axis_lock = 0, override_control = 0, st_exec_state = 0,
     st_exec_alarm = 0, st_deenergize_pending = False, steppers_enabled = False, st_out = []\<rparr>"

definition st_reset :: "st_env \<Rightarrow> smem \<Rightarrow> smem" where
  "st_reset e s =
     (let s1 = (if se_probe_configure e then st_emit [Probe_configure] s else s);
          s2 = st_go_idle e s1;
          s3 = s2\<lparr>segment_buffer := map (\<lambda>g. g\<lparr>sg_amass_level := 0\<rparr>) (segment_buffer s2), st_prep_block := 0,
                  pl_block := None, segment_tail := 0, segment_head := 0, prep := zero_prep, st := zero_stepper\<rparr>;
          l1 = se_f_step_timer e div 8000
      in s3\<lparr>amass_level_1 := l1, amass_level_2 := push_bit 1 l1, amass_level_3 := push_bit 1 (push_bit 1 l1),
           cycles_per_min := f32_mul (f32_of_u32 (se_f_step_timer e)) 0x42700000\<rparr>)"

definition st_rpm_changed :: "f32 \<Rightarrow> smem \<Rightarrow> smem" where
  "st_rpm_changed rpm s = upd_prep (\<lambda>p. p\<lparr>current_spindle_rpm := rpm\<rparr>) s"

text \<open>The segments of a special motion are prepared while a block is on hold.\<close>

definition st_parking_setup_buffer :: "smem \<Rightarrow> smem" where
  "st_parking_setup_buffer s =
     (let p = prep s;
          s1 = (if hold_partial_block p \<and> \<not> parking p
                then upd_prep (\<lambda>p. p\<lparr>last_st_block := st_prep_block s, last_steps_remaining := steps_remaining p,
                       last_dt_remainder := dt_remainder p, last_steps_per_mm := steps_per_mm p\<rparr>)
                     (s\<lparr>st_hold_block := st_block_buffer s ! st_prep_block s\<rparr>)
                else s)
      in (upd_prep (\<lambda>p. p\<lparr>parking := True, velocity_profile := False\<rparr>) s1)\<lparr>pl_block := None\<rparr>)"

text \<open>The constant \<^verbatim>\<open>REQ_MM_INCREMENT_SCALAR\<close>, 1.25.\<close>

definition REQ_MM_INCREMENT_SCALAR :: f32 where "REQ_MM_INCREMENT_SCALAR = 0x3FA00000"

definition clear_recalculate :: "prep \<Rightarrow> prep" where
  "clear_recalculate p = p\<lparr>velocity_profile := False, hold_partial_block := False, parking := False, decel_override := False\<rparr>"

definition st_parking_restore_buffer :: "smem \<Rightarrow> smem" where
  "st_parking_restore_buffer s =
     (let p = prep s;
          s1 = (if hold_partial_block p
                then upd_prep (\<lambda>p. (clear_recalculate p)\<lparr>steps_remaining := last_steps_remaining p,
                       dt_remainder := last_dt_remainder p, steps_per_mm := last_steps_per_mm p,
                       hold_partial_block := True, velocity_profile := True,
                       req_mm_increment := f32_div REQ_MM_INCREMENT_SCALAR (last_steps_per_mm p)\<rparr>)
                     (s\<lparr>st_block_buffer := (st_block_buffer s)[last_st_block p := st_hold_block s],
                        st_prep_block := last_st_block p\<rparr>)
                else upd_prep clear_recalculate s)
      in s1\<lparr>pl_block := None\<rparr>)"

definition st_get_realtime_rate :: "st_env \<Rightarrow> smem \<Rightarrow> f32" where
  "st_get_realtime_rate e s =
     (if has (se_state e) (STATE_CYCLE OR STATE_HOMING OR STATE_HOLD OR STATE_JOG OR STATE_SAFETY_DOOR)
      then current_speed (prep s) else f32_0)"

definition st_get_enable_out :: "st_env \<Rightarrow> u8" where
  "st_get_enable_out e = se_enable_invert e"

end
