(* ===== verification/Stepper_motion.thy ===== *)
theory Stepper_motion
  imports Stepper
begin

text \<open>
  What the interrupt does with the blocks and segments it is given.
\<close>

section \<open>One tick\<close>

text \<open>The pulses of an axis when \<open>a\<close> has been added to its counter, which starts at half of \<open>n\<close>: \<open>a / n\<close>
  rounded to the nearest integer, halves down.\<close>

definition pulses_at :: "nat \<Rightarrow> nat \<Rightarrow> nat" where
  "pulses_at n a = (n div 2 + a - 1) div n"

text \<open>A counter that has been added to: the pulses so far and what is left in the counter.\<close>

definition counter_at :: "nat \<Rightarrow> nat \<Rightarrow> nat \<Rightarrow> bool" where
  "counter_at n a c \<longleftrightarrow> 0 < c \<and> c \<le> n \<and> c + n * pulses_at n a = n div 2 + a"

lemma counter_at_iff:
  assumes "2 \<le> n"
  shows "counter_at n a c \<longleftrightarrow> c = (n div 2 + a - 1) mod n + 1"
proof -
  let ?x = "n div 2 + a - 1"
  have x: "n div 2 + a = ?x + 1" using assms by auto
  have d: "?x = n * (?x div n) + ?x mod n" by simp
  have l: "?x mod n < n" using assms by simp
  show ?thesis
    unfolding counter_at_def pulses_at_def using x d l by linarith
qed

lemma counter_at_0: "2 \<le> n \<Longrightarrow> counter_at n 0 (n div 2)"
  by (simp add: counter_at_iff)

lemma pulses_at_0: "2 \<le> n \<Longrightarrow> pulses_at n 0 = 0"
  by (simp add: pulses_at_def)

lemma div_mod_step:
  assumes "r < n" "d \<le> (n :: nat)"
  shows "(n * q + r + d) div n = q + (if n \<le> r + d then 1 else 0) \<and>
    (n * q + r + d) mod n = (if n \<le> r + d then r + d - n else r + d)"
proof (cases "n \<le> r + d")
  case True
  then obtain k where k: "r + d = n + k" by (metis le_Suc_ex)
  then have "k < n" using assms by linarith
  moreover have "n * q + r + d = k + n * (q + 1)" using k by simp
  ultimately show ?thesis using True k by (simp del: mult_Suc_right)
next
  case False
  then have e: "n * q + r + d = (r + d) + n * q" and l: "r + d < n" by simp_all
  show ?thesis unfolding e using l by (simp only: mod_mult_self2 mod_less div_mult_self2 div_less not_le if_not_P)
qed

text \<open>One step of the counter.\<close>

lemma counter_at_step:
  assumes "counter_at n a c" "d \<le> n" "2 \<le> n"
  shows "counter_at n (a + d) (if n < c + d then c + d - n else c + d)"
    "pulses_at n (a + d) = pulses_at n a + (if n < c + d then 1 else 0)"
proof -
  let ?x = "n div 2 + a - 1" and ?y = "n div 2 + (a + d) - 1"
  define q r where "q = ?x div n" and "r = ?x mod n"
  have r: "r < n" and dec: "?x = n * q + r" using assms(3) by (simp_all add: q_def r_def)
  have c: "c = r + 1" using assms(1,3) counter_at_iff by (auto simp: r_def)
  have y: "?y = ?x + d" using assms(3) by auto
  then have y: "?y = n * q + r + d" using dec by linarith
  have *: "?y div n = q + (if n < c + d then 1 else 0) \<and> ?y mod n = (if n < c + d then r + d - n else r + d)"
  proof -
    have "n < c + d \<longleftrightarrow> n \<le> r + d" using c by linarith
    then show ?thesis unfolding y using div_mod_step [OF r assms(2), of q] by (simp only:)
  qed
  show "pulses_at n (a + d) = pulses_at n a + (if n < c + d then 1 else 0)"
    unfolding pulses_at_def using conjunct1 [OF *] unfolding q_def .
  have "(if n < c + d then c + d - n else c + d) = ?y mod n + 1"
    unfolding conjunct2 [OF *] using c by auto
  then show "counter_at n (a + d) (if n < c + d then c + d - n else c + d)"
    unfolding counter_at_iff [OF assms(3)] .
qed

text \<open>The error is at most half a step.\<close>

lemma half_bound:
  fixes c p h a n :: int
  assumes "c + p = h + a" "0 < c" "c \<le> n" "2 * h = n"
  shows "2 * \<bar>p - a\<bar> \<le> n"
proof -
  have e: "2 * (p - a) = n - 2 * c" using assms(1,4) by simp
  have "2 * (p - a) \<le> n" "- n \<le> 2 * (p - a)" unfolding e using assms(2,3) by simp_all
  then show ?thesis by (simp add: abs_if)
qed

lemma pulses_at_error:
  assumes "2 \<le> n" "even n"
  shows "2 * \<bar>int (n * pulses_at n a) - int a\<bar> \<le> int n"
proof -
  obtain c where "counter_at n a c" using counter_at_iff [OF assms(1)] by blast
  then have c: "0 < c" "c \<le> n" "c + n * pulses_at n a = n div 2 + a" by (simp_all add: counter_at_def)
  define p h where "p = n * pulses_at n a" and "h = n div 2"
  have h: "2 * h = n" using assms(2) by (simp add: h_def)
  have "int c + int p = int h + int a" using c(3) by (metis of_nat_add p_def h_def)
  moreover have "0 < int c" "int c \<le> int n" "2 * int h = int n"
    using c(1,2) h by linarith+
  ultimately show ?thesis unfolding p_def [symmetric] by (rule half_bound)
qed

lemma pulses_at_complete: "2 \<le> n \<Longrightarrow> pulses_at n (n * k) = k"
proof -
  assume n: "2 \<le> n"
  have e: "n div 2 + n * k - 1 = (n div 2 - 1) + n * k" using n by auto
  have l: "n div 2 - 1 < n" using n by auto
  show ?thesis unfolding pulses_at_def e using l n by (simp only: div_mult_self2 div_less)
qed

text \<open>The four axes, one after the other.\<close>

lemma step_axes:
  "step_axis 3 (step_axis 2 (step_axis 1 (step_axis 0 s))) = fold step_axis [0..<N_AXIS] s"
  by (simp add: N_AXIS_def upt_rec numeral_2_eq_2 numeral_3_eq_3)

text \<open>The counters are in range and the increments are at most the events of the block.\<close>

definition tick_ok :: "stepper \<Rightarrow> bool" where
  "tick_ok t \<longleftrightarrow> length (counter t) = N_AXIS \<and> length (st_steps t) = N_AXIS \<and> unat (step_event_count t) < 2 ^ 31 \<and>
     2 \<le> unat (step_event_count t) \<and>
     (\<forall>i < N_AXIS. counter t ! i \<le> step_event_count t \<and> st_steps t ! i \<le> step_event_count t)"

definition axis_steps :: "stepper \<Rightarrow> nat \<Rightarrow> bool" where
  "axis_steps t i \<longleftrightarrow> unat (step_event_count t) < unat (counter t ! i) + unat (st_steps t ! i)"

definition next_count :: "stepper \<Rightarrow> nat \<Rightarrow> nat" where
  "next_count t i =
     (let c = unat (counter t ! i) + unat (st_steps t ! i)
      in if axis_steps t i then c - unat (step_event_count t) else c)"

definition axis_dir :: "u8 \<Rightarrow> nat \<Rightarrow> int" where
  "axis_dir d i = (if bit d i then -1 else 1)"

lemma step_axis_sum:
  assumes "tick_ok t" "i < N_AXIS"
  shows "unat (counter t ! i + st_steps t ! i) = unat (counter t ! i) + unat (st_steps t ! i)"
    "step_event_count t < counter t ! i + st_steps t ! i \<longleftrightarrow> axis_steps t i"
    "unat (if axis_steps t i then counter t ! i + st_steps t ! i - step_event_count t else counter t ! i + st_steps t ! i) =
       next_count t i"
    "i = 2 \<and> st_steps t ! i = 0 \<Longrightarrow> next_count t i = unat (counter t ! i) \<and> \<not> axis_steps t i"
proof -
  have a: "unat (counter t ! i) \<le> unat (step_event_count t)" "unat (st_steps t ! i) \<le> unat (step_event_count t)"
    "unat (step_event_count t) < 2 ^ 31"
    using assms by (auto simp: tick_ok_def word_le_nat_alt)
  then have "unat (counter t ! i) + unat (st_steps t ! i) < 2 ^ LENGTH(32)" by simp
  then show sum: "unat (counter t ! i + st_steps t ! i) = unat (counter t ! i) + unat (st_steps t ! i)"
    by (metis unat_add_lem)
  show step: "step_event_count t < counter t ! i + st_steps t ! i \<longleftrightarrow> axis_steps t i"
    by (simp add: axis_steps_def word_less_nat_alt sum)
  show "unat (if axis_steps t i then counter t ! i + st_steps t ! i - step_event_count t else counter t ! i + st_steps t ! i) =
       next_count t i"
  proof (cases "axis_steps t i")
    case True
    then have "step_event_count t \<le> counter t ! i + st_steps t ! i" using step by auto
    with True show ?thesis by (simp add: next_count_def Let_def sum unat_sub)
  qed (simp add: next_count_def Let_def sum)
  show "i = 2 \<and> st_steps t ! i = 0 \<Longrightarrow> next_count t i = unat (counter t ! i) \<and> \<not> axis_steps t i"
    using a by (auto simp: next_count_def axis_steps_def Let_def)
qed

text \<open>After the axes below \<open>m\<close>.\<close>

lemma step_axes_spec:
  assumes "tick_ok (st s)" "length (position s) = N_AXIS" "m \<le> N_AXIS"
  shows "\<exists>so cs ps. fold step_axis [0..<m] s = s\<lparr>st := (st s)\<lparr>step_out := so, counter := cs\<rparr>, position := ps\<rparr> \<and>
     length cs = N_AXIS \<and> length ps = N_AXIS \<and>
     (\<forall>i. bit so i \<longleftrightarrow> bit (step_out (st s)) i \<or> i < m \<and> axis_steps (st s) i) \<and>
     (\<forall>i < N_AXIS. unat (cs ! i) = (if i < m then next_count (st s) i else unat (counter (st s) ! i))) \<and>
     (\<forall>i < N_AXIS. ps ! i = position s ! i + (if i < m \<and> axis_steps (st s) i then of_int (axis_dir (dir_out (st s)) i) else 0))"
  using assms(3)
proof (induction m)
  case 0
  show ?case using assms(1,2)
    by (intro exI [of _ "step_out (st s)"] exI [of _ "counter (st s)"] exI [of _ "position s"]) (simp add: tick_ok_def)
next
  case (Suc m)
  let ?t = "st s"
  have m: "m < N_AXIS" using Suc.prems by simp
  from Suc.IH obtain so cs ps where IH: "fold step_axis [0..<m] s = s\<lparr>st := ?t\<lparr>step_out := so, counter := cs\<rparr>, position := ps\<rparr>"
    "length cs = N_AXIS" "length ps = N_AXIS" "\<And>i. bit so i \<longleftrightarrow> bit (step_out ?t) i \<or> i < m \<and> axis_steps ?t i"
    "\<And>i. i < N_AXIS \<Longrightarrow> unat (cs ! i) = (if i < m then next_count ?t i else unat (counter ?t ! i))"
    "\<And>i. i < N_AXIS \<Longrightarrow> ps ! i = position s ! i + (if i < m \<and> axis_steps ?t i then of_int (axis_dir (dir_out ?t) i) else 0)"
    using m by auto
  have c: "cs ! m = counter ?t ! m" using IH(5) [OF m] by simp
  let ?c = "if axis_steps ?t m then counter ?t ! m + st_steps ?t ! m - step_event_count ?t else counter ?t ! m + st_steps ?t ! m"
  let ?so = "if axis_steps ?t m then so OR push_bit m 1 else so"
  let ?ps = "if axis_steps ?t m then ps[m := ps ! m + of_int (axis_dir (dir_out ?t) m)] else ps"
  have c': "unat ?c = next_count ?t m" by (rule step_axis_sum(3) [OF assms(1) m])
  have "fold step_axis [0..<Suc m] s = step_axis m (s\<lparr>st := ?t\<lparr>step_out := so, counter := cs\<rparr>, position := ps\<rparr>)"
    by (simp add: IH(1))
  also have "\<dots> = s\<lparr>st := ?t\<lparr>step_out := ?so, counter := cs[m := ?c]\<rparr>, position := ?ps\<rparr>"
  proof (cases "m = 2 \<and> st_steps ?t ! m = 0")
    case True
    with step_axis_sum(4) [OF assms(1) m] have "\<not> axis_steps ?t m" by blast
    with True have "cs[m := ?c] = cs[m := cs ! m]" using c by auto
    then have "cs[m := ?c] = cs" by simp
    moreover have "m = 2" "st_steps ?t ! 2 = 0" using True by auto
    ultimately show ?thesis using \<open>\<not> axis_steps ?t m\<close> by (simp add: step_axis_def Let_def)
  next
    case False
    show ?thesis
    proof (cases "axis_steps ?t m")
      case True
      with step_axis_sum(2) [OF assms(1) m] False show ?thesis
        unfolding step_axis_def Let_def upd_st_def axis_dir_def by (auto simp: c)
    next
      case F2: False
      with step_axis_sum(2) [OF assms(1) m] False show ?thesis
        unfolding step_axis_def Let_def upd_st_def axis_dir_def by (auto simp: c)
    qed
  qed
  finally have F: "fold step_axis [0..<Suc m] s = s\<lparr>st := ?t\<lparr>step_out := ?so, counter := cs[m := ?c]\<rparr>, position := ?ps\<rparr>" .
  have B: "bit ?so i \<longleftrightarrow> bit (step_out ?t) i \<or> i < Suc m \<and> axis_steps ?t i" for i
  proof -
    have "bit (push_bit m (1 :: u8)) i \<longleftrightarrow> i = m" using m by (auto simp: bit_exp_iff N_AXIS_def)
    then show ?thesis by (auto simp: IH(4) bit_or_iff less_Suc_eq simp del: push_bit_of_1)
  qed
  have C: "unat (cs[m := ?c] ! i) = (if i < Suc m then next_count ?t i else unat (counter ?t ! i))" if "i < N_AXIS" for i
  proof (cases "i = m")
    case True
    then show ?thesis using c' m by (simp add: IH(2))
  next
    case False
    then show ?thesis using IH(5) [OF that] by (simp add: less_Suc_eq)
  qed
  have D: "?ps ! i = position s ! i + (if i < Suc m \<and> axis_steps ?t i then of_int (axis_dir (dir_out ?t) i) else 0)"
    if "i < N_AXIS" for i
  proof (cases "i = m")
    case True
    then show ?thesis using IH(6) [OF that] m by (simp add: IH(3))
  next
    case False
    then show ?thesis using IH(6) [OF that] by (simp add: less_Suc_eq)
  qed
  show ?case
    unfolding F
    by (rule exI [of _ ?so], rule exI [of _ "cs[m := ?c]"], rule exI [of _ ?ps], intro conjI allI impI refl)
      (simp_all only: B C D, simp_all add: IH(2,3))
qed

text \<open>A whole tick.\<close>

lemma isr_step_spec:
  assumes "tick_ok (st s)" "length (position s) = N_AXIS"
  obtains so cs ps where
    "isr_step s = s\<lparr>st := (st s)\<lparr>step_out := so, counter := cs, step_count := (if step_count (st s) = 0 then 0 else step_count (st s) - 1)\<rparr>,
       position := ps, segment_tail := (if unat (step_count (st s)) \<le> 1 then next_segment (segment_tail s) else segment_tail s)\<rparr>"
    "length cs = N_AXIS" "length ps = N_AXIS"
    "\<not> st_is_homing s \<longrightarrow> (\<forall>i < N_AXIS. bit so i \<longleftrightarrow> axis_steps (st s) i)"
    "\<forall>i < N_AXIS. unat (cs ! i) = next_count (st s) i"
    "\<forall>i < N_AXIS. ps ! i = position s ! i + (if axis_steps (st s) i then of_int (axis_dir (dir_out (st s)) i) else 0)"
proof -
  let ?s = "upd_st (\<lambda>t. t\<lparr>step_out := 0\<rparr>) s"
  have t: "st ?s = (st s)\<lparr>step_out := 0\<rparr>" "position ?s = position s" by (simp_all add: upd_st_def)
  have same: "axis_steps (st ?s) = axis_steps (st s)" "next_count (st ?s) = next_count (st s)"
    by (simp_all add: fun_eq_iff t axis_steps_def next_count_def Let_def)
  have ok: "tick_ok (st ?s)" using assms(1) by (simp add: t tick_ok_def)
  from step_axes_spec [OF ok, of N_AXIS] assms(2) obtain so cs ps where F:
    "fold step_axis [0..<N_AXIS] ?s = ?s\<lparr>st := (st ?s)\<lparr>step_out := so, counter := cs\<rparr>, position := ps\<rparr>"
    "length cs = N_AXIS" "length ps = N_AXIS"
    "\<And>i. bit so i \<longleftrightarrow> bit (step_out (st ?s)) i \<or> i < N_AXIS \<and> axis_steps (st ?s) i"
    "\<And>i. i < N_AXIS \<Longrightarrow> unat (cs ! i) = next_count (st ?s) i"
    "\<And>i. i < N_AXIS \<Longrightarrow> ps ! i = position ?s ! i + (if axis_steps (st ?s) i then of_int (axis_dir (dir_out (st ?s)) i) else 0)"
    by (auto simp: t(2))
  define so' where "so' = (if st_is_homing s then so AND homing_axis_lock s else so)"
  have c1: "unat (step_count (st s)) \<le> 1 \<longleftrightarrow> step_count (st s) = 0 \<or> step_count (st s) - 1 = 0"
  proof -
    have "unat (step_count (st s)) = 1 \<longleftrightarrow> step_count (st s) = 1" by (metis unat_1 unat_eq_iff)
    moreover have "unat (step_count (st s)) = 0 \<longleftrightarrow> step_count (st s) = 0" by (rule unat_eq_zero)
    ultimately show ?thesis by (auto simp: le_Suc_eq)
  qed
  have "isr_step s = s\<lparr>st := (st s)\<lparr>step_out := so', counter := cs, step_count := (if step_count (st s) = 0 then 0 else step_count (st s) - 1)\<rparr>,
       position := ps, segment_tail := (if unat (step_count (st s)) \<le> 1 then next_segment (segment_tail s) else segment_tail s)\<rparr>"
    unfolding isr_step_def step_axes F(1) c1 by (simp add: upd_st_def Let_def so'_def)
  then show ?thesis
  proof (rule that [OF _ F(2,3)])
    show "\<not> st_is_homing s \<longrightarrow> (\<forall>i < N_AXIS. bit so' i \<longleftrightarrow> axis_steps (st s) i)"
      using F(4) same by (simp add: so'_def t)
    show "\<forall>i < N_AXIS. unat (cs ! i) = next_count (st s) i" using F(5) same by simp
    show "\<forall>i < N_AXIS. ps ! i = position s ! i + (if axis_steps (st s) i then of_int (axis_dir (dir_out (st s)) i) else 0)"
      using F(6) same by (simp add: t)
  qed
qed

section \<open>What does not concern the motion\<close>

text \<open>The directions and steps of the pulses put out.\<close>

fun out_pulses :: "st_action list \<Rightarrow> (u8 \<times> u8) list" where
  "out_pulses [] = []"
| "out_pulses (Pulse_start nb dc d so # as) = (d, so) # out_pulses as"
| "out_pulses (_ # as) = out_pulses as"

lemma out_pulses_append [simp]: "out_pulses (as @ bs) = out_pulses as @ out_pulses bs"
  by (induction as rule: out_pulses.induct) simp_all

definition axis_move :: "nat \<Rightarrow> u8 \<times> u8 \<Rightarrow> int" where
  "axis_move i p = (if bit (snd p) i then axis_dir (fst p) i else 0)"

definition net_pulses :: "nat \<Rightarrow> smem \<Rightarrow> int" where
  "net_pulses i s = sum_list (map (axis_move i) (out_pulses (st_out s)))"

definition block_core :: "st_block \<Rightarrow> u32 list \<times> u32 \<times> u8" where
  "block_core k = (sb_steps k, sb_event_count k, sb_direction k)"

text \<open>Same segments, blocks, position and pulses.\<close>

definition same_motion :: "smem \<Rightarrow> smem \<Rightarrow> bool" where
  "same_motion s s' \<longleftrightarrow> segment_buffer s' = segment_buffer s \<and> segment_tail s' = segment_tail s \<and>
     segment_head s' = segment_head s \<and> map block_core (st_block_buffer s') = map block_core (st_block_buffer s) \<and>
     st_prep_block s' = st_prep_block s \<and> position s' = position s \<and> st_is_homing s' = st_is_homing s \<and>
     out_pulses (st_out s') = out_pulses (st_out s)"

lemma same_motion_refl [simp]: "same_motion s s"
  by (simp add: same_motion_def)

lemma same_motion_trans: "same_motion s s' \<Longrightarrow> same_motion s' s'' \<Longrightarrow> same_motion s s''"
  by (simp add: same_motion_def)

lemma same_motion_emit [simp]: "same_motion s (st_emit as s') \<longleftrightarrow> same_motion s s'" if "out_pulses as = []"
  using that by (simp add: same_motion_def st_emit_def)

lemma same_motion_upd_st [simp]: "same_motion s (upd_st f s') \<longleftrightarrow> same_motion s s'"
  by (simp add: same_motion_def upd_st_def)

lemma run_output_commands_same:
  assumes "run_output_commands p s = Some s'"
  shows "same_motion s s' \<and> st s' = st s"
proof (rule run_output_commands.raw_induct [of "\<lambda>p s s'. same_motion s s' \<and> st s' = st s", OF _ assms])
  fix f p s s'
  assume IH: "\<And>p s s'. f p s = Some s' \<Longrightarrow> same_motion s s' \<and> st s' = st s"
    and body: "(case p of None \<Rightarrow> Some s
      | Some a \<Rightarrow> (case command_cells s a of None \<Rightarrow> None
          | Some c \<Rightarrow> f (oc_next c) (st_emit [if oc_digital c then Digital_out (oc_port c) (oc_value c \<noteq> 0)
               else Analog_out (oc_port c) (oc_value c)] s))) = Some s'"
  show "same_motion s s' \<and> st s' = st s"
  proof (cases p)
    case None
    with body show ?thesis by simp
  next
    case (Some a)
    with body obtain c where c: "command_cells s a = Some c" by (auto split: option.splits)
    let ?s = "st_emit [if oc_digital c then Digital_out (oc_port c) (oc_value c \<noteq> 0) else Analog_out (oc_port c) (oc_value c)] s"
    have "f (oc_next c) ?s = Some s'" using body Some c by simp
    from IH [OF this] have "same_motion ?s s'" "st s' = st ?s" by simp_all
    moreover have "same_motion s ?s" "st ?s = st s" by (simp_all add: st_emit_def same_motion_def)
    ultimately show ?thesis using same_motion_trans by metis
  qed
qed

text \<open>Loading a segment sets up the tick.\<close>

definition holds :: "st_block \<Rightarrow> plan_block \<Rightarrow> bool" where
  "holds k pb \<longleftrightarrow> block_core k = (map (push_bit MAX_AMASS_LEVEL) (pb_steps pb),
     push_bit MAX_AMASS_LEVEL (pb_step_event_count pb), pb_direction pb)"

lemma upd_block_core:
  assumes "b < length (st_block_buffer s)" "\<And>k. block_core (f k) = block_core k"
  shows "map block_core (st_block_buffer (upd_block b f s)) = map block_core (st_block_buffer s)"
  by (rule nth_equalityI) (simp_all add: upd_block_def nth_list_update assms)

lemma same_motion_upd_block:
  assumes "b < length (st_block_buffer s')" "\<And>k. block_core (f k) = block_core k" "same_motion s s'"
  shows "same_motion s (upd_block b f s')"
  using upd_block_core [OF assms(1,2)] assms(3) by (simp add: same_motion_def) (simp add: upd_block_def)

lemma holds_nth:
  assumes "map block_core ks' = map block_core ks" "b < length ks" "holds (ks ! b) pb"
  shows "holds (ks' ! b) pb"
proof -
  have "length ks' = length ks" using assms(1) by (metis length_map)
  then have "block_core (ks' ! b) = block_core (ks ! b)" using assms(1,2) by (metis nth_map)
  then show ?thesis using assms(3) by (simp add: holds_def)
qed

lemma isr_new_block_spec:
  assumes "isr_new_block e b s = Some s'" "b < length (st_block_buffer s)" "holds (st_block_buffer s ! b) pb"
  shows "same_motion s s'"
    "\<exists>dc. st s' = (st s)\<lparr>dir_changed := dc, dir_out := pb_direction pb, exec_block := Some b,
       step_event_count := push_bit MAX_AMASS_LEVEL (pb_step_event_count pb), new_block := True,
       counter := replicate N_AXIS (drop_bit 1 (push_bit MAX_AMASS_LEVEL (pb_step_event_count pb)))\<rparr>"
proof -
  let ?blk = "st_block_buffer s ! b"
  let ?dc = "dir_out (st s) XOR sb_direction ?blk"
  define s1 where "s1 = upd_st (\<lambda>t. t\<lparr>dir_changed := ?dc, dir_out := (if ?dc \<noteq> 0 then sb_direction ?blk else dir_out t)\<rparr>) s"
  define s2 where "s2 = (case exec_block (st s1) of
        Some o1 \<Rightarrow> if sb_offset_id (st_block_buffer s1 ! o1) \<noteq> sb_offset_id ?blk then st_emit [Report_offset] s1 else s1
      | None \<Rightarrow> s1)"
  define s3 where "s3 = upd_st (\<lambda>t. t\<lparr>exec_block := Some b, step_event_count := sb_event_count ?blk, new_block := True\<rparr>) s2"
  define s4 where "s4 = (if bit (sb_overrides ?blk) 15 then s3\<lparr>override_control := sb_overrides ?blk\<rparr> else s3)"
  note body = assms(1) [unfolded isr_new_block_def Let_def, folded s1_def, folded s2_def, folded s3_def, folded s4_def]
  then obtain s5 where s5: "run_output_commands (sb_output_commands ?blk) s4 = Some s5" by (auto split: option.splits)
  define s6 where "s6 = upd_block b (\<lambda>k. k\<lparr>sb_output_commands := None\<rparr>) s5"
  define s7 where "s7 = (case sb_message ?blk of None \<Rightarrow> s6
      | Some m \<Rightarrow> upd_block b (\<lambda>k. k\<lparr>sb_message := None\<rparr>) (st_emit [if se_task_added e then Message m else Message_freed m] s6))"
  have s': "s' = upd_st (\<lambda>t. t\<lparr>counter := replicate N_AXIS (drop_bit 1 (step_event_count t))\<rparr>) s7"
    using body s5 unfolding s7_def s6_def by simp
  have m4: "same_motion s s4"
    by (auto simp: s4_def s3_def s2_def s1_def same_motion_def upd_st_def st_emit_def split: option.splits)
  have r: "same_motion s4 s5" "st s5 = st s4" using run_output_commands_same [OF s5] by simp_all
  have l5: "b < length (st_block_buffer s5)"
    using m4 r(1) assms(2) by (metis same_motion_def length_map)
  have m6: "same_motion s s6"
    unfolding s6_def by (rule same_motion_upd_block [OF l5]) (simp_all add: block_core_def same_motion_trans [OF m4 r(1)])
  have l6: "b < length (st_block_buffer s6)" using l5 by (simp add: s6_def upd_block_def)
  have m7: "same_motion s s7"
  proof (cases "sb_message ?blk")
    case (Some m)
    have "same_motion s (upd_block b (\<lambda>k. k\<lparr>sb_message := None\<rparr>) (st_emit [if se_task_added e then Message m else Message_freed m] s6))"
      by (rule same_motion_upd_block) (simp_all add: l6 m6 block_core_def st_emit_def same_motion_def [of s] m6 [unfolded same_motion_def])
    then show ?thesis by (simp add: s7_def Some)
  qed (simp add: s7_def m6)
  then show "same_motion s s'" by (simp add: s')
  have core: "sb_direction ?blk = pb_direction pb" "sb_event_count ?blk = push_bit MAX_AMASS_LEVEL (pb_step_event_count pb)"
    using assms(3) by (simp_all add: holds_def block_core_def)
  have d: "(if ?dc \<noteq> 0 then sb_direction ?blk else dir_out (st s)) = pb_direction pb" by (simp add: core)
  have "st s7 = st s4" using r(2) by (simp add: s7_def s6_def upd_block_def st_emit_def split: option.splits)
  moreover have "st s4 = st s3" by (simp add: s4_def)
  moreover have "st s2 = st s1" by (simp add: s2_def st_emit_def split: option.splits)
  ultimately have "st s' = (st s)\<lparr>dir_changed := ?dc, dir_out := pb_direction pb, exec_block := Some b,
       step_event_count := push_bit MAX_AMASS_LEVEL (pb_step_event_count pb), new_block := True,
       counter := replicate N_AXIS (drop_bit 1 (push_bit MAX_AMASS_LEVEL (pb_step_event_count pb)))\<rparr>"
    using d by (simp add: s' s3_def s1_def upd_st_def core)
  then show "\<exists>dc. st s' = (st s)\<lparr>dir_changed := dc, dir_out := pb_direction pb, exec_block := Some b,
       step_event_count := push_bit MAX_AMASS_LEVEL (pb_step_event_count pb), new_block := True,
       counter := replicate N_AXIS (drop_bit 1 (push_bit MAX_AMASS_LEVEL (pb_step_event_count pb)))\<rparr>" by blast
qed

lemma isr_load_segment_spec:
  fixes s :: smem
  defines "sg \<equiv> segment_buffer s ! segment_tail s"
  assumes "isr_load_segment e s = Some s'" "sg_exec_block sg < length (st_block_buffer s)"
    "holds (st_block_buffer s ! sg_exec_block sg) pb"
  shows "same_motion s s'" "step_count (st s') = sg_n_step sg" "exec_segment (st s') = Some (segment_tail s)"
    "exec_block (st s') = Some (sg_exec_block sg)"
    "st_steps (st s') = map (drop_bit (sg_amass_level sg)) (map (push_bit MAX_AMASS_LEVEL) (pb_steps pb))"
    "exec_block (st s) = Some (sg_exec_block sg) \<Longrightarrow>
       counter (st s') = counter (st s) \<and> step_event_count (st s') = step_event_count (st s) \<and> dir_out (st s') = dir_out (st s)"
    "exec_block (st s) \<noteq> Some (sg_exec_block sg) \<Longrightarrow>
       counter (st s') = replicate N_AXIS (drop_bit 1 (push_bit MAX_AMASS_LEVEL (pb_step_event_count pb))) \<and>
       step_event_count (st s') = push_bit MAX_AMASS_LEVEL (pb_step_event_count pb) \<and> dir_out (st s') = pb_direction pb"
proof -
  let ?b = "sg_exec_block sg"
  define s1 where "s1 = upd_st (\<lambda>t. t\<lparr>exec_segment := Some (segment_tail s)\<rparr>) s"
  define s2 where "s2 = (if sg_cycles_per_tick sg \<noteq> cycles_per_tick s1
    then (st_emit [Cycles_per_tick (sg_cycles_per_tick sg)] s1)\<lparr>cycles_per_tick := sg_cycles_per_tick sg\<rparr> else s1)"
  define s3 where "s3 = upd_st (\<lambda>t. t\<lparr>step_count := sg_n_step sg\<rparr>) s2"
  define nb where "nb = (if exec_block (st s3) \<noteq> Some ?b then isr_new_block e ?b s3 else Some s3)"
  note body = assms(2) [unfolded isr_load_segment_def Let_def, folded sg_def, folded s1_def, folded s2_def, folded s3_def,
    folded nb_def]
  from body obtain s4 where s4: "nb = Some s4" by (auto split: option.splits)
  define s5 where "s5 = upd_st (\<lambda>t. t\<lparr>amass_level := sg_amass_level sg,
    st_steps := map (drop_bit (sg_amass_level sg)) (sb_steps (st_block_buffer s4 ! ?b))\<rparr>) s4"
  have s': "s' = (if sg_update_pwm sg then st_emit [Update_pwm (sb_spindle (st_block_buffer s4 ! ?b)) (sg_spindle_pwm sg)] s5
      else if sg_update_rpm sg then st_emit [Update_rpm (sb_spindle (st_block_buffer s4 ! ?b)) (sg_spindle_rpm sg)] s5 else s5)"
    using body s4 unfolding s5_def by simp
  have m3: "same_motion s s3" "st_block_buffer s3 = st_block_buffer s"
    by (simp_all add: s3_def s2_def s1_def same_motion_def upd_st_def st_emit_def)
  have t3: "st s3 = (st s)\<lparr>exec_segment := Some (segment_tail s), step_count := sg_n_step sg\<rparr>"
    by (simp add: s3_def s2_def s1_def upd_st_def st_emit_def)
  have b3: "?b < length (st_block_buffer s3)" "holds (st_block_buffer s3 ! ?b) pb" using assms(3,4) by (simp_all add: m3(2))
  have m34: "same_motion s3 s4"
    using s4 isr_new_block_spec(1) [OF _ b3] by (auto simp: nb_def split: if_splits)
  then have m4: "same_motion s s4" using m3(1) same_motion_trans by blast
  have h4: "holds (st_block_buffer s4 ! ?b) pb"
    using m34 holds_nth [OF _ b3] by (simp add: same_motion_def)
  have t': "st s' = (st s4)\<lparr>amass_level := sg_amass_level sg, st_steps := map (drop_bit (sg_amass_level sg)) (sb_steps (st_block_buffer s4 ! ?b))\<rparr>"
    by (simp add: s' s5_def upd_st_def st_emit_def)
  show "same_motion s s'" using m4 by (simp add: s' s5_def)
  show "st_steps (st s') = map (drop_bit (sg_amass_level sg)) (map (push_bit MAX_AMASS_LEVEL) (pb_steps pb))"
    using h4 by (simp add: t' holds_def block_core_def)
  have same: "s4 = s3" if "exec_block (st s) = Some ?b" using that s4 by (simp add: nb_def t3)
  have new: "\<exists>dc. st s4 = (st s3)\<lparr>dir_changed := dc, dir_out := pb_direction pb, exec_block := Some ?b,
       step_event_count := push_bit MAX_AMASS_LEVEL (pb_step_event_count pb), new_block := True,
       counter := replicate N_AXIS (drop_bit 1 (push_bit MAX_AMASS_LEVEL (pb_step_event_count pb)))\<rparr>"
    if "exec_block (st s) \<noteq> Some ?b"
  proof -
    have "isr_new_block e ?b s3 = Some s4" using that s4 by (simp add: nb_def t3)
    from isr_new_block_spec(2) [OF this b3] show ?thesis .
  qed
  show "exec_block (st s) = Some ?b \<Longrightarrow>
       counter (st s') = counter (st s) \<and> step_event_count (st s') = step_event_count (st s) \<and> dir_out (st s') = dir_out (st s)"
    using same by (simp add: t' t3)
  show "exec_block (st s) \<noteq> Some ?b \<Longrightarrow>
       counter (st s') = replicate N_AXIS (drop_bit 1 (push_bit MAX_AMASS_LEVEL (pb_step_event_count pb))) \<and>
       step_event_count (st s') = push_bit MAX_AMASS_LEVEL (pb_step_event_count pb) \<and> dir_out (st s') = pb_direction pb"
    using new by (auto simp: t')
  have "step_count (st s4) = sg_n_step sg \<and> exec_segment (st s4) = Some (segment_tail s) \<and> exec_block (st s4) = Some ?b"
  proof (cases "exec_block (st s) = Some ?b")
    case True
    then show ?thesis using same by (simp add: t3)
  next
    case False
    then show ?thesis using new by (auto simp: t3)
  qed
  then show "step_count (st s') = sg_n_step sg" "exec_segment (st s') = Some (segment_tail s)" "exec_block (st s') = Some ?b"
    by (simp_all add: t')
qed

section \<open>Blocks and their segments\<close>

text \<open>The blocks that were passed to the interrupt, each with the steps of its segments.\<close>

type_synonym job = "plan_block \<times> nat list"

fun flat_from :: "nat \<Rightarrow> job list \<Rightarrow> (nat \<times> nat) list" where
  "flat_from k [] = []"
| "flat_from k (j # js) = map (Pair k) (snd j) @ flat_from (Suc k) js"

definition done_steps :: "nat \<Rightarrow> (nat \<times> nat) list \<Rightarrow> nat" where
  "done_steps k xs = sum_list (map snd (filter (\<lambda>x. fst x = k) xs))"

lemma done_steps_simps [simp]:
  "done_steps k [] = 0" "done_steps k (x # xs) = (if fst x = k then snd x else 0) + done_steps k xs"
  "done_steps k (xs @ ys) = done_steps k xs + done_steps k ys"
  by (simp_all add: done_steps_def)

lemma flat_from_append: "flat_from k (js @ js') = flat_from k js @ flat_from (k + length js) js'"
  by (induction js arbitrary: k) simp_all

lemma flat_from_range: "x \<in> set (flat_from k js) \<Longrightarrow> k \<le> fst x \<and> fst x < k + length js \<and> snd x \<in> set (snd (js ! (fst x - k)))"
proof (induction js arbitrary: k)
  case (Cons j js)
  show ?case
  proof (cases "x \<in> Pair k ` set (snd j)")
    case True
    then show ?thesis by auto
  next
    case False
    with Cons.prems have "x \<in> set (flat_from (Suc k) js)" by auto
    from Cons.IH [OF this] show ?thesis by (simp add: nth_Cons')
  qed
qed simp

lemma sorted_const: "sorted (map (\<lambda>_. k) ns)"
  by (induction ns) auto

lemma sorted_le_last: "sorted (map f xs) \<Longrightarrow> x \<in> set xs \<Longrightarrow> f x \<le> f (last xs)"
  by (induction xs) auto

lemma flat_from_sorted: "sorted (map fst (flat_from k js))"
proof (induction js arbitrary: k)
  case (Cons j js)
  have "\<forall>x \<in> set (flat_from (Suc k) js). k \<le> fst x" using flat_from_range by fastforce
  then show ?case using Cons.IH by (auto simp: sorted_append comp_def sorted_const)
qed simp

lemma done_steps_Pair: "done_steps k (map (Pair i) ns) = (if i = k then sum_list ns else 0)"
  by (induction ns) auto

lemma done_steps_flat: "j < length js \<Longrightarrow> done_steps (k + j) (flat_from k js) = sum_list (snd (js ! j))"
proof (induction js arbitrary: k j)
  case (Cons a js)
  show ?case
  proof (cases j)
    case 0
    have "done_steps k (flat_from (Suc k) js) = 0"
      using flat_from_range [of _ "Suc k" js] by (force simp: done_steps_def filter_empty_conv)
    with 0 show ?thesis by (simp add: done_steps_Pair)
  next
    case (Suc i)
    then show ?thesis using Cons.IH [of i "Suc k"] Cons.prems by (simp add: done_steps_Pair)
  qed
qed simp

text \<open>What comes after the segments of a block does not contain earlier blocks, and every block in between.\<close>

lemma flat_split_fresh:
  assumes "flat_from 0 js = pre @ (k, n) # rest" "pre \<noteq> []" "fst (last pre) \<noteq> k"
  shows "done_steps k pre = 0"
proof -
  have "sorted (map fst (pre @ (k, n) # rest))" using flat_from_sorted assms(1) by metis
  then have le: "\<forall>x \<in> set pre. fst x \<le> k" "sorted (map fst pre)" by (auto simp: sorted_append)
  have "fst x \<le> fst (last pre)" if "x \<in> set pre" for x
    using sorted_le_last [OF le(2) that] .
  moreover have "fst (last pre) < k" using le(1) assms(2,3) by (metis last_in_set le_neq_implies_less)
  ultimately have "\<forall>x \<in> set pre. fst x \<noteq> k" by fastforce
  then show ?thesis by (simp add: done_steps_def filter_empty_conv)
qed

lemma flat_covers:
  assumes "flat_from 0 js = pre @ rest" "pre = [] \<or> fst (last pre) \<le> j" "j < i" "i < length js" "snd (js ! i) \<noteq> []"
  shows "i \<in> fst ` set rest"
proof -
  have le: "fst x \<le> j" if "x \<in> set pre" for x
  proof -
    have "sorted (map fst pre)" using flat_from_sorted [of 0 js] assms(1) by (simp add: sorted_append)
    from sorted_le_last [OF this that] have "fst x \<le> fst (last pre)" .
    with assms(2) that show ?thesis by force
  qed
  from assms(5) obtain n where n: "n \<in> set (snd (js ! i))" by (metis last_in_set)
  have "flat_from 0 js = flat_from 0 (take i js) @ map (Pair i) (snd (js ! i)) @ flat_from (Suc i) (drop (Suc i) js)"
    using assms(4) by (metis (no_types, lifting) Cons_nth_drop_Suc add_0 append_take_drop_id flat_from.simps(2) flat_from_append
        length_take less_or_eq_imp_le min.absorb4)
  with n have "(i, n) \<in> set (flat_from 0 js)" by auto
  then have "(i, n) \<in> set rest" using assms(1,3) le by fastforce
  then show ?thesis by force
qed

text \<open>The next segment is of the same block or of the next.\<close>

lemma flat_next:
  assumes "flat_from 0 js = pre @ (k', n) # rest" "pre \<noteq> []" "\<forall>j < length js - 1. snd (js ! j) \<noteq> []"
  shows "k' = fst (last pre) \<or> k' = Suc (fst (last pre))"
proof -
  let ?k = "fst (last pre)"
  have s: "sorted (map fst (pre @ (k', n) # rest))" using flat_from_sorted assms(1) by metis
  then have ge: "?k \<le> k'" using assms(2) by (auto simp: sorted_append)
  have k': "k' < length js" using flat_from_range [of "(k', n)" 0 js] assms(1) by simp
  have "\<not> Suc ?k < k'"
  proof
    assume "Suc ?k < k'"
    then have "Suc ?k \<in> fst ` set ((k', n) # rest)" using flat_covers [OF assms(1), of ?k "Suc ?k"] assms(3) k' by simp
    then have "k' \<le> Suc ?k" using s by (auto simp: sorted_append)
    with \<open>Suc ?k < k'\<close> show False by simp
  qed
  with ge show ?thesis by linarith
qed

text \<open>The blocks with waiting segments.\<close>

lemma flat_split_room:
  assumes "flat_from 0 js = pre @ rest" "j < length js" "\<forall>i < length js. snd (js ! i) \<noteq> []"
    "j \<in> fst ` set rest"
  shows "length js - j \<le> length rest"
proof -
  have s: "sorted (map fst (pre @ rest))" using flat_from_sorted assms(1) by metis
  then have le: "pre = [] \<or> fst (last pre) \<le> j" using assms(4) last_in_set by (fastforce simp: sorted_append)
  have "{j..<length js} \<subseteq> fst ` set rest"
  proof
    fix i assume "i \<in> {j..<length js}"
    then show "i \<in> fst ` set rest" using assms(3,4) flat_covers [OF assms(1) le, of i] by (cases "i = j") auto
  qed
  then have "card {j..<length js} \<le> card (fst ` set rest)" by (intro card_mono) auto
  also have "\<dots> \<le> length rest" by (metis card_image_le card_length finite_set le_trans)
  finally show ?thesis using assms(2) by simp
qed

section \<open>The invariant\<close>

definition block_ok :: "plan_block \<Rightarrow> bool" where
  "block_ok pb \<longleftrightarrow> length (pb_steps pb) = N_AXIS \<and> 0 < unat (pb_step_event_count pb) \<and>
     unat (pb_step_event_count pb) < 2 ^ 28 \<and> (\<forall>i < N_AXIS. pb_steps pb ! i \<le> pb_step_event_count pb)"

text \<open>Progress in a block is counted in units, eight to a step.\<close>

definition block_events :: "plan_block \<Rightarrow> nat" where
  "block_events pb = 8 * unat (pb_step_event_count pb)"

definition axis_pulses :: "plan_block \<Rightarrow> nat \<Rightarrow> nat \<Rightarrow> nat" where
  "axis_pulses pb i u = pulses_at (block_events pb) (unat (pb_steps pb ! i) * u)"

definition job_move :: "plan_block \<Rightarrow> nat \<Rightarrow> nat \<Rightarrow> int" where
  "job_move pb i u = axis_dir (pb_direction pb) i * int (axis_pulses pb i u)"

definition total :: "job list \<Rightarrow> (nat \<Rightarrow> nat) \<Rightarrow> nat \<Rightarrow> int" where
  "total js U i = (\<Sum>j<length js. job_move (fst (js ! j)) i (U j))"

definition units :: "(nat \<times> nat) list \<Rightarrow> nat \<Rightarrow> nat" where
  "units pre j = 8 * done_steps j pre"

definition slot :: "nat \<Rightarrow> nat \<Rightarrow> nat" where
  "slot base k = (base + k) mod 9"

definition seg_ok :: "nat \<Rightarrow> nat \<times> nat \<Rightarrow> segment \<Rightarrow> bool" where
  "seg_ok base x sg \<longleftrightarrow> sg_exec_block sg = slot base (fst x) \<and> sg_amass_level sg \<le> MAX_AMASS_LEVEL \<and> 0 < snd x \<and>
     unat (sg_n_step sg) = snd x * 2 ^ sg_amass_level sg"

definition ring :: "smem \<Rightarrow> segment list" where
  "ring s = ring_list (segment_buffer s) (segment_tail s) (segment_head s)"

definition memory_ok :: "nat \<Rightarrow> job list \<Rightarrow> smem \<Rightarrow> bool" where
  "memory_ok base js s \<longleftrightarrow> length (segment_buffer s) = 10 \<and> segment_tail s < 10 \<and> segment_head s < 10 \<and>
     length (st_block_buffer s) = 9 \<and> length (position s) = N_AXIS \<and> st_prep_block s < 9 \<and>
     next_st_block (st_prep_block s) = slot base (length js) \<and> (\<forall>j \<in> set js. block_ok (fst j)) \<and>
     (\<forall>j < length js - 1. snd (js ! j) \<noteq> []) \<and> \<not> st_is_homing s"

definition queued :: "nat \<Rightarrow> job list \<Rightarrow> (nat \<times> nat) list \<Rightarrow> (nat \<times> nat) list \<Rightarrow> segment list \<Rightarrow> smem \<Rightarrow> bool" where
  "queued base js pre rest q s \<longleftrightarrow> flat_from 0 js = pre @ rest \<and> list_all2 (seg_ok base) rest q \<and>
     (\<forall>j < length js. j \<in> fst ` set rest \<or> Suc j = length js \<longrightarrow> holds (st_block_buffer s ! slot base j) (fst (js ! j)))"

definition tracing :: "nat \<Rightarrow> job list \<Rightarrow> nat \<Rightarrow> nat \<Rightarrow> smem \<Rightarrow> bool" where
  "tracing base js k u s \<longleftrightarrow> k < length js \<and>
     (let t = st s; pb = fst (js ! k)
      in exec_block t = Some (slot base k) \<and> unat (step_event_count t) = block_events pb \<and> dir_out t = pb_direction pb \<and>
         length (counter t) = N_AXIS \<and>
         (\<forall>i < N_AXIS. counter_at (block_events pb) (unat (pb_steps pb ! i) * u) (unat (counter t ! i))))"

text \<open>Position and pulses after the given progress in each block; the pulses computed last may not be out yet.\<close>

definition moved :: "bool \<Rightarrow> smem \<Rightarrow> job list \<Rightarrow> (nat \<Rightarrow> nat) \<Rightarrow> smem \<Rightarrow> bool" where
  "moved pending s0 js U s \<longleftrightarrow> (\<forall>i < N_AXIS.
     position s ! i = position s0 ! i + of_int (total js U i) \<and>
     net_pulses i s + (if pending then axis_move i (dir_out (st s), step_out (st s)) else 0) = net_pulses i s0 + total js U i)"

definition at_rest :: "nat \<Rightarrow> smem \<Rightarrow> job list \<Rightarrow> smem \<Rightarrow> bool" where
  "at_rest base s0 js s \<longleftrightarrow> memory_ok base js s \<and> queued base js [] (flat_from 0 js) (ring s) s \<and>
     exec_block (st s) = None \<and> exec_segment (st s) = None \<and> moved False s0 js (\<lambda>_. 0) s"

definition seg_done :: "bool \<Rightarrow> nat \<Rightarrow> smem \<Rightarrow> job list \<Rightarrow> smem \<Rightarrow> bool" where
  "seg_done pending base s0 js s \<longleftrightarrow> memory_ok base js s \<and>
     (\<exists>pre rest. pre \<noteq> [] \<and> queued base js pre rest (ring s) s \<and>
        tracing base js (fst (last pre)) (units pre (fst (last pre))) s \<and> step_count (st s) = 0 \<and>
        moved pending s0 js (units pre) s)"

definition in_segment :: "bool \<Rightarrow> nat \<Rightarrow> smem \<Rightarrow> job list \<Rightarrow> smem \<Rightarrow> bool" where
  "in_segment pending base s0 js s \<longleftrightarrow> memory_ok base js s \<and>
     (\<exists>pre rest q sg k u l. pre \<noteq> [] \<and> k = fst (last pre) \<and> queued base js pre rest q s \<and> ring s = sg # q \<and>
        tracing base js k u s \<and> exec_segment (st s) \<noteq> None \<and> step_count (st s) \<noteq> 0 \<and> l \<le> MAX_AMASS_LEVEL \<and>
        st_steps (st s) = map (drop_bit l) (map (push_bit MAX_AMASS_LEVEL) (pb_steps (fst (js ! k)))) \<and>
        u + 2 ^ (MAX_AMASS_LEVEL - l) * unat (step_count (st s)) = units pre k \<and>
        moved pending s0 js ((units pre)(k := u)) s)"

subsection \<open>The pulses go out\<close>

lemma net_pulses_pulse:
  "net_pulses i (st_emit [Pulse_start nb dc d so] s) = net_pulses i s + axis_move i (d, so)"
  by (simp add: net_pulses_def st_emit_def)

lemma isr_pulse_eq:
  assumes "exec_block (st s) \<noteq> None"
  shows "isr_pulse s = s\<lparr>st := (st s)\<lparr>new_block := False, exec_segment := (if step_count (st s) = 0 then None else exec_segment (st s))\<rparr>,
    st_out := st_out s @ [Pulse_start (new_block (st s)) (dir_changed (st s)) (dir_out (st s)) (step_out (st s))]\<rparr>"
  using assms by (simp add: isr_pulse_def Let_def upd_st_def st_emit_def)

lemma isr_pulse_moved:
  assumes "exec_block (st s) \<noteq> None" "moved True s0 js U s"
  shows "moved False s0 js U (isr_pulse s)"
  using assms by (simp add: isr_pulse_eq moved_def net_pulses_def)

lemma isr_pulse_frame:
  assumes "exec_block (st s) \<noteq> None"
  shows "memory_ok base js (isr_pulse s) = memory_ok base js s" "queued base js pre rest q (isr_pulse s) = queued base js pre rest q s"
    "ring (isr_pulse s) = ring s" "tracing base js k u (isr_pulse s) = tracing base js k u s"
    "step_count (st (isr_pulse s)) = step_count (st s)" "st_steps (st (isr_pulse s)) = st_steps (st s)"
    "exec_segment (st (isr_pulse s)) = (if step_count (st s) = 0 then None else exec_segment (st s))"
    "exec_block (st (isr_pulse s)) = exec_block (st s)"
  by (simp_all add: isr_pulse_eq [OF assms] memory_ok_def queued_def ring_def tracing_def Let_def)

lemma tracing_exec: "tracing base js k u s \<Longrightarrow> exec_block (st s) = Some (slot base k)"
  by (simp add: tracing_def Let_def)

lemma seg_done_pulse:
  assumes "seg_done True base s0 js s"
  shows "seg_done False base s0 js (isr_pulse s) \<and> exec_segment (st (isr_pulse s)) = None"
proof -
  from assms obtain pre rest where h: "pre \<noteq> []" "queued base js pre rest (ring s) s"
    "tracing base js (fst (last pre)) (units pre (fst (last pre))) s" "step_count (st s) = 0" "moved True s0 js (units pre) s"
    "memory_ok base js s" by (auto simp: seg_done_def)
  have x: "exec_block (st s) \<noteq> None" using tracing_exec [OF h(3)] by simp
  then show ?thesis
    unfolding seg_done_def using h isr_pulse_moved [OF x h(5)] by (auto simp: isr_pulse_frame [OF x])
qed

lemma in_segment_pulse:
  assumes "in_segment True base s0 js s"
  shows "in_segment False base s0 js (isr_pulse s) \<and> exec_segment (st (isr_pulse s)) \<noteq> None"
proof -
  from assms obtain pre rest q sg k u l where h: "pre \<noteq> []" "k = fst (last pre)" "queued base js pre rest q s" "ring s = sg # q"
        "tracing base js k u s" "exec_segment (st s) \<noteq> None" "step_count (st s) \<noteq> 0" "l \<le> MAX_AMASS_LEVEL"
        "st_steps (st s) = map (drop_bit l) (map (push_bit MAX_AMASS_LEVEL) (pb_steps (fst (js ! k))))"
        "u + 2 ^ (MAX_AMASS_LEVEL - l) * unat (step_count (st s)) = units pre k"
        "moved True s0 js ((units pre)(k := u)) s" "memory_ok base js s"
    unfolding in_segment_def by blast
  have x: "exec_block (st s) \<noteq> None" using tracing_exec [OF h(5)] by simp
  have "in_segment False base s0 js (isr_pulse s)"
    unfolding in_segment_def isr_pulse_frame [OF x]
    by (intro conjI exI [of _ pre] exI [of _ rest] exI [of _ q] exI [of _ sg] exI [of _ k] exI [of _ u] exI [of _ l])
      (use h isr_pulse_moved [OF x h(11)] in simp_all)
  then show ?thesis using h(6,7) by (simp add: isr_pulse_frame [OF x])
qed

subsection \<open>A tick within a segment\<close>

lemma unat_push_bit_3:
  assumes "unat (x :: u32) < 2 ^ 28"
  shows "unat (push_bit 3 x) = 8 * unat x"
  using assms by (simp add: push_bit_eq_mult unat_word_ariths)

lemma unat_drop_push:
  assumes "unat (x :: u32) < 2 ^ 28" "l \<le> 3"
  shows "unat (drop_bit l (push_bit 3 x)) = unat x * 2 ^ (3 - l)"
proof -
  have e: "8 * unat x = (unat x * 2 ^ (3 - l)) * 2 ^ l"
    using assms(2) by (simp flip: power_add mult.assoc add: mult.assoc)
  show ?thesis unfolding unat_drop_bit unat_push_bit_3 [OF assms(1)] e by (rule nonzero_mult_div_cancel_right) simp
qed

lemma block_ok_steps:
  assumes "block_ok pb" "i < N_AXIS"
  shows "unat (pb_steps pb ! i) \<le> unat (pb_step_event_count pb)" "unat (pb_steps pb ! i) < 2 ^ 28"
    "unat (push_bit MAX_AMASS_LEVEL (pb_step_event_count pb)) = block_events pb" "8 \<le> block_events pb" "block_events pb < 2 ^ 31"
    "even (block_events pb)"
proof -
  show a: "unat (pb_steps pb ! i) \<le> unat (pb_step_event_count pb)" using assms by (simp add: block_ok_def word_le_nat_alt)
  have b: "unat (pb_step_event_count pb) < 2 ^ 28" "0 < unat (pb_step_event_count pb)" using assms(1) by (simp_all add: block_ok_def)
  show "unat (pb_steps pb ! i) < 2 ^ 28" using a b by linarith
  show "unat (push_bit MAX_AMASS_LEVEL (pb_step_event_count pb)) = block_events pb"
    using unat_push_bit_3 [OF b(1)] by (simp add: MAX_AMASS_LEVEL_def block_events_def)
  show "8 \<le> block_events pb" "block_events pb < 2 ^ 31" using b by (simp_all add: block_events_def)
  show "even (block_events pb)" by (simp add: block_events_def)
qed

lemma axis_dir_word: "(of_int (axis_dir d i) :: i32) = (if bit d i then -1 else 1)"
  by (simp add: axis_dir_def)

lemma total_upd:
  assumes "k < length js"
  shows "total js (U(k := u')) i = total js U i - job_move (fst (js ! k)) i (U k) + job_move (fst (js ! k)) i u'"
proof -
  have "total js (U(k := u')) i = (\<Sum>j\<in>{..<length js} - {k}. job_move (fst (js ! j)) i (U j)) + job_move (fst (js ! k)) i u'"
    unfolding total_def using assms by (subst sum.remove [of _ k]) (auto intro: sum.cong)
  moreover have "total js U i = (\<Sum>j\<in>{..<length js} - {k}. job_move (fst (js ! j)) i (U j)) + job_move (fst (js ! k)) i (U k)"
    unfolding total_def using assms by (subst sum.remove [of _ k]) auto
  ultimately show ?thesis by simp
qed

lemma next_segment_mod: "i < 10 \<Longrightarrow> next_segment i = Suc i mod 10"
  by (auto simp: next_segment_def SEGMENT_BUFFER_SIZE_def)

lemma next_segment_less: "i < 10 \<Longrightarrow> next_segment i < 10"
  by (simp add: next_segment_mod)

lemma isr_probe_frame [simp]:
  "st (isr_probe t s) = st s" "position (isr_probe t s) = position s" "in_segment p base s0 js (isr_probe t s) = in_segment p base s0 js s"
proof -
  have "in_segment p base s0 js (s\<lparr>probing_active := a, probe_position := b, st_exec_state := c\<rparr>) = in_segment p base s0 js s" for a b c
    by (simp add: in_segment_def memory_ok_def queued_def ring_def tracing_def moved_def net_pulses_def)
  then show "st (isr_probe t s) = st s" "position (isr_probe t s) = position s" "in_segment p base s0 js (isr_probe t s) = in_segment p base s0 js s"
    by (simp_all add: isr_probe_def)
qed

text \<open>One tick of the axes of a block.\<close>

lemma tracing_tick:
  assumes t: "tracing base js k u s" and ok: "block_ok (fst (js ! k))" and l: "l \<le> MAX_AMASS_LEVEL"
    and steps: "st_steps (st s) = map (drop_bit l) (map (push_bit MAX_AMASS_LEVEL) (pb_steps (fst (js ! k))))"
  defines "u' \<equiv> u + 2 ^ (MAX_AMASS_LEVEL - l)" and "pb \<equiv> fst (js ! k)"
  shows "tick_ok (st s)"
    "i < N_AXIS \<Longrightarrow> counter_at (block_events pb) (unat (pb_steps pb ! i) * u') (next_count (st s) i)"
    "i < N_AXIS \<Longrightarrow> job_move pb i u' = job_move pb i u + (if axis_steps (st s) i then axis_dir (dir_out (st s)) i else 0)"
proof -
  have ok: "block_ok pb" using ok by (simp add: pb_def)
  have lp: "length (pb_steps pb) = N_AXIS" using ok by (simp add: block_ok_def)
  have T: "unat (step_event_count (st s)) = block_events pb" "dir_out (st s) = pb_direction pb" "length (counter (st s)) = N_AXIS"
    "\<And>i. i < N_AXIS \<Longrightarrow> counter_at (block_events pb) (unat (pb_steps pb ! i) * u) (unat (counter (st s) ! i))"
    using t by (simp_all add: tracing_def Let_def pb_def)
  have e: "8 \<le> block_events pb" "block_events pb < 2 ^ 31"
    using block_ok_steps [OF ok, of 0] by (simp_all add: N_AXIS_def)
  define d where "d i = unat (pb_steps pb ! i) * 2 ^ (MAX_AMASS_LEVEL - l)" for i
  have d: "unat (st_steps (st s) ! i) = d i" if "i < N_AXIS" for i
    using unat_drop_push [OF block_ok_steps(2) [OF ok that], of l] l that
    by (simp add: steps d_def MAX_AMASS_LEVEL_def lp flip: pb_def)
  have dle: "d i \<le> block_events pb" if "i < N_AXIS" for i
  proof -
    have "(2 :: nat) ^ (MAX_AMASS_LEVEL - l) \<le> 2 ^ 3" by (rule power_increasing) (simp_all add: MAX_AMASS_LEVEL_def)
    then show ?thesis using block_ok_steps(1) [OF ok that] unfolding d_def block_events_def
      by (subst mult.commute [of 8]) (rule mult_le_mono, simp_all)
  qed
  show "tick_ok (st s)"
    unfolding tick_ok_def
    using T(3) lp e d dle T(4) by (auto simp: T(1) steps word_le_nat_alt counter_at_def simp flip: pb_def)
  fix i assume i: "i < N_AXIS"
  have a: "unat (pb_steps pb ! i) * u' = unat (pb_steps pb ! i) * u + d i" by (simp add: u'_def d_def algebra_simps)
  have ax: "axis_steps (st s) i \<longleftrightarrow> block_events pb < unat (counter (st s) ! i) + d i"
    by (simp add: axis_steps_def T(1) d [OF i])
  have e2: "2 \<le> block_events pb" using e(1) by simp
  note step = counter_at_step [OF T(4) [OF i] dle [OF i] e2]
  show "counter_at (block_events pb) (unat (pb_steps pb ! i) * u') (next_count (st s) i)"
    using step(1) unfolding a next_count_def Let_def ax T(1) d [OF i] .
  show "job_move pb i u' = job_move pb i u + (if axis_steps (st s) i then axis_dir (dir_out (st s)) i else 0)"
    using step(2) unfolding job_move_def axis_pulses_def a ax T(2) by (simp add: distrib_left)
qed

lemma in_segment_step:
  assumes "in_segment False base s0 js s"
  shows "in_segment True base s0 js (isr_step s) \<or> seg_done True base s0 js (isr_step s)"
proof -
  from assms obtain pre rest q sg k u l where h: "pre \<noteq> []" "k = fst (last pre)" "queued base js pre rest q s" "ring s = sg # q"
        "tracing base js k u s" "exec_segment (st s) \<noteq> None" "step_count (st s) \<noteq> 0" "l \<le> MAX_AMASS_LEVEL"
        "st_steps (st s) = map (drop_bit l) (map (push_bit MAX_AMASS_LEVEL) (pb_steps (fst (js ! k))))"
        "u + 2 ^ (MAX_AMASS_LEVEL - l) * unat (step_count (st s)) = units pre k"
        "moved False s0 js ((units pre)(k := u)) s" "memory_ok base js s"
    unfolding in_segment_def by blast
  let ?u = "u + 2 ^ (MAX_AMASS_LEVEL - l)"
  have k: "k < length js" using h(5) by (simp add: tracing_def)
  have ok: "block_ok (fst (js ! k))" using h(12) k by (simp add: memory_ok_def)
  note T = tracing_tick [OF h(5) ok h(8,9)]
  have len: "length (position s) = N_AXIS" using h(12) by (simp add: memory_ok_def)
  obtain so cs ps where I: "isr_step s = s\<lparr>st := (st s)\<lparr>step_out := so, counter := cs, step_count := (if step_count (st s) = 0 then 0 else step_count (st s) - 1)\<rparr>,
       position := ps, segment_tail := (if unat (step_count (st s)) \<le> 1 then next_segment (segment_tail s) else segment_tail s)\<rparr>"
    "length cs = N_AXIS" "length ps = N_AXIS"
    "\<not> st_is_homing s \<longrightarrow> (\<forall>i < N_AXIS. bit so i \<longleftrightarrow> axis_steps (st s) i)"
    "\<forall>i < N_AXIS. unat (cs ! i) = next_count (st s) i"
    "\<forall>i < N_AXIS. ps ! i = position s ! i + (if axis_steps (st s) i then of_int (axis_dir (dir_out (st s)) i) else 0)"
    by (rule isr_step_spec [OF T(1) len])
  let ?s = "isr_step s"
  have so: "\<forall>i < N_AXIS. bit so i \<longleftrightarrow> axis_steps (st s) i" using I(4) h(12) by (simp add: memory_ok_def)
  have c: "step_count (st ?s) = step_count (st s) - 1" using h(7) by (simp add: I(1))
  have c1: "unat (step_count (st s)) = Suc (unat (step_count (st ?s)))"
  proof -
    have "0 < unat (step_count (st s))" using h(7) by (simp add: unat_gt_0)
    then show ?thesis using unat_minus_one [OF h(7)] by (simp add: c)
  qed
  have tr: "tracing base js k ?u ?s"
    using h(5) T(2) I(2,5) by (simp add: tracing_def Let_def I(1))
  have mv: "moved True s0 js ((units pre)(k := ?u)) ?s"
  proof -
    have tot: "total js ((units pre)(k := ?u)) i = total js ((units pre)(k := u)) i + (if axis_steps (st s) i then axis_dir (dir_out (st s)) i else 0)"
      if "i < N_AXIS" for i
      using total_upd [OF k, of "(units pre)(k := u)" ?u i] T(3) [OF that] by simp
    show ?thesis
      using h(11) I(6) so unfolding moved_def
      by (simp add: tot) (simp add: I(1) net_pulses_def axis_move_def)
  qed
  show ?thesis
  proof (cases "step_count (st ?s) = 0")
    case False
    then have "\<not> unat (step_count (st s)) \<le> 1" using c1 by (simp add: unat_eq_zero)
    then have same: "segment_tail ?s = segment_tail s" "segment_head ?s = segment_head s" "segment_buffer ?s = segment_buffer s"
      "st_block_buffer ?s = st_block_buffer s" "st_prep_block ?s = st_prep_block s" "st_is_homing ?s = st_is_homing s"
      "length (position ?s) = N_AXIS" "st_steps (st ?s) = st_steps (st s)" "exec_segment (st ?s) = exec_segment (st s)"
      using I(3) by (simp_all add: I(1))
    have "in_segment True base s0 js ?s"
      unfolding in_segment_def
    proof (intro conjI exI)
      show "memory_ok base js ?s" using h(12) by (simp add: memory_ok_def same)
      show "queued base js pre rest q ?s" using h(3) by (simp add: queued_def same)
      show "ring ?s = sg # q" using h(4) by (simp add: ring_def same)
      show "?u + 2 ^ (MAX_AMASS_LEVEL - l) * unat (step_count (st ?s)) = units pre k" using h(10) c1 by simp
    qed (use h tr mv False same in simp_all)
    then show ?thesis by simp
  next
    case True
    then have c0: "unat (step_count (st s)) = 1" using c1 by simp
    then have tail: "segment_tail ?s = next_segment (segment_tail s)" by (simp add: I(1))
    have same: "segment_head ?s = segment_head s" "segment_buffer ?s = segment_buffer s"
      "st_block_buffer ?s = st_block_buffer s" "st_prep_block ?s = st_prep_block s" "st_is_homing ?s = st_is_homing s"
      "length (position ?s) = N_AXIS" using I(3) by (simp_all add: I(1))
    have m: "segment_tail s < 10" "segment_head s < 10" "length (segment_buffer s) = 10" using h(12) by (simp_all add: memory_ok_def)
    then have "segment_tail s \<noteq> segment_head s" using h(4) by (auto simp: ring_def ring_list_empty_iff)
    then have "ring ?s = q"
      using h(4) ring_list_get [of "segment_tail s" "segment_buffer s" "segment_head s"] m
      by (simp add: ring_def same tail next_segment_mod)
    moreover have "memory_ok base js ?s" using h(12) m by (simp add: memory_ok_def same tail next_segment_less)
    moreover have "queued base js pre rest q ?s" using h(3) by (simp add: queued_def same)
    moreover have u: "?u = units pre k" using h(10) c0 by simp
    moreover have "(units pre)(k := ?u) = units pre" using u by auto
    ultimately have "seg_done True base s0 js ?s"
      unfolding seg_done_def using h(1,2) tr mv True by auto
    then show ?thesis by simp
  qed
qed

subsection \<open>Loading a segment\<close>

lemma slot_less [simp]: "slot base k < 9"
  by (simp add: slot_def)

lemma slot_near:
  assumes "slot base j = slot base k" "j \<le> k" "k < j + 9"
  shows "j = k"
proof -
  have "(base + j) mod 9 = (base + k) mod 9" using assms(1) by (simp add: slot_def)
  then have "9 dvd (base + k) - (base + j)" using mod_eq_dvd_iff_nat [of "base + j" "base + k" 9] assms(2) by simp
  then have "9 dvd k - j" by simp
  then have "k - j = 0" using dvd_imp_le [of 9 "k - j"] assms(2,3) by linarith
  with assms(2) show ?thesis by simp
qed

lemma units_Nil [simp]: "units [] = (\<lambda>_. 0)"
  by (simp add: units_def fun_eq_iff)

lemma units_snoc: "(units (pre @ [(k, n)]))(k := units pre k) = units pre"
  by (simp add: units_def fun_eq_iff)

lemma same_motion_frame:
  assumes "same_motion s s'"
  shows "memory_ok base js s' = memory_ok base js s" "ring s' = ring s" "moved False s0 js U s' = moved False s0 js U s"
    "b < length (st_block_buffer s) \<Longrightarrow> holds (st_block_buffer s' ! b) pb = holds (st_block_buffer s ! b) pb"
proof -
  have m: "map block_core (st_block_buffer s') = map block_core (st_block_buffer s)" using assms by (simp add: same_motion_def)
  then have l: "length (st_block_buffer s') = length (st_block_buffer s)" by (metis length_map)
  show "memory_ok base js s' = memory_ok base js s" "ring s' = ring s" "moved False s0 js U s' = moved False s0 js U s"
    using assms l by (simp_all add: same_motion_def memory_ok_def ring_def moved_def net_pulses_def)
  show "b < length (st_block_buffer s) \<Longrightarrow> holds (st_block_buffer s' ! b) pb = holds (st_block_buffer s ! b) pb"
    using holds_nth [OF m] holds_nth [OF m [symmetric]] l by auto
qed

lemma load_in_segment:
  assumes mem: "memory_ok base js s" and queue: "queued base js pre rest (ring s) s" and ne: "segment_tail s \<noteq> segment_head s"
    and load: "isr_load_segment e s = Some s'" and mv: "moved False s0 js (units pre) s"
    and rest: "pre = [] \<Longrightarrow> exec_block (st s) = None"
    and run: "pre \<noteq> [] \<Longrightarrow> tracing base js (fst (last pre)) (units pre (fst (last pre))) s"
  shows "in_segment False base s0 js s' \<and> exec_segment (st s') \<noteq> None"
proof -
  have m: "segment_tail s < 10" "segment_head s < 10" "length (segment_buffer s) = 10" "length (st_block_buffer s) = 9"
    using mem by (simp_all add: memory_ok_def)
  define sg q where "sg = segment_buffer s ! segment_tail s"
    and "q = ring_list (segment_buffer s) (Suc (segment_tail s) mod 10) (segment_head s)"
  have ring: "ring s = sg # q" using ring_list_get [of "segment_tail s" "segment_buffer s" "segment_head s"] m ne
    by (simp add: ring_def sg_def q_def)
  have Q: "flat_from 0 js = pre @ rest" "list_all2 (seg_ok base) rest (sg # q)"
    "\<And>j. j < length js \<Longrightarrow> j \<in> fst ` set rest \<or> Suc j = length js \<Longrightarrow> holds (st_block_buffer s ! slot base j) (fst (js ! j))"
    using queue by (auto simp: queued_def ring)
  then obtain k n rest' where r: "rest = (k, n) # rest'" "seg_ok base (k, n) sg" "list_all2 (seg_ok base) rest' q"
    by (cases rest) auto
  have k: "k < length js" using flat_from_range [of "(k, n)" 0 js] Q(1) r(1) by simp
  let ?pb = "fst (js ! k)" and ?l = "sg_amass_level sg" and ?pre = "pre @ [(k, n)]" and ?u = "units pre k"
  have ok: "block_ok ?pb" using mem k by (simp add: memory_ok_def)
  have e: "unat (push_bit MAX_AMASS_LEVEL (pb_step_event_count ?pb)) = block_events ?pb" "8 \<le> block_events ?pb"
    using block_ok_steps [OF ok, of 0] by (simp_all add: N_AXIS_def)
  have S: "sg_exec_block sg = slot base k" "?l \<le> MAX_AMASS_LEVEL" "0 < n" "unat (sg_n_step sg) = n * 2 ^ ?l"
    using r(2) by (simp_all add: seg_ok_def)
  have "holds (st_block_buffer s ! slot base k) ?pb" using Q(3) [OF k] r(1) by simp
  note L = isr_load_segment_spec [OF load, folded sg_def, unfolded S(1) m(4), OF slot_less this]
  have same_block: "exec_block (st s) = Some (slot base k) \<longleftrightarrow> pre \<noteq> [] \<and> fst (last pre) = k"
  proof
    assume x: "exec_block (st s) = Some (slot base k)"
    then have p: "pre \<noteq> []" using rest by auto
    have "k = fst (last pre) \<or> k = Suc (fst (last pre))"
      using flat_next [of js pre k n rest'] Q(1) r(1) p mem by (simp add: memory_ok_def)
    moreover have "slot base (fst (last pre)) = slot base k" using tracing_exec [OF run [OF p]] x by simp
    ultimately show "pre \<noteq> [] \<and> fst (last pre) = k" using slot_near p by auto
  next
    assume "pre \<noteq> [] \<and> fst (last pre) = k"
    then show "exec_block (st s) = Some (slot base k)" using tracing_exec [OF run] by auto
  qed
  have tr: "tracing base js k ?u s'"
  proof (cases "exec_block (st s) = Some (slot base k)")
    case True
    with same_block run have "tracing base js k ?u s" by auto
    with L(4,6) True show ?thesis by (simp add: tracing_def Let_def)
  next
    case False
    have u: "?u = 0"
    proof (cases "pre = []")
      case False
      with \<open>exec_block (st s) \<noteq> Some (slot base k)\<close> same_block have "fst (last pre) \<noteq> k" by auto
      then show ?thesis using flat_split_fresh [of js pre k n rest'] Q(1) r(1) False by (simp add: units_def)
    qed simp
    have "unat (drop_bit 1 (push_bit MAX_AMASS_LEVEL (pb_step_event_count ?pb))) = block_events ?pb div 2"
      by (simp add: unat_drop_bit e(1))
    then show ?thesis
      using L(4) L(7) [OF False] k e counter_at_0 [of "block_events ?pb"] by (simp add: tracing_def Let_def u)
  qed
  note F = same_motion_frame [OF L(1)]
  have "in_segment False base s0 js s'"
    unfolding in_segment_def
  proof (intro conjI exI)
    show "memory_ok base js s'" using mem by (simp add: F)
    show "?pre \<noteq> []" "k = fst (last ?pre)" by simp_all
    show "queued base js ?pre rest' q s'"
      using Q(1,3) r by (auto simp: queued_def F(4) m(4))
    show "ring s' = sg # q" by (simp add: F ring)
    show "tracing base js k ?u s'" by (rule tr)
    show "exec_segment (st s') \<noteq> None" by (simp add: L(3))
    have "0 < unat (sg_n_step sg)" using S(3,4) by simp
    then show "step_count (st s') \<noteq> 0" by (metis L(2) less_not_refl unat_0)
    show "?l \<le> MAX_AMASS_LEVEL" by (rule S(2))
    show "st_steps (st s') = map (drop_bit ?l) (map (push_bit MAX_AMASS_LEVEL) (pb_steps ?pb))" by (rule L(5))
    have p: "2 ^ (MAX_AMASS_LEVEL - ?l) * 2 ^ ?l = (8 :: nat)" using S(2) by (simp add: MAX_AMASS_LEVEL_def flip: power_add)
    have "2 ^ (MAX_AMASS_LEVEL - ?l) * (n * 2 ^ ?l) = (2 ^ (MAX_AMASS_LEVEL - ?l) * 2 ^ ?l) * n" by (simp only: ac_simps)
    then show "?u + 2 ^ (MAX_AMASS_LEVEL - ?l) * unat (step_count (st s')) = units ?pre k"
      unfolding L(2) S(4) p by (simp add: units_def)
    show "moved False s0 js ((units ?pre)(k := ?u)) s'" using mv by (simp only: units_snoc F)
  qed
  then show ?thesis using L(3) by simp
qed

section \<open>Runs\<close>

text \<open>
  The foreground starts blocks and queues segments whenever there is room, the interrupt ticks, in any order, until the
  interrupt finds nothing to do. The blocks and the steps of their segments are collected. A run may start with a block
  whose segments were only partly queued in a previous run, as after a feed hold.
\<close>

inductive motion :: "st_env \<Rightarrow> job list \<Rightarrow> smem \<Rightarrow> job list \<Rightarrow> smem \<Rightarrow> bool" for e js0 s0 where
  motion_start: "motion e js0 s0 js0 s0"
| motion_block: "motion e js0 s0 js s \<Longrightarrow> next_segment (segment_head s) \<noteq> segment_tail s \<Longrightarrow> js \<noteq> [] \<longrightarrow> snd (last js) \<noteq> [] \<Longrightarrow>
    block_ok pb \<Longrightarrow> motion e js0 s0 (js @ [(pb, [])]) (prep_new_st_block pb s)"
| motion_segment: "motion e js0 s0 (js @ [(pb, ns)]) s \<Longrightarrow> next_segment (segment_head s) \<noteq> segment_tail s \<Longrightarrow> n \<noteq> 0 \<Longrightarrow>
    unat n < 2 ^ 29 \<Longrightarrow> motion e js0 s0 (js @ [(pb, ns @ [unat n])]) (prep_queue_segment n cycles seg s)"
| motion_wake_up: "motion e js0 s0 js s \<Longrightarrow> exec_block (st s) = None \<Longrightarrow> motion e js0 s0 js (st_wake_up e s)"
| motion_tick: "motion e js0 s0 js s \<Longrightarrow> stepper_driver_interrupt_handler e triggered s = Some s' \<Longrightarrow>
    exec_block (st s') \<noteq> None \<Longrightarrow> motion e js0 s0 js s'"

definition resting :: "job list \<Rightarrow> smem \<Rightarrow> bool" where
  "resting js s \<longleftrightarrow> length (segment_buffer s) = SEGMENT_BUFFER_SIZE \<and> segment_head s < SEGMENT_BUFFER_SIZE \<and>
     segment_tail s = segment_head s \<and> length (st_block_buffer s) = SEGMENT_BUFFER_SIZE - 1 \<and>
     st_prep_block s < SEGMENT_BUFFER_SIZE - 1 \<and> length (position s) = N_AXIS \<and> exec_block (st s) = None \<and>
     exec_segment (st s) = None \<and> \<not> st_is_homing s \<and>
     (js = [] \<or> (\<exists>pb. js = [(pb, [])] \<and> block_ok pb \<and> holds (st_block_buffer s ! st_prep_block s) pb))"

definition run_inv :: "nat \<Rightarrow> smem \<Rightarrow> job list \<Rightarrow> smem \<Rightarrow> bool" where
  "run_inv base s0 js s \<longleftrightarrow> at_rest base s0 js s \<or> seg_done True base s0 js s \<or> in_segment True base s0 js s"

lemma axis_pulses_0: "block_ok pb \<Longrightarrow> i < N_AXIS \<Longrightarrow> axis_pulses pb i 0 = 0"
  using block_ok_steps(4) [of pb i] by (simp add: axis_pulses_def pulses_at_0)

lemma total_0:
  assumes "\<forall>j \<in> set js. block_ok (fst j)" "i < N_AXIS"
  shows "total js (\<lambda>_. 0) i = 0"
  using assms by (simp add: total_def job_move_def axis_pulses_0)

lemma next_st_block_mod: "i < 9 \<Longrightarrow> next_st_block i = Suc i mod 9"
  by (auto simp: next_st_block_def SEGMENT_BUFFER_SIZE_def)

lemma resting_inv:
  assumes "resting js0 s0"
  shows "\<exists>base. run_inv base s0 js0 s0"
proof -
  have r: "ring s0 = []" using assms by (simp add: ring_def resting_def SEGMENT_BUFFER_SIZE_def)
  have p: "st_prep_block s0 < 9" using assms by (simp add: resting_def SEGMENT_BUFFER_SIZE_def)
  have mv: "moved False s0 js0 (\<lambda>_. 0) s0" if "\<forall>j \<in> set js0. block_ok (fst j)" using that by (simp add: moved_def total_0)
  from assms consider "js0 = []" | pb where "js0 = [(pb, [])]" "block_ok pb" "holds (st_block_buffer s0 ! st_prep_block s0) pb"
    by (auto simp: resting_def)
  then show ?thesis
  proof cases
    case 1
    have "at_rest (Suc (st_prep_block s0)) s0 js0 s0"
      using assms 1 p mv by (simp add: at_rest_def memory_ok_def queued_def r resting_def SEGMENT_BUFFER_SIZE_def slot_def next_st_block_mod)
    then show ?thesis by (auto simp: run_inv_def)
  next
    case 2
    have "at_rest (st_prep_block s0) s0 js0 s0"
      using assms 2 p mv by (simp add: at_rest_def memory_ok_def queued_def r resting_def SEGMENT_BUFFER_SIZE_def slot_def next_st_block_mod)
    then show ?thesis by (auto simp: run_inv_def)
  qed
qed

text \<open>A tick that does not end the run.\<close>

lemma run_inv_tick:
  assumes inv: "run_inv base s0 js s" and tick: "stepper_driver_interrupt_handler e triggered s = Some s'" and run: "exec_block (st s') \<noteq> None"
  shows "run_inv base s0 js s'"
proof -
  let ?s = "isr_pulse s"
  have step: "run_inv base s0 js (isr_step (isr_probe triggered x))" if "in_segment False base s0 js x" for x
    using in_segment_step [of base s0 js "isr_probe triggered x"] that by (auto simp: run_inv_def)
  have shut: "exec_block (st s') = None" if "isr_shutdown e ?s = Some s'"
    using that by (auto simp: isr_shutdown_def Let_def upd_st_def split: option.splits)
  consider (rest) "at_rest base s0 js s" | (over) "seg_done True base s0 js s" | (seg) "in_segment True base s0 js s"
    using inv by (auto simp: run_inv_def)
  then show ?thesis
  proof cases
    case seg
    from in_segment_pulse [OF seg] have "in_segment False base s0 js ?s" "exec_segment (st ?s) \<noteq> None" by simp_all
    with tick step show ?thesis by (auto simp: stepper_driver_interrupt_handler_def Let_def)
  next
    case over
    from seg_done_pulse [OF over] obtain pre rest where h: "exec_segment (st ?s) = None" "memory_ok base js ?s" "pre \<noteq> []"
      "queued base js pre rest (ring ?s) ?s" "tracing base js (fst (last pre)) (units pre (fst (last pre))) ?s"
      "moved False s0 js (units pre) ?s" by (auto simp: seg_done_def)
    show ?thesis
    proof (cases "segment_tail ?s = segment_head ?s")
      case True
      with tick h(1) shut run show ?thesis by (simp add: stepper_driver_interrupt_handler_def Let_def)
    next
      case False
      with tick h(1) obtain x where x: "isr_load_segment e ?s = Some x" "s' = isr_step (isr_probe triggered x)"
        by (auto simp: stepper_driver_interrupt_handler_def Let_def split: option.splits)
      from load_in_segment [OF h(2,4) False x(1) h(6)] h(3,5) step x(2) show ?thesis by simp
    qed
  next
    case rest
    then have p: "?s = s" by (simp add: isr_pulse_def at_rest_def)
    have h: "exec_segment (st s) = None" "memory_ok base js s" "queued base js [] (flat_from 0 js) (ring s) s"
      "exec_block (st s) = None" "moved False s0 js (units []) s" using rest by (simp_all add: at_rest_def)
    show ?thesis
    proof (cases "segment_tail s = segment_head s")
      case True
      with tick h(1) shut run p show ?thesis by (simp add: stepper_driver_interrupt_handler_def Let_def)
    next
      case False
      with tick h(1) p obtain x where x: "isr_load_segment e s = Some x" "s' = isr_step (isr_probe triggered x)"
        by (auto simp: stepper_driver_interrupt_handler_def Let_def split: option.splits)
      from load_in_segment [OF h(2,3) False x(1) h(5)] h(4) step x(2) show ?thesis by simp
    qed
  qed
qed

text \<open>A new block is put where no waiting segment points to.\<close>

lemma total_snoc: "total (js @ [(pb, ns)]) U i = total js U i + job_move pb i (U (length js))"
  by (simp add: total_def nth_append)

lemma memory_ok_block:
  assumes "memory_ok base js s" "js \<noteq> [] \<longrightarrow> snd (last js) \<noteq> []" "block_ok pb"
  shows "memory_ok base (js @ [(pb, [])]) (prep_new_st_block pb s)"
proof -
  have s: "next_st_block (slot base (length js)) = slot base (Suc (length js))"
    by (simp add: next_st_block_mod slot_def mod_Suc_eq)
  have "snd ((js @ [(pb, [])]) ! j) \<noteq> []" if "j < length js" for j
  proof (cases "j = length js - 1")
    case True
    then have "js \<noteq> []" "(js @ [(pb, [])]) ! j = js ! (length js - 1)" using that by (auto simp: nth_append)
    then have "js \<noteq> []" "(js @ [(pb, [])]) ! j = last js" using last_conv_nth [of js] by simp_all
    with assms(2) show ?thesis by simp
  next
    case False
    with that assms(1) show ?thesis by (simp add: memory_ok_def nth_append)
  qed
  then show ?thesis
    using assms(1,3) by (auto simp: memory_ok_def prep_new_st_block_def Let_def upd_block_def s)
qed

lemma queued_block:
  assumes mem: "memory_ok base js s" and queue: "queued base js pre rest q s" and len: "length rest \<le> 8"
    and last: "js \<noteq> [] \<longrightarrow> snd (last js) \<noteq> []"
  shows "queued base (js @ [(pb, [])]) pre rest q (prep_new_st_block pb s)"
proof -
  let ?b = "slot base (length js)" and ?s = "prep_new_st_block pb s"
  have b: "next_st_block (st_prep_block s) = ?b" "length (st_block_buffer s) = 9" using mem by (simp_all add: memory_ok_def)
  have new: "holds (st_block_buffer ?s ! ?b) pb"
    by (simp add: prep_new_st_block_def Let_def upd_block_def b holds_def block_core_def)
  have other: "st_block_buffer ?s ! i = st_block_buffer s ! i" if "i \<noteq> ?b" for i
    using that by (simp add: prep_new_st_block_def Let_def upd_block_def b(1))
  have flat: "flat_from 0 (js @ [(pb, [])]) = pre @ rest" using queue by (simp add: queued_def flat_from_append)
  have "holds (st_block_buffer ?s ! slot base j) (fst ((js @ [(pb, [])]) ! j))"
    if j: "j < Suc (length js)" "j \<in> fst ` set rest \<or> j = length js" for j
  proof (cases "j = length js")
    case True
    with new show ?thesis by simp
  next
    case False
    with j have h: "j < length js" "j \<in> fst ` set rest" by simp_all
    have "snd (js ! i) \<noteq> []" if "i < length js" for i
    proof (cases "i < length js - 1")
      case False
      then have "js \<noteq> []" "i = length js - 1" using that by auto
      then show ?thesis using last last_conv_nth [of js] by simp
    qed (use mem in \<open>simp add: memory_ok_def\<close>)
    then have "length js - j \<le> length rest" using flat_split_room [of js pre rest j] queue h by (simp add: queued_def)
    then have "length js < j + 9" using len by linarith
    then have "slot base j \<noteq> ?b" using slot_near [of base j "length js"] h(1) by auto
    then show ?thesis using queue h by (simp add: other queued_def nth_append)
  qed
  then show ?thesis using flat queue by (simp add: queued_def)
qed

lemma tracing_block: "tracing base js k u s \<Longrightarrow> tracing base (js @ [(pb, [])]) k u (prep_new_st_block pb s)"
  by (simp add: tracing_def prep_new_st_block_def Let_def upd_block_def nth_append)

lemma prep_new_st_block_frame [simp]:
  "st (prep_new_st_block pb s) = st s" "ring (prep_new_st_block pb s) = ring s"
  by (simp_all add: prep_new_st_block_def Let_def upd_block_def ring_def)

lemma moved_block:
  assumes "block_ok pb" "U (length js) = 0" "moved p s0 js U s"
  shows "moved p s0 (js @ [(pb, [])]) U (prep_new_st_block pb s)"
  using assms axis_pulses_0 [OF assms(1)]
  by (cases p) (simp_all add: moved_def total_snoc job_move_def, simp_all add: prep_new_st_block_def Let_def upd_block_def net_pulses_def)

lemma units_fresh: "flat_from 0 js = pre @ rest \<Longrightarrow> units pre (length js) = 0"
  using flat_from_range [of _ 0 js] by (force simp: units_def done_steps_def filter_empty_conv)

lemma room_length:
  assumes "memory_ok base js s" "next_segment (segment_head s) \<noteq> segment_tail s"
  shows "length (ring s) \<le> 8"
proof -
  have m: "segment_tail s < 10" "segment_head s < 10" "length (segment_buffer s) = 10" using assms(1) by (simp_all add: memory_ok_def)
  then have "ring_count 10 (segment_tail s) (segment_head s) \<noteq> 9"
    using ring_full_iff [of "segment_tail s" 10 "segment_head s"] assms(2) by (simp add: next_segment_mod)
  with ring_count_less [OF m(1,2)] show ?thesis by (simp add: ring_def m(3))
qed

lemma run_inv_block:
  assumes inv: "run_inv base s0 js s" and room: "next_segment (segment_head s) \<noteq> segment_tail s"
    and last: "js \<noteq> [] \<longrightarrow> snd (last js) \<noteq> []" and ok: "block_ok pb"
  shows "run_inv base s0 (js @ [(pb, [])]) (prep_new_st_block pb s)"
proof -
  let ?js = "js @ [(pb, [])]" and ?s = "prep_new_st_block pb s"
  have mem: "memory_ok base js s" using inv by (auto simp: run_inv_def at_rest_def seg_done_def in_segment_def)
  note mem' = memory_ok_block [OF mem last ok]
  note len = room_length [OF mem room]
  consider (rest) "at_rest base s0 js s" | (over) "seg_done True base s0 js s" | (seg) "in_segment True base s0 js s"
    using inv by (auto simp: run_inv_def)
  then show ?thesis
  proof cases
    case rest
    then have q: "queued base js [] (flat_from 0 js) (ring s) s" by (simp add: at_rest_def)
    then have "length (flat_from 0 js) = length (ring s)" by (auto simp: queued_def dest: list_all2_lengthD)
    then have "queued base ?js [] (flat_from 0 js) (ring s) ?s" using queued_block [OF mem q _ last] len by simp
    moreover have "moved False s0 ?js (\<lambda>_. 0) ?s" using rest by (intro moved_block [OF ok]) (simp_all add: at_rest_def)
    ultimately have "at_rest base s0 ?js ?s" using rest mem' by (simp add: at_rest_def flat_from_append)
    then show ?thesis by (simp add: run_inv_def)
  next
    case over
    then obtain pre rest where h: "pre \<noteq> []" "queued base js pre rest (ring s) s"
      "tracing base js (fst (last pre)) (units pre (fst (last pre))) s" "step_count (st s) = 0" "moved True s0 js (units pre) s"
      by (auto simp: seg_done_def)
    have "length rest = length (ring s)" using h(2) by (auto simp: queued_def dest: list_all2_lengthD)
    then have "queued base ?js pre rest (ring s) ?s" using queued_block [OF mem h(2) _ last] len by simp
    moreover have "moved True s0 ?js (units pre) ?s"
      using h(2,5) by (intro moved_block [OF ok]) (auto simp: queued_def intro: units_fresh)
    ultimately have "seg_done True base s0 ?js ?s"
      unfolding seg_done_def using h(1,4) tracing_block [OF h(3)] mem' by auto
    then show ?thesis by (simp add: run_inv_def)
  next
    case seg
    then obtain pre rest q sg k u l where h: "pre \<noteq> []" "k = fst (last pre)" "queued base js pre rest q s" "ring s = sg # q"
        "tracing base js k u s" "exec_segment (st s) \<noteq> None" "step_count (st s) \<noteq> 0" "l \<le> MAX_AMASS_LEVEL"
        "st_steps (st s) = map (drop_bit l) (map (push_bit MAX_AMASS_LEVEL) (pb_steps (fst (js ! k))))"
        "u + 2 ^ (MAX_AMASS_LEVEL - l) * unat (step_count (st s)) = units pre k"
        "moved True s0 js ((units pre)(k := u)) s"
      unfolding in_segment_def by blast
    have k: "k < length js" using h(5) by (simp add: tracing_def)
    have "length rest = length q" using h(3) by (auto simp: queued_def dest: list_all2_lengthD)
    then have q: "queued base ?js pre rest q ?s" using queued_block [OF mem h(3) _ last] len h(4) by simp
    have mv: "moved True s0 ?js ((units pre)(k := u)) ?s"
      using h(3,11) k by (intro moved_block [OF ok]) (auto simp: queued_def intro: units_fresh)
    have "in_segment True base s0 ?js ?s"
      unfolding in_segment_def
      by (intro conjI exI [of _ pre] exI [of _ rest] exI [of _ q] exI [of _ sg] exI [of _ k] exI [of _ u] exI [of _ l])
        (use h mem' q mv k tracing_block [OF h(5)] in \<open>simp_all add: nth_append\<close>)
    then show ?thesis by (simp add: run_inv_def)
  qed
qed

text \<open>A segment is added to the last block.\<close>

lemma Suc_mod_9: "a < 9 \<Longrightarrow> Suc a mod 9 = Suc b mod 9 \<Longrightarrow> a = b mod 9"
  by (auto simp: mod_Suc split: if_splits)

lemma prep_queue_segment_fields:
  obtains level where "level \<le> MAX_AMASS_LEVEL"
    "prep_queue_segment n cycles seg s = s\<lparr>segment_buffer := (segment_buffer s)[segment_head s :=
         seg\<lparr>sg_exec_block := st_prep_block s, sg_amass_level := level, sg_n_step := push_bit level n,
             sg_cycles_per_tick := drop_bit level cycles\<rparr>], segment_head := next_segment (segment_head s)\<rparr>"
  by (rule that [of "if cycles < amass_level_1 s then 0
        else if cycles < amass_level_2 s then 1 else if cycles < amass_level_3 s then 2 else 3"])
    (simp_all only: prep_queue_segment_def Let_def MAX_AMASS_LEVEL_def split: if_split, simp_all)

lemma same_blocks:
  "fst ((js @ [(pb, ns')]) ! j) = fst ((js @ [(pb, ns)]) ! j)" "total (js @ [(pb, ns')]) = total (js @ [(pb, ns)])"
proof -
  show f: "fst ((js @ [(pb, ns')]) ! j) = fst ((js @ [(pb, ns)]) ! j)" for j by (simp add: nth_append nth_Cons')
  show "total (js @ [(pb, ns')]) = total (js @ [(pb, ns)])" by (simp add: fun_eq_iff total_def f)
qed

lemma unat_push_bit_level:
  assumes "unat (n :: u32) < 2 ^ 29" "l \<le> MAX_AMASS_LEVEL"
  shows "unat (push_bit l n) = unat n * 2 ^ l"
proof -
  have "(2 :: nat) ^ l \<le> 2 ^ 3" using assms(2) by (intro power_increasing) (simp_all add: MAX_AMASS_LEVEL_def)
  then have "unat n * 2 ^ l \<le> unat n * 8" by (simp add: mult_le_mono2)
  also have "unat n * 8 < 2 ^ 32" using assms(1) by simp
  finally have "unat n * 2 ^ l < 2 ^ 32" .
  moreover have "unat (push_bit l n) = take_bit 32 (push_bit l (unat n))" by (simp add: unsigned_push_bit_eq)
  ultimately show ?thesis by (simp add: push_bit_eq_mult take_bit_nat_eq_self)
qed

lemma run_inv_segment:
  assumes inv: "run_inv base s0 (js @ [(pb, ns)]) s" and room: "next_segment (segment_head s) \<noteq> segment_tail s"
    and n: "n \<noteq> 0" "unat n < 2 ^ 29"
  shows "run_inv base s0 (js @ [(pb, ns @ [unat n])]) (prep_queue_segment n cycles seg s)"
proof -
  let ?js = "js @ [(pb, ns)]" and ?js' = "js @ [(pb, ns @ [unat n])]" and ?s = "prep_queue_segment n cycles seg s"
    and ?x = "(length js, unat n)"
  obtain level where level: "level \<le> MAX_AMASS_LEVEL" and
    S: "?s = s\<lparr>segment_buffer := (segment_buffer s)[segment_head s :=
         seg\<lparr>sg_exec_block := st_prep_block s, sg_amass_level := level, sg_n_step := push_bit level n,
             sg_cycles_per_tick := drop_bit level cycles\<rparr>], segment_head := next_segment (segment_head s)\<rparr>"
    by (rule prep_queue_segment_fields)
  define sg1 where "sg1 = seg\<lparr>sg_exec_block := st_prep_block s, sg_amass_level := level, sg_n_step := push_bit level n,
             sg_cycles_per_tick := drop_bit level cycles\<rparr>"
  have mem: "memory_ok base ?js s" using inv by (auto simp: run_inv_def at_rest_def seg_done_def in_segment_def)
  then have m: "segment_tail s < 10" "segment_head s < 10" "length (segment_buffer s) = 10" "st_prep_block s < 9"
    "next_st_block (st_prep_block s) = slot base (Suc (length js))" by (simp_all add: memory_ok_def)
  have prep: "st_prep_block s = slot base (length js)"
  proof -
    have "Suc (st_prep_block s) mod 9 = Suc (base + length js) mod 9" using m(4,5) by (simp add: next_st_block_mod slot_def)
    then have "st_prep_block s = (base + length js) mod 9" by (rule Suc_mod_9 [OF m(4)])
    then show ?thesis by (simp add: slot_def)
  qed
  have sg1: "seg_ok base ?x sg1"
    using level n by (simp add: seg_ok_def sg1_def prep unat_push_bit_level unat_gt_0)
  have ring: "ring ?s = ring s @ [sg1]"
    using ring_list_put [of "segment_tail s" "segment_buffer s" "segment_head s" sg1] m room
    by (simp add: S ring_def next_segment_mod flip: sg1_def)
  have flat: "flat_from 0 ?js' = flat_from 0 ?js @ [?x]" by (simp add: flat_from_append)
  have mem': "memory_ok base ?js' ?s" using mem by (auto simp: memory_ok_def S next_segment_less nth_append)
  have queue: "queued base ?js' pre (rest @ [?x]) (q @ [sg1]) ?s" if "queued base ?js pre rest q s" for pre rest q
    using that sg1 by (auto simp: queued_def flat same_blocks(1) [of js pb "ns @ [unat n]" _ ns] S list_all2_appendI)
  have trace: "tracing base ?js' k u ?s" if "tracing base ?js k u s" for k u
    using that by (simp add: tracing_def S same_blocks(1) [of js pb "ns @ [unat n]" _ ns])
  have move: "moved p s0 ?js' U ?s" if "moved p s0 ?js U s" for p U
    using that by (cases p) (simp_all add: moved_def S net_pulses_def same_blocks(2) [of js pb "ns @ [unat n]" ns])
  have st: "st ?s = st s" by (simp add: S)
  consider (rest) "at_rest base s0 ?js s" | (over) "seg_done True base s0 ?js s" | (seg) "in_segment True base s0 ?js s"
    using inv by (auto simp: run_inv_def)
  then show ?thesis
  proof cases
    case rest
    then have "at_rest base s0 ?js' ?s" using mem' queue move by (simp add: at_rest_def flat ring st)
    then show ?thesis by (simp add: run_inv_def)
  next
    case over
    then obtain pre rest where h: "pre \<noteq> []" "queued base ?js pre rest (ring s) s"
      "tracing base ?js (fst (last pre)) (units pre (fst (last pre))) s" "step_count (st s) = 0" "moved True s0 ?js (units pre) s"
      by (auto simp: seg_done_def)
    then have "seg_done True base s0 ?js' ?s"
      unfolding seg_done_def using mem' queue [OF h(2)] trace [OF h(3)] move [OF h(5)] by (auto simp: ring st)
    then show ?thesis by (simp add: run_inv_def)
  next
    case seg
    then obtain pre rest q sg k u l where h: "pre \<noteq> []" "k = fst (last pre)" "queued base ?js pre rest q s" "ring s = sg # q"
        "tracing base ?js k u s" "exec_segment (st s) \<noteq> None" "step_count (st s) \<noteq> 0" "l \<le> MAX_AMASS_LEVEL"
        "st_steps (st s) = map (drop_bit l) (map (push_bit MAX_AMASS_LEVEL) (pb_steps (fst (?js ! k))))"
        "u + 2 ^ (MAX_AMASS_LEVEL - l) * unat (step_count (st s)) = units pre k"
        "moved True s0 ?js ((units pre)(k := u)) s"
      unfolding in_segment_def by blast
    have "in_segment True base s0 ?js' ?s"
      unfolding in_segment_def
      by (intro conjI exI [of _ pre] exI [of _ "rest @ [?x]"] exI [of _ "q @ [sg1]"] exI [of _ sg] exI [of _ k] exI [of _ u] exI [of _ l])
        (use h mem' queue [OF h(3)] trace [OF h(5)] move [OF h(11)] in
          \<open>simp_all add: ring st same_blocks(1) [of js pb "ns @ [unat n]" _ ns]\<close>)
    then show ?thesis by (simp add: run_inv_def)
  qed
qed

lemma run_inv_wake_up:
  assumes "run_inv base s0 js s" "exec_block (st s) = None"
  shows "run_inv base s0 js (st_wake_up e s)"
proof -
  have "at_rest base s0 js s" using assms by (auto simp: run_inv_def seg_done_def in_segment_def tracing_def Let_def)
  then have "at_rest base s0 js (st_wake_up e s)"
    by (simp add: at_rest_def memory_ok_def queued_def ring_def moved_def net_pulses_def st_wake_up_def Let_def upd_st_def st_emit_def)
  then show ?thesis by (simp add: run_inv_def)
qed

lemma motion_inv:
  assumes "motion e js0 s0 js s" "run_inv base s0 js0 s0"
  shows "run_inv base s0 js s"
  using assms
proof (induction rule: motion.induct)
  case (motion_block js s pb)
  show ?case by (rule run_inv_block [OF motion_block.IH [OF motion_block.prems] motion_block.hyps(2-4)])
next
  case (motion_segment js pb ns s n cycles seg)
  show ?case by (rule run_inv_segment [OF motion_segment.IH [OF motion_segment.prems] motion_segment.hyps(2-4)])
next
  case (motion_wake_up js s)
  show ?case by (rule run_inv_wake_up [OF motion_wake_up.IH [OF motion_wake_up.prems] motion_wake_up.hyps(2)])
next
  case (motion_tick js s triggered s')
  show ?case by (rule run_inv_tick [OF motion_tick.IH [OF motion_tick.prems] motion_tick.hyps(2,3)])
qed simp

text \<open>The end of a run.\<close>

lemma isr_shutdown_spec:
  assumes "isr_shutdown e s = Some s'"
  shows "position s' = position s" "net_pulses i s' = net_pulses i s" "exec_block (st s') = None" "exec_block (st s) \<noteq> None"
  using assms
  by (auto simp: isr_shutdown_def st_go_idle_def Let_def upd_st_def upd_prep_def st_emit_def net_pulses_def
      split: option.splits if_splits)

lemma isr_step_exec [simp]: "exec_block (st (isr_step s)) = exec_block (st s)"
proof -
  have a: "exec_block (st (step_axis i s)) = exec_block (st s)" for i s
    by (simp add: step_axis_def Let_def upd_st_def)
  show ?thesis by (simp add: isr_step_def Let_def upd_st_def a)
qed

lemma run_end:
  assumes inv: "run_inv base s0 js s" and tick: "stepper_driver_interrupt_handler e triggered s = Some s'"
    and stop: "exec_block (st s') = None"
  shows "moved False s0 js (\<lambda>j. 8 * done_steps j (flat_from 0 js)) s'"
proof -
  let ?s = "isr_pulse s"
  consider (rest) "at_rest base s0 js s" | (over) "seg_done True base s0 js s" | (seg) "in_segment True base s0 js s"
    using inv by (auto simp: run_inv_def)
  then show ?thesis
  proof cases
    case seg
    from in_segment_pulse [OF seg] have "in_segment False base s0 js ?s" "exec_segment (st ?s) \<noteq> None" by simp_all
    moreover from this have "exec_block (st ?s) \<noteq> None" by (auto simp: in_segment_def tracing_def Let_def)
    ultimately show ?thesis using tick stop by (auto simp: stepper_driver_interrupt_handler_def Let_def)
  next
    case over
    from seg_done_pulse [OF over] obtain pre rest where h: "exec_segment (st ?s) = None" "memory_ok base js ?s" "pre \<noteq> []"
      "queued base js pre rest (ring ?s) ?s" "tracing base js (fst (last pre)) (units pre (fst (last pre))) ?s"
      "moved False s0 js (units pre) ?s" by (auto simp: seg_done_def)
    show ?thesis
    proof (cases "segment_tail ?s = segment_head ?s")
      case True
      with tick h(1) have "isr_shutdown e ?s = Some s'" by (simp add: stepper_driver_interrupt_handler_def Let_def)
      note E = isr_shutdown_spec [OF this]
      have "ring ?s = []" using True h(2) by (simp add: ring_def memory_ok_def ring_list_empty_iff)
      then have "pre = flat_from 0 js" using h(4) by (simp add: queued_def)
      then have "units pre = (\<lambda>j. 8 * done_steps j (flat_from 0 js))" by (simp add: units_def fun_eq_iff)
      then show ?thesis using h(6) by (simp add: moved_def E)
    next
      case False
      with tick h(1) obtain x where x: "isr_load_segment e ?s = Some x" "s' = isr_step (isr_probe triggered x)"
        by (auto simp: stepper_driver_interrupt_handler_def Let_def split: option.splits)
      have "in_segment False base s0 js x" using load_in_segment [OF h(2,4) False x(1) h(6)] h(3,5) by simp
      then have "exec_block (st x) \<noteq> None" by (auto simp: in_segment_def tracing_def Let_def)
      with x(2) stop show ?thesis by simp
    qed
  next
    case rest
    then have p: "?s = s" by (simp add: isr_pulse_def at_rest_def)
    have h: "exec_segment (st s) = None" "memory_ok base js s" "queued base js [] (flat_from 0 js) (ring s) s"
      "exec_block (st s) = None" "moved False s0 js (units []) s" using rest by (simp_all add: at_rest_def)
    show ?thesis
    proof (cases "segment_tail s = segment_head s")
      case True
      with tick h(1) p have "isr_shutdown e s = Some s'" by (simp add: stepper_driver_interrupt_handler_def Let_def)
      from isr_shutdown_spec(4) [OF this] h(4) show ?thesis by simp
    next
      case False
      with tick h(1) p obtain x where x: "isr_load_segment e s = Some x" "s' = isr_step (isr_probe triggered x)"
        by (auto simp: stepper_driver_interrupt_handler_def Let_def split: option.splits)
      have "in_segment False base s0 js x" using load_in_segment [OF h(2,3) False x(1) h(5)] h(4) by simp
      then have "exec_block (st x) \<noteq> None" by (auto simp: in_segment_def tracing_def Let_def)
      with x(2) stop show ?thesis by simp
    qed
  qed
qed

lemma motion_end:
  assumes "resting js0 s0" "motion e js0 s0 js s" "stepper_driver_interrupt_handler e triggered s = Some s'"
    "exec_block (st s') = None" "i < N_AXIS"
  shows "position s' ! i = position s0 ! i + of_int (\<Sum>j<length js. job_move (fst (js ! j)) i (8 * sum_list (snd (js ! j))))"
    "net_pulses i s' = net_pulses i s0 + (\<Sum>j<length js. job_move (fst (js ! j)) i (8 * sum_list (snd (js ! j))))"
proof -
  obtain base where "run_inv base s0 js0 s0" using resting_inv [OF assms(1)] by blast
  from motion_inv [OF assms(2) this] have "run_inv base s0 js s" .
  from run_end [OF this assms(3,4)] have m: "moved False s0 js (\<lambda>j. 8 * done_steps j (flat_from 0 js)) s'" .
  have "total js (\<lambda>j. 8 * done_steps j (flat_from 0 js)) i = (\<Sum>j<length js. job_move (fst (js ! j)) i (8 * sum_list (snd (js ! j))))"
    unfolding total_def using done_steps_flat [of _ js 0] by (intro sum.cong) simp_all
  with m assms(5) show
    "position s' ! i = position s0 ! i + of_int (\<Sum>j<length js. job_move (fst (js ! j)) i (8 * sum_list (snd (js ! j))))"
    "net_pulses i s' = net_pulses i s0 + (\<Sum>j<length js. job_move (fst (js ! j)) i (8 * sum_list (snd (js ! j))))"
    by (simp_all add: moved_def)
qed

text \<open>A block all of whose steps were queued.\<close>

lemma job_move_complete:
  assumes "block_ok pb" "i < N_AXIS" "m = unat (pb_step_event_count pb)"
  shows "job_move pb i (8 * m) = axis_dir (pb_direction pb) i * int (unat (pb_steps pb ! i))"
proof -
  have e: "unat (pb_steps pb ! i) * (8 * m) = block_events pb * unat (pb_steps pb ! i)" by (simp add: assms(3) block_events_def)
  have "2 \<le> block_events pb" using block_ok_steps(4) [OF assms(1,2)] by simp
  then show ?thesis unfolding job_move_def axis_pulses_def e by (simp only: pulses_at_complete)
qed

section \<open>Exactness\<close>

lemma job_sum_complete:
  assumes "\<forall>(pb, ns) \<in> set js. block_ok pb \<and> sum_list ns = unat (pb_step_event_count pb)" "i < N_AXIS"
  shows "(\<Sum>j<length js. job_move (fst (js ! j)) i (8 * sum_list (snd (js ! j)))) =
    (\<Sum>(pb, ns)\<leftarrow>js. axis_dir (pb_direction pb) i * int (unat (pb_steps pb ! i)))"
proof -
  have "job_move (fst (js ! j)) i (8 * sum_list (snd (js ! j))) =
      (case js ! j of (pb, ns) \<Rightarrow> axis_dir (pb_direction pb) i * int (unat (pb_steps pb ! i)))" if "j < length js" for j
  proof -
    have "js ! j \<in> set js" using that by simp
    with assms(1) have "block_ok (fst (js ! j))" "sum_list (snd (js ! j)) = unat (pb_step_event_count (fst (js ! j)))" by auto
    from job_move_complete [OF this(1) assms(2) this(2)] show ?thesis by (simp add: case_prod_beta)
  qed
  then show ?thesis by (simp add: sum_list_sum_nth atLeast0LessThan cong: sum.cong_simp)
qed

lemma motion_blocks_ok:
  assumes "resting js0 s0" "motion e js0 s0 js s"
  shows "\<forall>j \<in> set js. block_ok (fst j)"
  using assms(2)
proof (induction rule: motion.induct)
  case motion_start
  then show ?case using assms(1) by (auto simp: resting_def)
qed auto

lemma run_exact:
  assumes rest: "resting [] s0" and run: "motion e [] s0 js s" and last: "stepper_driver_interrupt_handler e triggered s = Some s'"
    "exec_block (st s') = None" and complete: "\<forall>(pb, ns) \<in> set js. sum_list ns = unat (pb_step_event_count pb)" and i: "i < N_AXIS"
  shows "position s' ! i = position s0 ! i + of_int (\<Sum>(pb, ns)\<leftarrow>js. axis_dir (pb_direction pb) i * int (unat (pb_steps pb ! i))) \<and>
    net_pulses i s' = net_pulses i s0 + (\<Sum>(pb, ns)\<leftarrow>js. axis_dir (pb_direction pb) i * int (unat (pb_steps pb ! i)))"
proof -
  have "\<forall>(pb, ns) \<in> set js. block_ok pb \<and> sum_list ns = unat (pb_step_event_count pb)"
    using motion_blocks_ok [OF rest run] complete by auto
  then show ?thesis using motion_end [OF rest run last i] by (simp only: job_sum_complete [OF _ i] simp_thms)
qed

text \<open>During a run.\<close>

lemma run_inv_moved:
  assumes "run_inv base s0 js s"
  obtains U p where "moved p s0 js U s" "\<forall>j < length js. U j \<le> 8 * sum_list (snd (js ! j))"
proof -
  have le: "units pre j \<le> 8 * sum_list (snd (js ! j))" if "flat_from 0 js = pre @ rest" "j < length js" for pre rest j
    using done_steps_flat [OF that(2), of 0] that(1) by (simp add: units_def flip: sum_list.Cons) 
  consider (rest) "at_rest base s0 js s" | (over) "seg_done True base s0 js s" | (seg) "in_segment True base s0 js s"
    using assms by (auto simp: run_inv_def)
  then show ?thesis
  proof cases
    case rest
    then have "moved False s0 js (\<lambda>_. 0) s" by (simp add: at_rest_def)
    then show ?thesis by (rule that) simp
  next
    case over
    then obtain pre rest where "moved True s0 js (units pre) s" "flat_from 0 js = pre @ rest" by (auto simp: seg_done_def queued_def)
    then show ?thesis using le by (intro that) auto
  next
    case seg
    then obtain pre rest k u where h: "moved True s0 js ((units pre)(k := u)) s" "flat_from 0 js = pre @ rest" "u \<le> units pre k" "k < length js"
      unfolding in_segment_def queued_def tracing_def by (metis le_add1)
    have "((units pre)(k := u)) j \<le> 8 * sum_list (snd (js ! j))" if "j < length js" for j
      using le [OF h(2) that] h(3) by auto
    then show ?thesis using h(1) by (intro that) auto
  qed
qed

text \<open>A block for the examples: only its steps matter.\<close>

definition line_block :: "u32 list \<Rightarrow> u32 \<Rightarrow> plan_block" where
  "line_block ss n = \<lparr>pb_steps = ss, pb_step_event_count = n, pb_direction = 2, pb_offset_id = 0, pb_overrides = 0,
     pb_condition = \<lparr>rapid_motion = False, system_motion = False, jog_motion = False, backlash_motion = False,
       no_feed_override = False, inverse_time = False, units_per_rev = False, is_rpm_rate_adjusted = False,
       is_laser_ppi_mode = False, cond_coolant = 0\<rparr>, pb_line_number = 0, pb_target_mm = replicate N_AXIS 0,
     entry_speed_sqr = 0, max_entry_speed_sqr = 0, acceleration = 0, millimeters = 0, max_junction_speed_sqr = 0,
     rapid_rate = 0, programmed_rate = 0, pb_spindle = \<lparr>ps_state = 0, ps_css = False, ps_rpm = 0, ps_hal = 0\<rparr>,
     pb_message = None, pb_output_commands = None\<rparr>"

definition line_env :: st_env where
  "line_env = \<lparr>se_state = STATE_CYCLE, se_idle_lock_time = 25, se_energize = 0, se_enable_delay = 0, se_enable_invert = 0,
     se_task_added = True, se_laser = (\<lambda>_. False), se_probe_configure = False, se_f_step_timer = 8000\<rparr>"

text \<open>One segment of one step: a tick and the shutdown.\<close>

definition line_run :: "(smem \<Rightarrow> smem) \<Rightarrow> smem \<Rightarrow> smem" where
  "line_run prepare s = st_wake_up line_env (prep_queue_segment 1 0 zero_segment (prepare s))"

lemma run_output_commands_None: "run_output_commands None s = Some s"
  by (simp add: run_output_commands.simps)

lemmas line_defs = line_run_def line_block_def line_env_def prep_queue_segment_def prep_new_st_block_def upd_block_def
  st_wake_up_def zero_smem_def zero_stepper_def zero_segment_def zero_st_block_def st_reset_def st_go_idle_def upd_st_def st_emit_def
  next_segment_def next_st_block_def SEGMENT_BUFFER_SIZE_def MAX_AMASS_LEVEL_def N_AXIS_def
  stepper_driver_interrupt_handler_def isr_pulse_def isr_load_segment_def isr_new_block_def run_output_commands_None
  isr_step_def isr_probe_def step_axis_def isr_shutdown_def Let_def state_defs


subsection \<open>Interrupted blocks\<close>

lemma split_pulses:
  assumes ok: "block_ok pb" and i: "i < N_AXIS" and m: "m1 + m2 = unat (pb_step_event_count pb)"
  defines "n \<equiv> unat (pb_steps pb ! i)" and "e \<equiv> unat (pb_step_event_count pb)"
  shows "axis_pulses pb i (8 * m1) + axis_pulses pb i (8 * m2) + (if (2 * n * m1) mod (2 * e) = e then 1 else 0) = n"
proof -
  define p1 p2 where "p1 = axis_pulses pb i (8 * m1)" and "p2 = axis_pulses pb i (8 * m2)"
  have e0: "0 < e" using ok by (simp add: block_ok_def e_def)
  have E: "block_events pb = 8 * e" by (simp add: block_events_def e_def)
  have "2 \<le> block_events pb" using block_ok_steps(4) [OF ok i] by simp
  then obtain c1 c2 where "counter_at (8 * e) (n * (8 * m1)) c1" "counter_at (8 * e) (n * (8 * m2)) c2"
    using counter_at_iff E by metis
  then have c: "0 < c1" "c1 \<le> 8 * e" "0 < c2" "c2 \<le> 8 * e" "c1 + 8 * e * p1 = 4 * e + 8 * (n * m1)" "c2 + 8 * e * p2 = 4 * e + 8 * (n * m2)"
    by (simp_all add: counter_at_def p1_def p2_def axis_pulses_def E n_def)
  have nm: "n * m1 + n * m2 = n * e" using m by (metis add_mult_distrib2 e_def)
  have sum: "c1 + c2 + 8 * e * (p1 + p2) = 8 * e * (n + 1)"
  proof -
    have "8 * e * (p1 + p2) = 8 * e * p1 + 8 * e * p2" "8 * e * (n + 1) = 8 * e + 8 * (n * e)" by (simp_all add: algebra_simps)
    then show ?thesis using c(5,6) nm by linarith
  qed
  have mul: "c = 8 * e" if "0 < c" "c \<le> 8 * e" "c + 8 * e * a = 8 * e * b" for a b c
  proof -
    have "8 * e dvd c" using that(3) by (metis dvd_add_left_iff dvd_triv_left)
    then show ?thesis using that(1,2) by (simp add: dvd_imp_le le_antisym)
  qed
  show ?thesis
  proof (cases "(2 * n * m1) mod (2 * e) = e")
    case True
    then obtain q where q: "2 * n * m1 = 2 * e * q + e" by (metis mult_div_mod_eq)
    then have "c1 + 8 * e * p1 = 8 * e * (q + 1)" using c(5) by (simp add: algebra_simps)
    then have c1: "c1 = 8 * e" using mul [OF c(1,2)] by blast
    then have "c2 + 8 * e * (p1 + p2) = 8 * e * n" using sum by (simp add: algebra_simps)
    then have "8 * e + 8 * e * (p1 + p2) = 8 * e * n" using mul [OF c(3,4)] by metis
    then have "8 * e * (p1 + p2 + 1) = 8 * e * n" by (simp only: distrib_left mult_1_right add.commute)
    moreover have "8 * e \<noteq> 0" using e0 by simp
    ultimately have "p1 + p2 + 1 = n" using mult_left_cancel by blast
    then show ?thesis using True by (simp add: p1_def p2_def)
  next
    case False
    have "c1 \<noteq> 8 * e"
    proof
      assume "c1 = 8 * e"
      then have "2 * n * m1 = 2 * e * p1 + e" using c(5) by simp
      then have "(2 * n * m1) mod (2 * e) = e" using e0 by simp
      with False show False by simp
    qed
    then have lt: "c1 + c2 < 8 * e * 2" using c(2,4) by linarith
    have le: "p1 + p2 \<le> n"
    proof (rule ccontr)
      assume "\<not> p1 + p2 \<le> n"
      then have "8 * e * (n + 1) \<le> 8 * e * (p1 + p2)" by (intro mult_le_mono2) simp
      then show False using sum c(1) by linarith
    qed
    have ge: "n \<le> p1 + p2"
    proof (rule ccontr)
      assume "\<not> n \<le> p1 + p2"
      then have "8 * e * (p1 + p2 + 2) \<le> 8 * e * (n + 1)" by (intro mult_le_mono2) simp
      moreover have "8 * e * (p1 + p2 + 2) = 8 * e * (p1 + p2) + 8 * e * 2" by (simp only: distrib_left)
      ultimately show False using sum lt by linarith
    qed
    from le ge False show ?thesis by (simp add: p1_def p2_def)
  qed
qed

lemma hold_steps:
  assumes rest1: "resting [] s0" and run1: "motion e [] s0 [(pb, ns1)] s1" and last1: "stepper_driver_interrupt_handler e t1 s1 = Some s2"
    "exec_block (st s2) = None" and rest2: "resting [(pb, [])] s2" and run2: "motion e [(pb, [])] s2 [(pb, ns2)] s3"
    and last2: "stepper_driver_interrupt_handler e t2 s3 = Some s4" "exec_block (st s4) = None"
    and complete: "sum_list ns1 + sum_list ns2 = unat (pb_step_event_count pb)" and i: "i < N_AXIS"
  shows "position s4 ! i = position s0 ! i + of_int (axis_dir (pb_direction pb) i * (int (unat (pb_steps pb ! i)) -
    (if (2 * unat (pb_steps pb ! i) * sum_list ns1) mod (2 * unat (pb_step_event_count pb)) = unat (pb_step_event_count pb) then 1 else 0)))"
proof -
  let ?n = "unat (pb_steps pb ! i)" and ?d = "axis_dir (pb_direction pb) i"
    and ?h = "if (2 * unat (pb_steps pb ! i) * sum_list ns1) mod (2 * unat (pb_step_event_count pb)) = unat (pb_step_event_count pb) then 1 else (0 :: nat)"
  have ok: "block_ok pb" using motion_blocks_ok [OF rest1 run1] by simp
  have "position s4 ! i = position s0 ! i + of_int (job_move pb i (8 * sum_list ns1)) + of_int (job_move pb i (8 * sum_list ns2))"
    using motion_end(1) [OF rest1 run1 last1 i] motion_end(1) [OF rest2 run2 last2 i] by simp
  moreover have "job_move pb i (8 * sum_list ns1) + job_move pb i (8 * sum_list ns2) = ?d * (int ?n - int ?h)"
  proof -
    have "int (axis_pulses pb i (8 * sum_list ns1)) + int (axis_pulses pb i (8 * sum_list ns2)) = int ?n - int ?h"
      using split_pulses [OF ok i complete] by linarith
    then show ?thesis by (simp only: job_move_def flip: distrib_left)
  qed
  ultimately show ?thesis by (simp only: add.assoc flip: of_int_add) simp
qed

lemma all_axes: "(\<forall>i < N_AXIS. P i) \<longleftrightarrow> P 0 \<and> P 1 \<and> P 2 \<and> P 3"
proof -
  have "i < N_AXIS \<longleftrightarrow> i = 0 \<or> i = 1 \<or> i = 2 \<or> i = 3" for i by (auto simp: N_AXIS_def)
  then show ?thesis by auto
qed

text \<open>The examples: a block is started, a segment of one step event queued and executed in one tick.\<close>

definition line_tick :: "smem \<Rightarrow> smem" where
  "line_tick s = the (stepper_driver_interrupt_handler line_env False s)"

definition line_ready :: "smem \<Rightarrow> bool" where
  "line_ready s \<longleftrightarrow> next_segment (segment_head s) \<noteq> segment_tail s \<and> exec_block (st s) = None"

definition line_ticks :: "smem \<Rightarrow> bool" where
  "line_ticks s \<longleftrightarrow> \<not> Option.is_none (stepper_driver_interrupt_handler line_env False s) \<and> exec_block (st (line_tick s)) \<noteq> None"

definition line_stops :: "smem \<Rightarrow> bool" where
  "line_stops s \<longleftrightarrow> \<not> Option.is_none (stepper_driver_interrupt_handler line_env False s) \<and> exec_block (st (line_tick s)) = None"

definition line_holds :: "plan_block \<Rightarrow> smem \<Rightarrow> bool" where
  "line_holds pb s \<longleftrightarrow> length (segment_buffer s) = SEGMENT_BUFFER_SIZE \<and> segment_head s < SEGMENT_BUFFER_SIZE \<and>
     segment_tail s = segment_head s \<and> length (st_block_buffer s) = SEGMENT_BUFFER_SIZE - 1 \<and>
     st_prep_block s < SEGMENT_BUFFER_SIZE - 1 \<and> length (position s) = N_AXIS \<and> exec_block (st s) = None \<and>
     exec_segment (st s) = None \<and> \<not> st_is_homing s \<and> holds (st_block_buffer s ! st_prep_block s) pb"

definition line_mem :: smem where
  "line_mem = zero_smem\<lparr>amass_level_1 := 10, amass_level_2 := 20, amass_level_3 := 40\<rparr>"

lemma line_start: "resting [] line_mem"
  by (simp add: resting_def line_mem_def zero_smem_def zero_stepper_def SEGMENT_BUFFER_SIZE_def)

lemma line_segment:
  assumes "motion line_env js0 s0 [(pb, [])] s" "line_ready s" "line_ticks (line_run id s)"
  shows "motion line_env js0 s0 [(pb, [1])] (line_tick (line_run id s))"
proof -
  let ?q = "prep_queue_segment 1 0 zero_segment s"
  have "motion line_env js0 s0 ([] @ [(pb, [] @ [unat (1 :: u32)])]) ?q"
    using assms(1,2) by (intro motion_segment) (simp_all add: line_ready_def)
  then have "motion line_env js0 s0 [(pb, [1])] ?q" by simp
  moreover have "exec_block (st ?q) = None" using assms(2) by (simp add: line_ready_def prep_queue_segment_def Let_def)
  ultimately have "motion line_env js0 s0 [(pb, [1])] (line_run id s)" by (simp add: line_run_def motion_wake_up)
  moreover have "stepper_driver_interrupt_handler line_env False (line_run id s) = Some (line_tick (line_run id s))"
    using assms(3) by (auto simp: line_ticks_def line_tick_def Option.is_none_def)
  moreover have "exec_block (st (line_tick (line_run id s))) \<noteq> None" using assms(3) by (simp add: line_ticks_def)
  ultimately show ?thesis by (rule motion_tick)
qed

lemma line_stops_eq:
  "line_stops s \<Longrightarrow> stepper_driver_interrupt_handler line_env False s = Some (line_tick s) \<and> exec_block (st (line_tick s)) = None"
  by (auto simp: line_stops_def line_tick_def Option.is_none_def)

lemma line_block_start:
  assumes "block_ok pb" "line_ready line_mem"
  shows "motion line_env [] line_mem [(pb, [])] (prep_new_st_block pb line_mem)"
  using motion_block [OF motion_start, where js = "[]" and s = line_mem and e = line_env and pb = pb] assms by (simp add: line_ready_def)

section \<open>Properties of the interrupt\<close>

text \<open>
  C1. Every axis makes exactly the steps of the blocks, in their directions, whatever lengths and levels of step smoothing
  the segments have and however the foreground and the interrupt interleave, as long as the segments of a block have
  all its steps and the interrupt does not run out of segments before the end: position and pulses change
  by the sum of the steps of the blocks. In particular no block is overwritten while a segment of it waits.
\<close>

theorem steps_exact:
  assumes "resting [] s0" "motion e [] s0 js s" "stepper_driver_interrupt_handler e triggered s = Some s'"
    "exec_block (st s') = None" "\<forall>(pb, ns) \<in> set js. sum_list ns = unat (pb_step_event_count pb)" "i < N_AXIS"
  shows "position s' ! i = position s0 ! i + of_int (\<Sum>(pb, ns)\<leftarrow>js. axis_dir (pb_direction pb) i * int (unat (pb_steps pb ! i))) \<and>
    net_pulses i s' = net_pulses i s0 + (\<Sum>(pb, ns)\<leftarrow>js. axis_dir (pb_direction pb) i * int (unat (pb_steps pb ! i)))"
  using assms by (rule run_exact)

theorem steps_exact_witness:
  "\<exists>s s'. stepper_driver_interrupt_handler line_env False s = Some s' \<and> exec_block (st s') = None \<and> position s' ! 1 = -1"
proof -
  let ?pb = "line_block [1, 1, 0, 0] 1" and ?s0 = "line_mem"
  let ?s1 = "prep_new_st_block ?pb ?s0"
  let ?s2 = "line_tick (line_run id ?s1)"
  have ok: "block_ok ?pb" unfolding block_ok_def all_axes by (simp add: line_block_def N_AXIS_def)
  have x: "line_ready ?s0 \<and> position ?s0 ! 1 = 0 \<and> line_ready ?s1" by code_simp
  have y: "line_ticks (line_run id ?s1)" by code_simp
  have z: "line_stops ?s2" by code_simp
  have run: "motion line_env [] ?s0 [(?pb, [1])] ?s2" using x y by (intro line_segment line_block_start ok) simp_all
  note last = line_stops_eq [OF z]
  have "position (line_tick ?s2) ! 1 = -1"
    using steps_exact [OF line_start run conjunct1 [OF last] conjunct2 [OF last], of 1] x
    by (simp add: line_block_def N_AXIS_def axis_dir_def bit_iff_odd)
  with last show ?thesis by blast
qed

text \<open>
  C9. The line is followed as closely as steps allow: at every moment of a run the position is the sum of what each block has
  contributed, and an axis of a block that has progressed by \<open>U\<close> eighths of a step event has made a number of steps
  that differs from its share of the way, \<open>steps * U / (8 * events)\<close>, by at most half a step.
\<close>

theorem steps_within_half:
  assumes "resting js0 s0" "motion e js0 s0 js s"
  shows "\<exists>U P. (\<forall>j < length js. U j \<le> 8 * sum_list (snd (js ! j))) \<and>
    (\<forall>i < N_AXIS. position s ! i = position s0 ! i + of_int (\<Sum>j<length js. axis_dir (pb_direction (fst (js ! j))) i * int (P j i)) \<and>
      (\<forall>j < length js. 2 * \<bar>int (8 * unat (pb_step_event_count (fst (js ! j))) * P j i) - int (unat (pb_steps (fst (js ! j)) ! i) * U j)\<bar> \<le>
         int (8 * unat (pb_step_event_count (fst (js ! j))))))"
proof -
  obtain base where "run_inv base s0 js0 s0" using resting_inv [OF assms(1)] by blast
  from motion_inv [OF assms(2) this] have "run_inv base s0 js s" .
  then obtain U p where h: "moved p s0 js U s" "\<forall>j < length js. U j \<le> 8 * sum_list (snd (js ! j))" by (rule run_inv_moved)
  let ?P = "\<lambda>j i. axis_pulses (fst (js ! j)) i (U j)"
  have "2 * \<bar>int (8 * unat (pb_step_event_count (fst (js ! j))) * ?P j i) - int (unat (pb_steps (fst (js ! j)) ! i) * U j)\<bar> \<le>
      int (8 * unat (pb_step_event_count (fst (js ! j))))" if "j < length js" "i < N_AXIS" for i j
  proof -
    have ok: "block_ok (fst (js ! j))" using motion_blocks_ok [OF assms] that(1) by simp
    have "2 \<le> block_events (fst (js ! j))" using block_ok_steps(4) [OF ok that(2)] by simp
    from pulses_at_error [OF this block_ok_steps(6) [OF ok that(2)]] show ?thesis
      by (simp only: axis_pulses_def block_events_def)
  qed
  with h show ?thesis
    by (intro exI [of _ U] exI [of _ ?P]) (simp add: moved_def total_def job_move_def)
qed

theorem steps_within_half_witness:
  "\<exists>(s :: smem) U P. position s ! 1 = - of_nat P \<and> U \<le> 8 \<and> 2 * \<bar>8 * int P - int U\<bar> \<le> (8 :: int)"
proof -
  let ?pb = "line_block [1, 1, 0, 0] 1" and ?s0 = "line_mem"
  let ?s1 = "prep_new_st_block ?pb ?s0"
  let ?s2 = "line_tick (line_run id ?s1)"
  have ok: "block_ok ?pb" unfolding block_ok_def all_axes by (simp add: line_block_def N_AXIS_def)
  have x: "line_ready ?s0 \<and> position ?s0 ! 1 = 0 \<and> line_ready ?s1" by code_simp
  have y: "line_ticks (line_run id ?s1)" by code_simp
  have run: "motion line_env [] ?s0 [(?pb, [1])] ?s2" using x y by (intro line_segment line_block_start ok) simp_all
  from steps_within_half [OF line_start run] obtain U P where h: "U 0 \<le> 8"
    "position ?s2 ! 1 = position ?s0 ! 1 + of_int (axis_dir 2 1 * int (P 0 1))" "2 * \<bar>8 * int (P 0 1) - int (U 0)\<bar> \<le> (8 :: int)"
    unfolding all_axes by (auto simp: line_block_def)
  from h(2) x have "position ?s2 ! 1 = - of_nat (P 0 1)" by (simp add: axis_dir_def bit_iff_odd)
  with h(1,3) show ?thesis by (intro exI [of _ ?s2] exI [of _ "U 0"] exI [of _ "P 0 1"]) simp
qed

text \<open>
  C5. A block that is interrupted by a feed hold is not traced as if it had not been: the counters start again at half
  when it is resumed. An axis that had made exactly a half step (its steps times the finished step events are an odd multiple
  of half the events) loses one step for good; every other axis makes all its steps.
\<close>

theorem feed_hold_loses_step:
  assumes "resting [] s0" "motion e [] s0 [(pb, ns1)] s1" "stepper_driver_interrupt_handler e t1 s1 = Some s2"
    "exec_block (st s2) = None" "resting [(pb, [])] s2" "motion e [(pb, [])] s2 [(pb, ns2)] s3"
    "stepper_driver_interrupt_handler e t2 s3 = Some s4" "exec_block (st s4) = None"
    "sum_list ns1 + sum_list ns2 = unat (pb_step_event_count pb)" "i < N_AXIS"
  shows "position s4 ! i = position s0 ! i + of_int (axis_dir (pb_direction pb) i * (int (unat (pb_steps pb ! i)) -
    (if (2 * unat (pb_steps pb ! i) * sum_list ns1) mod (2 * unat (pb_step_event_count pb)) = unat (pb_step_event_count pb) then 1 else 0)))"
  using assms by (rule hold_steps)

theorem feed_hold_loses_step_witness:
  "\<exists>s3 s4. stepper_driver_interrupt_handler line_env False s3 = Some s4 \<and> exec_block (st s4) = None \<and>
     position s4 ! 0 = 2 \<and> position s4 ! 1 = 0"
proof -
  let ?pb = "line_block [2, 1, 0, 0] 2" and ?s0 = "line_mem"
  let ?b = "prep_new_st_block ?pb ?s0"
  let ?s1 = "line_tick (line_run id ?b)"
  let ?s2 = "line_tick ?s1"
  let ?s3 = "line_tick (line_run id ?s2)"
  have ok: "block_ok ?pb" unfolding block_ok_def all_axes by (simp add: line_block_def N_AXIS_def)
  have x: "line_ready ?s0 \<and> position ?s0 ! 0 = 0 \<and> position ?s0 ! 1 = 0 \<and> line_ready ?b" by code_simp
  have y: "line_ticks (line_run id ?b)" by code_simp
  have z: "line_stops ?s1" by code_simp
  have h: "line_holds ?pb ?s2 \<and> line_ready ?s2" by code_simp
  have t: "line_ticks (line_run id ?s2)" by code_simp
  have e: "line_stops ?s3" by code_simp
  have run1: "motion line_env [] ?s0 [(?pb, [1])] ?s1" using x y by (intro line_segment line_block_start ok) simp_all
  have rest2: "resting [(?pb, [])] ?s2" using h ok by (simp add: resting_def line_holds_def)
  have run2: "motion line_env [(?pb, [])] ?s2 [(?pb, [1])] ?s3" using h t by (intro line_segment motion_start) simp_all
  note last1 = line_stops_eq [OF z] and last2 = line_stops_eq [OF e]
  note F = feed_hold_loses_step [OF line_start run1 conjunct1 [OF last1] conjunct2 [OF last1] rest2 run2 conjunct1 [OF last2] conjunct2 [OF last2]]
  have "position (line_tick ?s3) ! 0 = 2" using F [of 0] x by (simp add: line_block_def N_AXIS_def axis_dir_def bit_iff_odd)
  moreover have "position (line_tick ?s3) ! 1 = 0" using F [of 1] x by (simp add: line_block_def N_AXIS_def axis_dir_def bit_iff_odd)
  ultimately show ?thesis using last2 by blast
qed

end
