(* ===== verification/Float_order.thy ===== *)
theory Float_order
  imports Float_arith Complex_Main
begin

text \<open>
  The order of the non-negative binary32 values. Their words are ordered as the values are, and
  rounding, hence addition and multiplication, is monotone.
\<close>

section \<open>Rounding to an integer\<close>

lemma round_half_even_near:
  assumes "0 < d"
  shows "\<bar>real (round_half_even m d) - real m / real d\<bar> \<le> 1 / 2"
    "\<bar>real (round_half_even m d) - real m / real d\<bar> = 1 / 2 \<Longrightarrow> even (round_half_even m d)"
proof -
  let ?q = "m div d" and ?r = "m mod d"
  have m: "real m = real ?q * real d + real ?r"
    by (metis div_mult_mod_eq of_nat_add of_nat_mult)
  have x: "real m / real d = real ?q + real ?r / real d" using assms by (simp add: m add_divide_distrib)
  have r: "?r < d" using assms by simp
  have b: "real ?r / real d < 1" "0 \<le> real ?r / real d" using r by simp_all
  consider (l) "2 * ?r < d" | (h) "d < 2 * ?r" | (t) "2 * ?r = d" by linarith
  then have "\<bar>real (round_half_even m d) - real m / real d\<bar> \<le> 1 / 2 \<and>
    (\<bar>real (round_half_even m d) - real m / real d\<bar> = 1 / 2 \<longrightarrow> even (round_half_even m d))"
  proof cases
    case l
    then have "real ?r / real d < 1 / 2" using assms by (simp add: field_simps)
    then show ?thesis using l b unfolding x by (simp add: round_half_even_def Let_def)
  next
    case h
    then have "1 / 2 < real ?r / real d" using assms by (simp add: field_simps)
    then show ?thesis using h b unfolding x by (simp add: round_half_even_def Let_def)
  next
    case t
    then have "real d = 2 * real ?r" by (metis of_nat_mult of_nat_numeral)
    then have "real ?r / real d = 1 / 2" using assms by simp
    then show ?thesis using t unfolding x by (simp add: round_half_even_def Let_def)
  qed
  then show "\<bar>real (round_half_even m d) - real m / real d\<bar> \<le> 1 / 2"
    "\<bar>real (round_half_even m d) - real m / real d\<bar> = 1 / 2 \<Longrightarrow> even (round_half_even m d)" by blast+
qed

lemma round_half_even_mono:
  assumes "0 < d" "0 < d'" "real m / real d \<le> real m' / real d'"
  shows "round_half_even m d \<le> round_half_even m' d'"
proof (rule ccontr)
  let ?a = "round_half_even m d" and ?b = "round_half_even m' d'"
  assume "\<not> ?thesis"
  then have ab: "?b + 1 \<le> ?a" by simp
  then have ab': "real ?b + 1 \<le> real ?a" by linarith
  note n = round_half_even_near [OF assms(1), of m] round_half_even_near [OF assms(2), of m']
  from n(1,3) assms(3) ab' have e: "real ?a = real ?b + 1" "\<bar>real ?a - real m / real d\<bar> = 1 / 2"
    "\<bar>real ?b - real m' / real d'\<bar> = 1 / 2" by linarith+
  have "even ?a" "even ?b" using n(2) [OF e(2)] n(4) [OF e(3)] by blast+
  moreover have "?a = ?b + 1" using e(1) by linarith
  ultimately show False by simp
qed

lemma round_half_even_le:
  assumes "0 < d" "real m / real d \<le> real k"
  shows "round_half_even m d \<le> k"
  using round_half_even_mono [OF assms(1), of 1 m k] assms(2) by (simp del: One_nat_def)

lemma round_half_even_ge:
  assumes "0 < d" "real k \<le> real m / real d"
  shows "k \<le> round_half_even m d"
  using round_half_even_mono [OF _ assms(1), of 1 k m] assms(2) by (simp del: One_nat_def)

section \<open>The exponent\<close>

lemma bit_length_bounds:
  "0 < n \<Longrightarrow> 2 ^ (bit_length n - 1) \<le> n \<and> n < 2 ^ bit_length n \<and> 0 < bit_length n"
proof (induction n rule: bit_length.induct)
  case (1 n)
  show ?case
  proof (cases "n div 2 = 0")
    case True
    with 1(2) have "n = 1" by simp
    then show ?thesis by (simp add: bit_length.simps)
  next
    case False
    let ?h = "n div 2"
    have i: "2 ^ (bit_length ?h - 1) \<le> ?h" "?h < 2 ^ bit_length ?h" "0 < bit_length ?h"
      using 1 False by simp_all
    have n: "bit_length n = Suc (bit_length ?h)" using 1(2) by (simp add: bit_length.simps [of n])
    obtain k where k: "bit_length ?h = Suc k" using i(3) by (metis gr0_implies_Suc)
    have "2 ^ k \<le> ?h" "?h < 2 * 2 ^ k" using i(1,2) unfolding k by simp_all
    then have "2 * 2 ^ k \<le> n" "n < 2 * (2 * 2 ^ k)" by linarith+
    then show ?thesis unfolding n k by simp
  qed
qed

lemma two_neq: "(2 :: real) \<noteq> 0"
  by simp

lemma pow2_pos_real: "real (pow2_pos e) / real (pow2_pos (- e)) = 2 powi e"
  by (cases "0 \<le> e") (simp_all add: pow2_pos_def power_int_def field_simps)

lemma pow2_pos_pos [simp]: "0 < pow2_pos e" "pow2_pos e \<noteq> 0"
  by (simp_all add: pow2_pos_def)

lemma powi_nat: "real (2 ^ k) = 2 powi (int k)"
  by (simp add: power_int_def)

lemma ulp_exp_bounds:
  assumes "0 < n" "0 < d"
  shows "real n / real d < 2 powi (ulp_exp n d + 24)" "-149 < ulp_exp n d \<Longrightarrow> 2 powi (ulp_exp n d + 23) \<le> real n / real d"
    "-149 \<le> ulp_exp n d"
proof -
  define x where "x = real n / real d"
  define e0 where "e0 = int (bit_length n) - int (bit_length d)"
  define c where "c \<longleftrightarrow> d * pow2_pos e0 \<le> n * pow2_pos (- e0)"
  have cx: "c \<longleftrightarrow> 2 powi e0 \<le> x"
  proof -
    have "c \<longleftrightarrow> real d * real (pow2_pos e0) \<le> real n * real (pow2_pos (- e0))"
      unfolding c_def by (simp flip: of_nat_mult)
    also have "\<dots> \<longleftrightarrow> real (pow2_pos e0) / real (pow2_pos (- e0)) \<le> x"
      using assms(2) by (simp add: x_def field_simps)
    finally show ?thesis by (simp only: pow2_pos_real)
  qed
  note bn = bit_length_bounds [OF assms(1)] and bd = bit_length_bounds [OF assms(2)]
  have n1: "real n < 2 powi int (bit_length n)" "2 powi (int (bit_length n) - 1) \<le> real n"
  proof -
    have "real n < real (2 ^ bit_length n)" using bn by (simp only: of_nat_less_iff)
    then show "real n < 2 powi int (bit_length n)" by (simp only: powi_nat)
    have "real (2 ^ (bit_length n - 1)) \<le> real n" using bn by (simp only: of_nat_le_iff)
    moreover have "int (bit_length n) - 1 = int (bit_length n - 1)" using bn by simp
    ultimately show "2 powi (int (bit_length n) - 1) \<le> real n" by (simp only: powi_nat)
  qed
  have d1: "real d < 2 powi int (bit_length d)" "2 powi (int (bit_length d) - 1) \<le> real d"
  proof -
    have "real d < real (2 ^ bit_length d)" using bd by (simp only: of_nat_less_iff)
    then show "real d < 2 powi int (bit_length d)" by (simp only: powi_nat)
    have "real (2 ^ (bit_length d - 1)) \<le> real d" using bd by (simp only: of_nat_le_iff)
    moreover have "int (bit_length d) - 1 = int (bit_length d - 1)" using bd by simp
    ultimately show "2 powi (int (bit_length d) - 1) \<le> real d" by (simp only: powi_nat)
  qed
  have up: "x < 2 powi (e0 + 1)"
  proof -
    have "x < 2 powi int (bit_length n) / 2 powi (int (bit_length d) - 1)"
      unfolding x_def using n1 d1 assms by (intro frac_less) simp_all
    also have "\<dots> = 2 powi (int (bit_length n) - (int (bit_length d) - 1))" by (rule power_int_diff [symmetric]) simp
    also have "int (bit_length n) - (int (bit_length d) - 1) = e0 + 1" by (simp add: e0_def)
    finally show ?thesis .
  qed
  have lo: "2 powi (e0 - 1) \<le> x"
  proof -
    have "2 powi (int (bit_length n) - 1) / 2 powi int (bit_length d) \<le> x"
      unfolding x_def using n1 d1 assms by (intro frac_le) simp_all
    moreover have "2 powi (int (bit_length n) - 1) / 2 powi int (bit_length d) =
        (2 :: real) powi (int (bit_length n) - 1 - int (bit_length d))" by (rule power_int_diff [symmetric]) simp
    moreover have "int (bit_length n) - 1 - int (bit_length d) = e0 - 1" by (simp add: e0_def)
    ultimately show ?thesis by (simp only:)
  qed
  define e where "e = (if c then e0 else e0 - 1)"
  have u: "ulp_exp n d = max (e - 23) (-149)"
    by (simp add: ulp_exp_def Let_def e_def c_def e0_def)
  have e: "2 powi e \<le> x" "x < 2 powi (e + 1)"
    using up lo cx by (auto simp: e_def)
  show "real n / real d < 2 powi (ulp_exp n d + 24)"
  proof -
    have "(2 :: real) powi (e + 1) \<le> 2 powi (ulp_exp n d + 24)" by (intro power_int_increasing) (simp_all add: u)
    then show ?thesis using e by (simp add: x_def)
  qed
  show "-149 \<le> ulp_exp n d" by (simp add: u)
  assume "-149 < ulp_exp n d"
  then have "ulp_exp n d + 23 = e" by (simp add: u)
  then show "2 powi (ulp_exp n d + 23) \<le> real n / real d" using e by (simp add: x_def)
qed

section \<open>Rounding is monotone\<close>

text \<open>The fields of the rounded value, before overflow.\<close>

definition round_bits :: "nat \<Rightarrow> nat \<Rightarrow> nat" where
  "round_bits n d =
     round_half_even (n * pow2_pos (- ulp_exp n d)) (d * pow2_pos (ulp_exp n d)) + nat (ulp_exp n d + 149) * 2 ^ 23"

lemma f32_round_bits:
  "f32_round False n d =
    (if n = 0 then 0 else if 0x7F800000 \<le> round_bits n d then 0x7F800000 else of_nat (round_bits n d))"
  by (simp add: f32_round_def round_bits_def Let_def f32_signed_def)

lemma scaled_ratio:
  assumes "0 < d"
  shows "real (n * pow2_pos (- e)) / real (d * pow2_pos e) = real n / real d / 2 powi e"
  unfolding pow2_pos_real [symmetric] by (simp add: field_simps)

lemma round_bits_mono:
  assumes "0 < n" "0 < d" "0 < d'" "real n / real d \<le> real n' / real d'"
  shows "round_bits n d \<le> round_bits n' d'"
proof -
  let ?x = "real n / real d" and ?y = "real n' / real d'"
  let ?e = "ulp_exp n d" and ?f = "ulp_exp n' d'"
  let ?m = "round_half_even (n * pow2_pos (- ?e)) (d * pow2_pos ?e)"
    and ?k = "round_half_even (n' * pow2_pos (- ?f)) (d' * pow2_pos ?f)"
  have "0 < ?x" using assms(1,2) by simp
  then have n': "0 < n'" using assms(4) by (cases "n' = 0") simp_all
  note e = ulp_exp_bounds [OF assms(1,2)] and f = ulp_exp_bounds [OF n' assms(3)]
  have p: "0 < d * pow2_pos ?e" "0 < d' * pow2_pos ?f" using assms(2,3) by simp_all
  consider (eq) "?e = ?f" | (lt) "?e < ?f" | (gt) "?f < ?e" by linarith
  then show ?thesis
  proof cases
    case eq
    have "?x / 2 powi ?e \<le> ?y / 2 powi ?f" unfolding eq by (rule divide_right_mono [OF assms(4)]) simp
    then have "?m \<le> ?k"
      by (intro round_half_even_mono [OF p]) (simp only: scaled_ratio [OF assms(2)] scaled_ratio [OF assms(3)])
    then show ?thesis unfolding round_bits_def eq by simp
  next
    case lt
    have "?x < 2 powi 24 * 2 powi ?e" using e(1) by (simp add: power_int_add mult.commute)
    then have "?x / 2 powi ?e < 2 powi 24" by (rule pos_divide_less_eq [THEN iffD2, rotated]) simp
    then have m: "?m \<le> 2 ^ 24" by (intro round_half_even_le [OF p(1)]) (simp only: scaled_ratio [OF assms(2)], simp)
    have "-149 < ?f" using lt e(3) by linarith
    then have "2 powi 23 * 2 powi ?f \<le> ?y" using f(2) by (simp add: power_int_add mult.commute)
    then have "2 powi 23 \<le> ?y / 2 powi ?f" by (rule pos_le_divide_eq [THEN iffD2, rotated]) simp
    then have k: "2 ^ 23 \<le> ?k" by (intro round_half_even_ge [OF p(2)]) (simp only: scaled_ratio [OF assms(3)], simp)
    have "nat (?e + 149) + 1 \<le> nat (?f + 149)" using lt e(3) by linarith
    then have "(nat (?e + 149) + 1) * 2 ^ 23 \<le> nat (?f + 149) * 2 ^ 23" by (rule mult_right_mono) simp
    then show ?thesis using m k unfolding round_bits_def by simp
  next
    case gt
    have "-149 < ?e" using gt f(3) by linarith
    then have "2 powi (?e + 23) \<le> ?x" by (rule e(2))
    moreover have "(2 :: real) powi (?f + 24) \<le> 2 powi (?e + 23)" using gt by (intro power_int_increasing) simp_all
    ultimately have False using f(1) assms(4) by linarith
    then show ?thesis ..
  qed
qed

lemma word_of_nat_le: "m \<le> n \<Longrightarrow> n < 2 ^ 32 \<Longrightarrow> (of_nat m :: f32) \<le> of_nat n"
  by (simp add: word_le_nat_alt unsigned_of_nat take_bit_nat_eq_self)

lemma f32_round_mono:
  assumes "0 < d" "0 < d'" "real n / real d \<le> real n' / real d'"
  shows "f32_round False n d \<le> f32_round False n' d'"
proof (cases "n = 0")
  case False
  then have n: "0 < n" by simp
  have "0 < real n / real d" using n assms(1) by simp
  then have n': "n' \<noteq> 0" using assms(3) by (cases "n' = 0") simp_all
  have b: "round_bits n d \<le> round_bits n' d'" using round_bits_mono [OF n assms] .
  have top: "(of_nat k :: f32) \<le> 0x7F800000" if "k \<le> 0x7F800000" for k
    using word_of_nat_le [OF that] by simp
  show ?thesis using b False n' top [of "round_bits n d"] word_of_nat_le [OF b] by (auto simp: f32_round_bits)
qed (simp add: f32_round_bits)

lemma f32_round_ratio:
  "0 < d \<Longrightarrow> 0 < d' \<Longrightarrow> real n / real d = real n' / real d' \<Longrightarrow> f32_round False n d = f32_round False n' d'"
  by (intro antisym f32_round_mono) simp_all

section \<open>Non-negative values\<close>

text \<open>Neither a NaN nor a negative value, and not the negative zero; infinity is one.\<close>

definition f32_nonneg :: "f32 \<Rightarrow> bool" where
  "f32_nonneg v \<longleftrightarrow> v \<le> 0x7F800000"

text \<open>A finite value in units of \<open>2 ^ -150\<close>.\<close>

definition f32_unit :: nat where "f32_unit = 2 ^ 150"

lemma f32_unit_pos [simp]: "0 < f32_unit" "f32_unit \<noteq> 0"
  by (simp_all add: f32_unit_def)

definition f32_value :: "f32 \<Rightarrow> nat" where
  "f32_value v = f32_mant v * 2 ^ f32_scale v"

lemma f32_word:
  assumes "\<not> f32_sign v"
  shows "unat v = f32_exp v * 2 ^ 23 + f32_frac v" "f32_frac v < 2 ^ 23" "f32_exp v \<le> 255"
proof -
  have m: "(0xFF :: u32) = mask 8" "(0x7FFFFF :: u32) = mask 23" by (simp_all add: mask_eq_exp_minus_1)
  have l: "unat v < 2 ^ 32" using unsigned_less [of v, where 'a = nat] by simp
  have "\<not> odd (unat v div 2 ^ 31)" using assms by (simp add: f32_sign_def bit_iff_odd_unat)
  moreover have "unat v div 2 ^ 31 < 2" using l by (simp add: less_mult_imp_div_less)
  ultimately have "unat v div 2 ^ 31 = 0" by (metis One_nat_def even_zero less_2_cases odd_one)
  then have s: "unat v < 2 ^ 31" by (simp add: div_eq_0_iff)
  have e: "f32_exp v = unat v div 2 ^ 23"
    using s by (simp add: f32_exp_def m unat_and_mask unat_drop_bit less_mult_imp_div_less)
  have f: "f32_frac v = unat v mod 2 ^ 23" by (simp add: f32_frac_def m unat_and_mask)
  show "unat v = f32_exp v * 2 ^ 23 + f32_frac v" unfolding e f by (rule div_mult_mod_eq [symmetric])
  show "f32_frac v < 2 ^ 23" unfolding f by simp
  have "unat v div 2 ^ 23 < 256" using s by (simp add: less_mult_imp_div_less)
  then show "f32_exp v \<le> 255" unfolding e by simp
qed

lemma f32_nonneg_iff: "f32_nonneg v \<longleftrightarrow> \<not> f32_sign v \<and> \<not> f32_is_nan v"
proof (cases "f32_sign v")
  case True
  then have "odd (unat v div 2 ^ 31)" by (simp add: f32_sign_def bit_iff_odd_unat)
  then have "2 ^ 31 \<le> unat v" by (metis div_less even_zero linorder_not_le)
  then show ?thesis using True by (simp add: f32_nonneg_def word_le_nat_alt)
next
  case False
  note w = f32_word [OF False]
  have "unat v \<le> 0x7F800000 \<longleftrightarrow> f32_exp v < 255 \<or> f32_exp v = 255 \<and> f32_frac v = 0" using w by auto
  then show ?thesis using False w(3) by (auto simp: f32_nonneg_def word_le_nat_alt f32_is_nan_def)
qed

lemma f32_inf_iff: "f32_nonneg v \<Longrightarrow> f32_is_inf v \<longleftrightarrow> v = 0x7F800000"
proof -
  assume n: "f32_nonneg v"
  then have "\<not> f32_sign v" by (simp add: f32_nonneg_iff)
  note w = f32_word [OF this]
  have "f32_is_inf v \<longleftrightarrow> unat v = 0x7F800000"
  proof
    assume u: "unat v = 0x7F800000"
    have "\<not> f32_exp v \<le> 254"
    proof
      assume "f32_exp v \<le> 254"
      then have "f32_exp v * 2 ^ 23 \<le> 254 * 2 ^ 23" by (rule mult_right_mono) simp
      then show False using u w(1,2) by simp
    qed
    then have "f32_exp v = 255" using w(3) by simp
    then show "f32_is_inf v" using u w(1) by (simp add: f32_is_inf_def)
  qed (simp add: w(1) f32_is_inf_def)
  moreover have "unat (0x7F800000 :: f32) = 0x7F800000" by simp
  ultimately show ?thesis by (metis unat_eq_iff)
qed

lemma f32_nonneg_less: "f32_nonneg a \<Longrightarrow> f32_nonneg b \<Longrightarrow> f32_less a b \<longleftrightarrow> a < b"
proof -
  assume n: "f32_nonneg a" "f32_nonneg b"
  have z: "f32_is_zero v \<longleftrightarrow> v = 0" if "f32_nonneg v" for v
  proof -
    have "\<not> f32_sign v" using that by (simp add: f32_nonneg_iff)
    then have "v AND 0x7FFFFFFF = v"
      by (intro bit_eqI) (use less_Suc_eq [of _ 31] in \<open>auto simp: f32_sign_def bit_and_iff bit_mask_iff
        mask_eq_exp_minus_1 [of 31, where 'a = u32, simplified, symmetric]\<close>)
    then show ?thesis by (simp add: f32_is_zero_def)
  qed
  show ?thesis using n z by (auto simp: f32_less_def f32_nonneg_iff)
qed

text \<open>A finite value is not changed by rounding it.\<close>

lemma f32_mant_bounds:
  assumes "f32_nonneg v"
  shows "f32_mant v < 2 ^ 24" "1 < f32_scale v \<Longrightarrow> 2 ^ 23 \<le> f32_mant v" "1 \<le> f32_scale v"
    "unat v = f32_mant v + (f32_scale v - 1) * 2 ^ 23"
proof -
  have "\<not> f32_sign v" using assms by (simp add: f32_nonneg_iff)
  note w = f32_word [OF this]
  show "f32_mant v < 2 ^ 24" "1 < f32_scale v \<Longrightarrow> 2 ^ 23 \<le> f32_mant v" "1 \<le> f32_scale v"
    using w(2) by (auto simp: f32_mant_def f32_scale_def split: if_splits)
  show "unat v = f32_mant v + (f32_scale v - 1) * 2 ^ 23"
    using w(1) by (cases "f32_exp v") (simp_all add: f32_mant_def f32_scale_def)
qed

lemma f32_value_ratio: "real (f32_value v) / real f32_unit = real (f32_mant v) * 2 powi (int (f32_scale v) - 150)"
proof -
  have "2 powi (int (f32_scale v) - 150) = (2 :: real) powi int (f32_scale v) / 2 powi 150"
    by (rule power_int_diff) simp
  then show ?thesis by (simp add: f32_value_def f32_unit_def)
qed

lemma f32_round_value:
  assumes "f32_nonneg v" "v \<noteq> 0x7F800000"
  shows "f32_round False (f32_value v) f32_unit = v"
proof (cases "f32_mant v = 0")
  case True
  note b = f32_mant_bounds [OF assms(1)]
  from True b(2,3) have "f32_scale v = 1" by (cases "1 < f32_scale v") simp_all
  with True b(4) have "unat v = unat (0 :: f32)" by (simp add: unsigned_0 del: unat_eq_iff)
  then have "v = 0" unfolding unat_eq_iff .
  then show ?thesis using True by (simp add: f32_value_def f32_round_bits)
next
  case False
  note b = f32_mant_bounds [OF assms(1)]
  let ?x = "real (f32_value v) / real f32_unit" and ?s = "int (f32_scale v) - 150"
  have n: "0 < f32_value v" "0 < f32_unit" using False by (simp_all add: f32_value_def)
  let ?e = "ulp_exp (f32_value v) f32_unit"
  note u = ulp_exp_bounds [OF n]
  have x: "?x = real (f32_mant v) * 2 powi ?s" by (rule f32_value_ratio)
  have e: "?e = ?s"
  proof (rule antisym)
    show "?e \<le> ?s"
    proof (rule ccontr)
      assume "\<not> ?thesis"
      then have gt: "?s < ?e" by simp
      then have "2 powi (?e + 23) \<le> ?x" using u(2) b(3) by simp
      also have "?x < 2 ^ 24 * 2 powi ?s" unfolding x using b(1) by (simp add: less_imp_of_nat_less)
      also have "\<dots> = 2 powi (?s + 24)" unfolding power_int_add [OF disjI1 [OF two_neq]] by simp
      also have "\<dots> \<le> 2 powi (?e + 23)" using gt by (intro power_int_increasing) simp_all
      finally show False by simp
    qed
    show "?s \<le> ?e"
    proof (rule ccontr)
      assume "\<not> ?thesis"
      then have lt: "?e < ?s" by simp
      then have "1 < f32_scale v" using u(3) by linarith
      then have "2 ^ 23 \<le> f32_mant v" by (rule b(2))
      then have "(2 :: real) ^ 23 * 2 powi ?s \<le> ?x" unfolding x by (simp add: numeral_le_real_of_nat_iff)
      moreover have "(2 :: real) ^ 23 * 2 powi ?s = 2 powi (?s + 23)" unfolding power_int_add [OF disjI1 [OF two_neq]] by simp
      moreover have "(2 :: real) powi (?e + 24) \<le> 2 powi (?s + 23)" using lt by (intro power_int_increasing) simp_all
      ultimately show False using u(1) by linarith
    qed
  qed
  let ?m = "round_half_even (f32_value v * pow2_pos (- ?e)) (f32_unit * pow2_pos ?e)"
  have r: "real (f32_value v * pow2_pos (- ?e)) / real (f32_unit * pow2_pos ?e) = real (f32_mant v)"
    unfolding scaled_ratio [OF n(2)] x e by simp
  have p: "0 < f32_unit * pow2_pos ?e" by simp
  have "?m = f32_mant v"
    by (intro antisym round_half_even_le [OF p] round_half_even_ge [OF p]) (simp_all only: r order_refl)
  moreover have "nat (?e + 149) = f32_scale v - 1" unfolding e using b(3) by simp
  ultimately have bits: "round_bits (f32_value v) f32_unit = unat v" unfolding round_bits_def by (simp only: b(4))
  have "v < 0x7F800000" using assms by (simp add: f32_nonneg_def)
  then have "\<not> 0x7F800000 \<le> unat v" by (simp add: word_less_nat_alt)
  then show ?thesis unfolding f32_round_bits bits using n(1) by simp
qed

text \<open>Addition is the rounded sum.\<close>

lemma f32_nonneg_round: "f32_nonneg (f32_round False n d)"
proof -
  have "f32_round False n d \<le> 0x7F800000"
    using word_of_nat_le [of "round_bits n d" "0x7F800000"] by (auto simp: f32_round_bits)
  then show ?thesis by (simp add: f32_nonneg_def)
qed

lemma f32_add_value:
  assumes "f32_nonneg a" "f32_nonneg b" "a \<noteq> 0x7F800000" "b \<noteq> 0x7F800000"
  shows "f32_add a b = f32_round False (f32_value a + f32_value b) f32_unit"
proof -
  define e where "e = min (f32_scale a) (f32_scale b)"
  define x where "x = f32_mant a * 2 ^ (f32_scale a - e) + f32_mant b * 2 ^ (f32_scale b - e)"
  have n: "\<not> f32_is_nan a" "\<not> f32_is_nan b" "\<not> f32_sign a" "\<not> f32_sign b" "\<not> f32_is_inf a" "\<not> f32_is_inf b"
    using assms by (simp_all add: f32_nonneg_iff f32_inf_iff)
  have u: "f32_units e a + f32_units e b = int x" using n by (simp add: f32_units_def x_def)
  have s: "f32_mant a * 2 ^ (f32_scale a - e) * 2 ^ e = f32_value a" "f32_mant b * 2 ^ (f32_scale b - e) * 2 ^ e = f32_value b"
    by (simp_all add: f32_value_def e_def mult.assoc flip: power_add)
  then have v: "x * 2 ^ e = f32_value a + f32_value b" by (simp add: x_def add_mult_distrib)
  have add: "f32_add a b = (if x = 0 then 0 else f32_round_scaled False x 1 (int e - 150))"
    using n unfolding f32_add_def Let_def e_def [symmetric] u by (simp add: f32_signed_def)
  show ?thesis
  proof (cases "x = 0")
    case True
    then show ?thesis using v add by (simp add: f32_round_bits)
  next
    case False
    have "f32_round_scaled False x 1 (int e - 150) = f32_round False (f32_value a + f32_value b) f32_unit"
      unfolding f32_round_scaled_def
    proof (rule f32_round_ratio)
      have "real (x * pow2_pos (int e - 150)) / real (1 * pow2_pos (- (int e - 150))) = real x * 2 powi (int e - 150)"
        unfolding pow2_pos_real [symmetric] by simp
      also have "(2 :: real) powi (int e - 150) = 2 powi int e / 2 powi 150" by (rule power_int_diff) simp
      also have "real x * (2 powi int e / 2 powi 150) = real (x * 2 ^ e) / real f32_unit" by (simp add: f32_unit_def)
      finally show "real (x * pow2_pos (int e - 150)) / real (1 * pow2_pos (- (int e - 150))) =
          real (f32_value a + f32_value b) / real f32_unit" unfolding v .
    qed simp_all
    then show ?thesis using add False by simp
  qed
qed

lemma f32_add_inf:
  assumes "f32_nonneg a" "f32_nonneg b" "a = 0x7F800000 \<or> b = 0x7F800000"
  shows "f32_add a b = 0x7F800000"
proof -
  have "\<not> f32_is_nan a" "\<not> f32_is_nan b" "\<not> f32_sign a" "\<not> f32_sign b" using assms by (simp_all add: f32_nonneg_iff)
  then show ?thesis using assms by (auto simp: f32_add_def f32_inf_iff)
qed

lemma f32_value_mono:
  assumes "f32_nonneg a" "f32_nonneg b" "a \<noteq> 0x7F800000" "b \<noteq> 0x7F800000" "a \<le> b"
  shows "f32_value a \<le> f32_value b"
proof (rule ccontr)
  assume "\<not> ?thesis"
  then have lt: "f32_value b < f32_value a" by simp
  then have "f32_round False (f32_value b) f32_unit \<le> f32_round False (f32_value a) f32_unit"
    by (intro f32_round_mono) (simp_all add: divide_right_mono)
  then have "b \<le> a" using assms by (simp add: f32_round_value)
  then show False using assms(5) lt by simp
qed

theorem f32_add_nonneg: "f32_nonneg a \<Longrightarrow> f32_nonneg b \<Longrightarrow> f32_nonneg (f32_add a b)"
  by (cases "a = 0x7F800000 \<or> b = 0x7F800000") (auto simp: f32_add_inf f32_add_value f32_nonneg_round f32_nonneg_def [of "0x7F800000"])

theorem f32_add_mono:
  assumes "f32_nonneg a" "f32_nonneg b" "f32_nonneg c" "a \<le> b"
  shows "f32_add a c \<le> f32_add b c"
proof (cases "b = 0x7F800000 \<or> c = 0x7F800000")
  case True
  then show ?thesis using f32_add_inf [OF assms(2,3)] f32_add_nonneg [OF assms(1,3)] by (simp add: f32_nonneg_def)
next
  case False
  then have f: "a \<noteq> 0x7F800000" "b \<noteq> 0x7F800000" "c \<noteq> 0x7F800000" using assms by (auto simp: f32_nonneg_def)
  then have "f32_value a \<le> f32_value b" using assms by (intro f32_value_mono)
  then show ?thesis unfolding f32_add_value [OF assms(1,3) f(1,3)] f32_add_value [OF assms(2,3) f(2,3)]
    by (intro f32_round_mono) (simp_all add: divide_right_mono)
qed

theorem f32_add_ge:
  assumes "f32_nonneg a" "f32_nonneg b"
  shows "a \<le> f32_add a b" "b \<le> f32_add a b"
proof -
  have "a \<le> f32_add a b \<and> b \<le> f32_add a b"
  proof (cases "a = 0x7F800000 \<or> b = 0x7F800000")
    case True
    then show ?thesis using assms by (simp add: f32_add_inf f32_nonneg_def)
  next
    case False
    then have f: "a \<noteq> 0x7F800000" "b \<noteq> 0x7F800000" by simp_all
    have "f32_round False (f32_value v) f32_unit \<le> f32_round False (f32_value a + f32_value b) f32_unit"
      if "v = a \<or> v = b" for v
      using that by (intro f32_round_mono) (auto simp: divide_right_mono)
    then show ?thesis unfolding f32_add_value [OF assms f] using assms f by (metis f32_round_value)
  qed
  then show "a \<le> f32_add a b" "b \<le> f32_add a b" by blast+
qed

theorem f32_add_0 [simp]: "f32_nonneg b \<Longrightarrow> f32_add 0 b = b"
proof -
  assume b: "f32_nonneg b"
  have z: "f32_nonneg 0" "f32_value 0 = 0" by (simp_all add: f32_nonneg_def f32_value_def f32_mant_def f32_exp_def f32_frac_def)
  show ?thesis
  proof (cases "b = 0x7F800000")
    case True
    then show ?thesis using b z by (simp add: f32_add_inf)
  next
    case False
    then show ?thesis using b z by (simp add: f32_add_value f32_round_value)
  qed
qed

section \<open>Comparisons and products\<close>

lemma f32_nonneg_zero: "f32_nonneg v \<Longrightarrow> f32_is_zero v \<longleftrightarrow> v = 0"
proof -
  assume "f32_nonneg v"
  then have "\<not> f32_sign v" by (simp add: f32_nonneg_iff)
  then have "v AND 0x7FFFFFFF = v"
    by (intro bit_eqI) (use less_Suc_eq [of _ 31] in \<open>auto simp: f32_sign_def bit_and_iff bit_mask_iff
      mask_eq_exp_minus_1 [of 31, where 'a = u32, simplified, symmetric]\<close>)
  then show ?thesis by (simp add: f32_is_zero_def)
qed

lemma f32_nonneg_eq: "f32_nonneg a \<Longrightarrow> f32_nonneg b \<Longrightarrow> f32_eq a b \<longleftrightarrow> a = b"
  by (auto simp: f32_eq_def f32_nonneg_iff f32_nonneg_zero)

lemma f32_nonneg_consts [simp]: "f32_nonneg 0" "f32_nonneg 0x7F800000"
  by (simp_all add: f32_nonneg_def)

lemma f32_round_nonneg: "f32_nonneg (f32_round_scaled False n d e)"
  by (simp add: f32_round_scaled_def f32_nonneg_round)

lemma f32_zero_not_inf: "f32_is_zero v \<Longrightarrow> \<not> f32_is_inf v"
proof -
  assume z: "f32_is_zero v"
  have m: "(0x7FFFFFFF :: u32) = mask 31" "(0xFF :: u32) = mask 8" by (simp_all add: mask_eq_exp_minus_1)
  have "\<not> bit v k" if "k < 31" for k
  proof -
    have "\<not> bit (v AND mask 31) k" using z by (simp add: f32_is_zero_def m)
    then show ?thesis using that by (simp add: bit_and_iff bit_mask_iff)
  qed
  then have "drop_bit 23 v AND mask 8 = 0"
    by (intro bit_eqI) (auto simp: bit_and_iff bit_mask_iff bit_drop_bit_eq)
  then have "f32_exp v = 0" by (simp add: f32_exp_def m)
  then show ?thesis by (simp add: f32_is_inf_def)
qed

lemma f32_mul_self: "\<not> f32_is_nan v \<Longrightarrow> f32_nonneg (f32_mul v v)"
  using f32_zero_not_inf [of v] by (auto simp: f32_mul_def Let_def f32_signed_def f32_round_nonneg)

lemma f32_mul_nonneg:
  assumes "f32_nonneg a" "f32_nonneg b" "f32_is_finite a" "f32_is_finite b"
  shows "f32_nonneg (f32_mul a b)"
  using assms by (auto simp: f32_mul_def Let_def f32_signed_def f32_round_nonneg f32_nonneg_iff [of a] f32_nonneg_iff [of b]
      f32_is_inf_def f32_is_finite_def)

end
