(* ===== verification/Planner.thy ===== *)
theory Planner
  imports Stepper Float_order
begin

text \<open>
  The motion planner, \<^verbatim>\<open>grbl/planner.c\<close>: a ring of blocks, each a straight line with the speed at which
  it may be entered, and the look-ahead that sets these speeds each time a block is added. The ring is circularly
  linked by \<open>plan_reset_buffer\<close>; pointers into it are indices of \<open>bb_blocks\<close>, which is empty before it has
  been allocated. The planner calls the stepper module back when the block being executed is planned anew, so its
  state holds that of the stepper (\<open>stm\<close>). Loops around the ring have as many passes as there are blocks, and
  \<open>None\<close> says that this was not enough, or that memory was used that is not allocated.
\<close>

section \<open>Data\<close>

text \<open>The data of a spindle for constant surface speed: one structure, that every block with \<open>ps_css\<close> points to.\<close>

record css_data =
  css_surface_speed :: f32
  css_target_rpm :: f32
  css_delta_rpm :: f32
  css_max_rpm :: f32
  css_tool_offset :: f32
  css_axis :: nat

record plan_line_data =
  pd_feed_rate :: f32
  pd_spindle :: plan_spindle
  pd_condition :: plan_condition
  pd_overrides :: u16
  pd_offset_id :: u8
  pd_line_number :: i32
  pd_message :: "string option"
  pd_output_commands :: "ptr option"

datatype plan_action = Free_message string | Buffer_reduced | Report_overrides | Feed_override_changed | Rapid_override_changed
  | Sync_velocity_delayed nat

text \<open>The static variables of the module, the overrides in \<^verbatim>\<open>sys\<close>, and the stepper's variables.\<close>

record planner =
  pl_position :: "i32 list"
  previous_unit_vec :: "f32 list"
  previous_nominal_speed :: f32
  actual_rpm :: f32
  pl_feed_rate :: u32
  pl_rapid_rate :: u32
  bb_size :: nat
  bb_blocks :: "plan_block list"
  bb_linked :: bool
  bb_tail :: nat
  bb_head :: nat
  bb_next_head :: nat
  bb_planned :: nat
  pl_direction :: u8
  css :: css_data
  sys_feed_rate :: u32
  sys_rapid_rate :: u32
  feed_rates_disable :: bool
  pl_out :: "plan_action list"
  stm :: smem

text \<open>The settings, the C library's square root, and the speed a spindle reports.\<close>

record plan_env =
  pe_steps_per_mm :: "f32 list"
  pe_acceleration :: "f32 list"
  pe_max_rate :: "f32 list"
  pe_junction_deviation :: f32
  pe_buffer_blocks :: nat
  pe_sqrtf :: "f32 \<Rightarrow> f32"
  pe_rpm :: "ptr \<Rightarrow> f32"
  pe_junk :: plan_block

definition SOME_LARGE_VALUE :: f32 where "SOME_LARGE_VALUE = 0x7E967699"

definition MINIMUM_JUNCTION_SPEED :: f32 where "MINIMUM_JUNCTION_SPEED = 0"

definition MINIMUM_FEED_RATE :: f32 where "MINIMUM_FEED_RATE = 0x3F800000"

definition MIN_FEED_RATE_OVERRIDE :: u32 where "MIN_FEED_RATE_OVERRIDE = 10"

definition MAX_FEED_RATE_OVERRIDE :: u32 where "MAX_FEED_RATE_OVERRIDE = 200"

definition DEFAULT_FEED_OVERRIDE :: u32 where "DEFAULT_FEED_OVERRIDE = 100"

definition DEFAULT_RAPID_OVERRIDE :: u32 where "DEFAULT_RAPID_OVERRIDE = 100"

text \<open>The macros \<^verbatim>\<open>min\<close> and \<^verbatim>\<open>max\<close> on floats: with a NaN they give the second argument.\<close>

definition fmin :: "f32 \<Rightarrow> f32 \<Rightarrow> f32" where
  "fmin a b = (if f32_less a b then a else b)"

definition fmax :: "f32 \<Rightarrow> f32 \<Rightarrow> f32" where
  "fmax a b = (if f32_less b a then a else b)"

text \<open>\<^verbatim>\<open>lroundf\<close>: halves are rounded away from zero; saturated.\<close>

definition f32_lround :: "f32 \<Rightarrow> i32" where
  "f32_lround v =
     (let m = (if 150 \<le> f32_scale v then f32_mant v * 2 ^ (f32_scale v - 150)
               else (f32_mant v + 2 ^ (149 - f32_scale v)) div 2 ^ (150 - f32_scale v))
      in if f32_is_nan v then 0
         else if f32_is_inf v \<or> 2 ^ 31 \<le> m then if f32_sign v then 0x80000000 else 0x7FFFFFFF
         else if f32_sign v then - of_nat m else of_nat m)"

definition prev_block :: "planner \<Rightarrow> nat \<Rightarrow> nat" where
  "prev_block s i = (if i = 0 then bb_size s else i - 1)"

definition next_block :: "planner \<Rightarrow> nat \<Rightarrow> nat" where
  "next_block s i = (if i = bb_size s then 0 else i + 1)"

definition upd_blk :: "nat \<Rightarrow> (plan_block \<Rightarrow> plan_block) \<Rightarrow> planner \<Rightarrow> planner" where
  "upd_blk i f s = s\<lparr>bb_blocks := (bb_blocks s)[i := f (bb_blocks s ! i)]\<rparr>"

definition upd_stm :: "(smem \<Rightarrow> smem) \<Rightarrow> planner \<Rightarrow> planner" where
  "upd_stm f s = s\<lparr>stm := f (stm s)\<rparr>"

definition pl_emit :: "plan_action list \<Rightarrow> planner \<Rightarrow> planner" where
  "pl_emit as s = s\<lparr>pl_out := pl_out s @ as\<rparr>"

section \<open>The stepper is told that its block is planned anew\<close>

text \<open>For a fast hold the ring of segments is cut off at the last segment that does not decelerate. The number of steps
  of the segment in execution is read through a pointer that may be null.\<close>

fun fast_hold_end :: "nat \<Rightarrow> nat \<Rightarrow> nat \<Rightarrow> smem \<Rightarrow> nat option" where
  "fast_hold_end 0 h head0 m = None"
| "fast_hold_end (Suc n) h head0 m =
     (if next_segment h \<noteq> head0 \<and> sg_ramp_type (segment_buffer m ! h) = Ramp_Decel
      then fast_hold_end n (next_segment h) head0 m else Some h)"

definition st_fast_hold :: "smem \<Rightarrow> smem option" where
  "st_fast_hold m =
     (if next_segment (segment_head m) \<noteq> segment_tail m then Some (m\<lparr>exec_fast_hold := False\<rparr>)
      else
        let h1 = next_segment (segment_tail m)
        in case (if step_count (st m) < 3 then Some True
                 else case exec_segment (st m) of
                        None \<Rightarrow> None
                      | Some x \<Rightarrow> Some (step_count (st m) < drop_bit 3 (sg_n_step (segment_buffer m ! x)))) of
             None \<Rightarrow> None
           | Some near \<Rightarrow>
               (case fast_hold_end SEGMENT_BUFFER_SIZE (if near then next_segment h1 else h1) (segment_head m) m of
                  None \<Rightarrow> None
                | Some h \<Rightarrow>
                    Some (upd_prep (\<lambda>p. p\<lparr>current_speed := sg_current_rate (segment_buffer m ! h)\<rparr>)
                            (m\<lparr>exec_fast_hold := True, segment_head := next_segment h\<rparr>))))"

definition update_plan_block :: "planner \<Rightarrow> planner" where
  "update_plan_block s =
     (case pl_block (stm s) of
        None \<Rightarrow> s
      | Some b \<Rightarrow>
          upd_stm (\<lambda>m. (upd_prep (\<lambda>p. p\<lparr>velocity_profile := True\<rparr>) m)\<lparr>pl_block := None\<rparr>)
            (upd_blk b (\<lambda>k. k\<lparr>entry_speed_sqr := f32_mul (current_speed (prep (stm s))) (current_speed (prep (stm s)))\<rparr>) s))"

definition st_update_plan_block_parameters :: "bool \<Rightarrow> planner \<Rightarrow> planner option" where
  "st_update_plan_block_parameters fast_hold s =
     (if fast_hold
      then (case st_fast_hold (stm s) of None \<Rightarrow> None | Some m \<Rightarrow> Some (update_plan_block (s\<lparr>stm := m\<rparr>)))
      else Some (update_plan_block s))"

section \<open>The look-ahead\<close>

text \<open>What a block can gain of squared speed, \<^verbatim>\<open>2.0f * acceleration * millimeters\<close>.\<close>

definition speed_gain :: "plan_block \<Rightarrow> f32" where
  "speed_gain k = f32_mul (f32_mul 0x40000000 (acceleration k)) (millimeters k)"

text \<open>The reverse pass: from the last block but one back to the one behind \<open>planned\<close>.\<close>

fun reverse_pass :: "nat \<Rightarrow> nat \<Rightarrow> nat \<Rightarrow> planner \<Rightarrow> planner option" where
  "reverse_pass 0 current block s = None"
| "reverse_pass (Suc n) current block s =
     (if block = bb_planned s then Some s
      else
        let nxt = current; current = block; block = prev_block s block;
            s1 = (if block = bb_tail s then update_plan_block s else s);
            c = bb_blocks s1 ! current;
            e = f32_add (entry_speed_sqr (bb_blocks s1 ! nxt)) (speed_gain c);
            s2 = (if f32_eq (entry_speed_sqr c) (max_entry_speed_sqr c) then s1
                  else upd_blk current (\<lambda>k. k\<lparr>entry_speed_sqr :=
                         if f32_less e (max_entry_speed_sqr c) then e else max_entry_speed_sqr c\<rparr>) s1)
        in reverse_pass n current block s2)"

text \<open>The forward pass: from \<open>planned\<close> to the last block.\<close>

fun forward_pass :: "nat \<Rightarrow> nat \<Rightarrow> nat \<Rightarrow> planner \<Rightarrow> planner option" where
  "forward_pass 0 nxt block s = None"
| "forward_pass (Suc n) nxt block s =
     (if block = bb_head s then Some s
      else
        let current = nxt; nxt = block; c = bb_blocks s ! current;
            e = f32_add (entry_speed_sqr c) (speed_gain c);
            s1 = (if f32_less (entry_speed_sqr c) (entry_speed_sqr (bb_blocks s ! nxt))
                    \<and> f32_less e (entry_speed_sqr (bb_blocks s ! nxt))
                  then (upd_blk nxt (\<lambda>k. k\<lparr>entry_speed_sqr := e\<rparr>) s)\<lparr>bb_planned := block\<rparr> else s);
            x = bb_blocks s1 ! nxt;
            s2 = (if f32_eq (entry_speed_sqr x) (max_entry_speed_sqr x) then s1\<lparr>bb_planned := block\<rparr> else s1)
        in forward_pass n nxt (next_block s2 block) s2)"

definition planner_recalculate :: "planner \<Rightarrow> planner option" where
  "planner_recalculate s =
     (let block = prev_block s (bb_head s); n = length (bb_blocks s)
      in if block = bb_planned s then Some s
         else
           let current = block;
               s1 = upd_blk current (\<lambda>k. k\<lparr>entry_speed_sqr := fmin (max_entry_speed_sqr k) (speed_gain k)\<rparr>) s;
               block = prev_block s1 block
           in case (if block = bb_planned s1
                    then Some (if block = bb_tail s1 then update_plan_block s1 else s1)
                    else reverse_pass n current block s1) of
                None \<Rightarrow> None
              | Some s2 \<Rightarrow> forward_pass n (bb_planned s2) (next_block s2 (bb_planned s2)) s2)"

section \<open>The ring of blocks\<close>

text \<open>The output commands of a block are freed one by one.\<close>

partial_function (option) gc_clear_output_commands ::
    "ptr option \<Rightarrow> (ptr \<Rightarrow> output_command option) \<Rightarrow> (ptr \<Rightarrow> output_command option) option" where
  "gc_clear_output_commands p cells =
     (case p of
        None \<Rightarrow> Some cells
      | Some a \<Rightarrow> (case cells a of None \<Rightarrow> None | Some c \<Rightarrow> gc_clear_output_commands (oc_next c) (cells(a := None))))"

declare gc_clear_output_commands.simps [code]

definition plan_cleanup :: "nat \<Rightarrow> planner \<Rightarrow> planner option" where
  "plan_cleanup i s =
     (let s1 = (case pb_message (bb_blocks s ! i) of
                  None \<Rightarrow> s
                | Some m \<Rightarrow> pl_emit [Free_message m] (upd_blk i (\<lambda>k. k\<lparr>pb_message := None\<rparr>) s))
      in case gc_clear_output_commands (pb_output_commands (bb_blocks s1 ! i)) (command_cells (stm s1)) of
           None \<Rightarrow> None
         | Some cells \<Rightarrow> Some (upd_stm (\<lambda>m. m\<lparr>command_cells := cells\<rparr>) s1))"

fun cleanup_all :: "nat \<Rightarrow> planner \<Rightarrow> planner option" where
  "cleanup_all 0 s = None"
| "cleanup_all (Suc n) s =
     (if bb_tail s = bb_head s then Some s
      else case plan_cleanup (bb_tail s) s of
             None \<Rightarrow> None
           | Some s1 \<Rightarrow> cleanup_all n (s1\<lparr>bb_tail := next_block s1 (bb_tail s1)\<rparr>))"

definition plan_reset_buffer :: "bool \<Rightarrow> planner \<Rightarrow> planner option" where
  "plan_reset_buffer init s =
     (case (if init then Some (s\<lparr>bb_linked := True\<rparr>) else cleanup_all (length (bb_blocks s)) s) of
        None \<Rightarrow> None
      | Some s1 \<Rightarrow>
          let s2 = s1\<lparr>bb_head := 0, bb_tail := 0, bb_planned := 0\<rparr> in Some (s2\<lparr>bb_next_head := next_block s2 0\<rparr>))"

definition plan_get_buffer_size :: "planner \<Rightarrow> nat" where
  "plan_get_buffer_size s = bb_size s"

text \<open>The buffer is allocated, if need be smaller than asked for.\<close>

function alloc_blocks :: "nat \<Rightarrow> bool list \<Rightarrow> nat \<times> bool \<times> bool list" where
  "alloc_blocks sz outcomes =
     (let (ok, rest) = malloc outcomes
      in if ok then (sz, True, rest)
         else if sz > 40 then alloc_blocks (sz - (if sz \<ge> 250 then 100 else 10)) rest
         else (sz, False, rest))"
  by pat_completeness auto
termination by (relation "measure fst") auto

definition plan_reset :: "plan_env \<Rightarrow> bool list \<Rightarrow> planner \<Rightarrow> (bool \<times> bool list \<times> planner) option" where
  "plan_reset e outcomes s =
     (let (rest, s1) =
        (if bb_blocks s = []
         then
           let (sz, ok, rest) = alloc_blocks (pe_buffer_blocks e) outcomes;
               s1 = (if ok then s\<lparr>bb_size := sz, bb_blocks := replicate (sz + 1) (pe_junk e), bb_linked := False\<rparr>
                     else s\<lparr>bb_size := sz\<rparr>)
           in (rest, if sz \<noteq> pe_buffer_blocks e then pl_emit [Buffer_reduced] s1 else s1)
         else (outcomes, s))
      in if bb_blocks s1 = [] then Some (False, rest, s1)
         else
           let s2 = s1\<lparr>pl_position := replicate N_AXIS 0, previous_unit_vec := replicate N_AXIS 0,
                       previous_nominal_speed := 0, actual_rpm := 0,
                       pl_feed_rate := sys_feed_rate s1, pl_rapid_rate := sys_rapid_rate s1\<rparr>
           in case plan_reset_buffer (\<not> bb_linked s2) s2 of None \<Rightarrow> None | Some s3 \<Rightarrow> Some (True, rest, s3))"

definition plan_discard_current_block :: "planner \<Rightarrow> planner option" where
  "plan_discard_current_block s =
     (if bb_tail s = bb_head s then Some s
      else case plan_cleanup (bb_tail s) s of
             None \<Rightarrow> None
           | Some s1 \<Rightarrow>
               let s2 = (if bb_tail s1 = bb_planned s1 then s1\<lparr>bb_planned := next_block s1 (bb_tail s1)\<rparr> else s1)
               in Some (s2\<lparr>bb_tail := next_block s2 (bb_tail s2)\<rparr>))"

definition plan_get_system_motion_block :: "planner \<Rightarrow> nat" where
  "plan_get_system_motion_block s = bb_head s"

definition plan_get_current_block :: "planner \<Rightarrow> nat option" where
  "plan_get_current_block s = (if bb_head s = bb_tail s then None else Some (bb_tail s))"

definition plan_get_recent_block :: "planner \<Rightarrow> nat option" where
  "plan_get_recent_block s = (if bb_head s = bb_tail s then None else Some (prev_block s (bb_head s)))"

definition plan_get_exec_block_exit_speed_sqr :: "planner \<Rightarrow> f32" where
  "plan_get_exec_block_exit_speed_sqr s =
     (let block = next_block s (bb_tail s) in if block = bb_head s then f32_0 else entry_speed_sqr (bb_blocks s ! block))"

definition plan_check_full_buffer :: "planner \<Rightarrow> bool" where
  "plan_check_full_buffer s \<longleftrightarrow> bb_tail s = bb_next_head s"

definition plan_get_block_buffer_available :: "planner \<Rightarrow> nat" where
  "plan_get_block_buffer_available s =
     (if bb_tail s \<le> bb_head s then bb_size s - (bb_head s - bb_tail s) else bb_tail s - bb_head s - 1)"

section \<open>Speeds\<close>

definition compute_nominal_speed :: "plan_block \<Rightarrow> u32 \<Rightarrow> u32 \<Rightarrow> f32 \<Rightarrow> f32" where
  "compute_nominal_speed k feed rapid v =
     (let c = pb_condition k;
          lim = (\<lambda>v. if f32_less (rapid_rate k) v then rapid_rate k else v);
          n = (if rapid_motion c then f32_mul v (f32_mul 0x3C23D70A (f32_of_u32 rapid))
               else lim (if feed \<noteq> 100 \<and> \<not> no_feed_override c
                         then f32_mul (lim v) (f32_mul 0x3C23D70A (f32_of_u32 feed)) else v))
      in if f32_less MINIMUM_FEED_RATE n then n else MINIMUM_FEED_RATE)"

definition plan_compute_profile_nominal_speed :: "plan_env \<Rightarrow> nat \<Rightarrow> planner \<Rightarrow> f32 \<times> planner" where
  "plan_compute_profile_nominal_speed e i s =
     (let k = bb_blocks s ! i; rpm = pe_rpm e (ps_hal (pb_spindle k))
      in if units_per_rev (pb_condition k) \<or> spindle_synchronized (pb_spindle k)
         then (compute_nominal_speed k (pl_feed_rate s) (pl_rapid_rate s) (f32_mul (programmed_rate k) rpm), s\<lparr>actual_rpm := rpm\<rparr>)
         else (compute_nominal_speed k (pl_feed_rate s) (pl_rapid_rate s) (programmed_rate k), s))"

definition limit_entry :: "f32 \<Rightarrow> f32 \<Rightarrow> plan_block \<Rightarrow> plan_block" where
  "limit_entry nominal prev k =
     (let m = (if f32_less prev nominal then f32_mul prev prev else f32_mul nominal nominal)
      in k\<lparr>max_entry_speed_sqr := if f32_less (max_junction_speed_sqr k) m then max_junction_speed_sqr k else m\<rparr>)"

definition plan_compute_profile_parameters :: "nat \<Rightarrow> f32 \<Rightarrow> f32 \<Rightarrow> planner \<Rightarrow> f32 \<times> planner" where
  "plan_compute_profile_parameters i nominal prev s = (nominal, upd_blk i (limit_entry nominal prev) s)"

text \<open>The largest value along a direction such that no axis exceeds its own, for acceleration and for speed. Axes
  are visited from the last to the first.\<close>

fun limit_by_axis_maximum :: "f32 list \<Rightarrow> f32 list \<Rightarrow> nat \<Rightarrow> f32 \<Rightarrow> f32" where
  "limit_by_axis_maximum lims vec 0 v = v"
| "limit_by_axis_maximum lims vec (Suc idx) v =
     limit_by_axis_maximum lims vec idx
       (if \<not> f32_eq (vec ! idx) 0 then fmin v (f32_abs (f32_div (lims ! idx) (vec ! idx))) else v)"

definition limit_acceleration_by_axis_maximum :: "plan_env \<Rightarrow> f32 list \<Rightarrow> f32" where
  "limit_acceleration_by_axis_maximum e vec = limit_by_axis_maximum (pe_acceleration e) vec N_AXIS SOME_LARGE_VALUE"

definition limit_max_rate_by_axis_maximum :: "plan_env \<Rightarrow> f32 list \<Rightarrow> f32" where
  "limit_max_rate_by_axis_maximum e vec = limit_by_axis_maximum (pe_max_rate e) vec N_AXIS SOME_LARGE_VALUE"

text \<open>\<^verbatim>\<open>convert_delta_vector_to_unit_vector\<close> of \<^verbatim>\<open>grbl/nuts_bolts.c\<close>.\<close>

fun sum_of_squares :: "f32 list \<Rightarrow> nat \<Rightarrow> f32 \<Rightarrow> f32" where
  "sum_of_squares vec 0 v = v"
| "sum_of_squares vec (Suc idx) v =
     sum_of_squares vec idx (if \<not> f32_eq (vec ! idx) 0 then f32_add v (f32_mul (vec ! idx) (vec ! idx)) else v)"

definition convert_delta_vector_to_unit_vector :: "plan_env \<Rightarrow> f32 list \<Rightarrow> f32 \<times> f32 list" where
  "convert_delta_vector_to_unit_vector e vec =
     (let magnitude = pe_sqrtf e (sum_of_squares vec N_AXIS f32_0); inv = f32_div f32_1 magnitude
      in (magnitude, map (\<lambda>x. f32_mul x inv) vec))"

section \<open>A line is added\<close>

text \<open>What one axis contributes: its target in steps, and the steps to it.\<close>

definition axis_target :: "plan_env \<Rightarrow> f32 list \<Rightarrow> nat \<Rightarrow> i32" where
  "axis_target e target i = f32_lround (f32_mul (target ! i) (pe_steps_per_mm e ! i))"

definition axis_delta :: "plan_env \<Rightarrow> f32 list \<Rightarrow> i32 list \<Rightarrow> nat \<Rightarrow> i32" where
  "axis_delta e target pos i = axis_target e target i - pos ! i"

definition labs :: "i32 \<Rightarrow> u32" where
  "labs d = (if sint d < 0 then - d else d)"

definition direction_bits :: "(nat \<Rightarrow> i32) \<Rightarrow> u8 \<Rightarrow> u8" where
  "direction_bits delta dir =
     foldr (\<lambda>i d. if delta i = 0 then d else if sint (delta i) < 0 then d OR push_bit i 1 else d AND NOT (push_bit i 1))
       [0..<N_AXIS] dir"

text \<open>The speed of the spindle at one position of the tool, for constant surface speed.\<close>

definition css_rpm :: "css_data \<Rightarrow> f32 \<Rightarrow> f32" where
  "css_rpm c pos =
     (if f32_less 0 pos
      then let rpm = f32_div (css_surface_speed c) (f32_mul pos 0x40C90FDB)
           in if f32_less (css_max_rpm c) rpm then css_max_rpm c else rpm
      else css_max_rpm c)"

definition css_plan :: "plan_env \<Rightarrow> f32 list \<Rightarrow> i32 list \<Rightarrow> css_data \<Rightarrow> f32 \<times> css_data" where
  "css_plan e target pos c =
     (let a = css_axis c;
          rpm = css_rpm c (f32_sub (f32_div (f32_of_i32 (pos ! a)) (pe_steps_per_mm e ! a)) (css_tool_offset c));
          to = css_rpm c (f32_sub (target ! a) (css_tool_offset c))
      in (rpm, c\<lparr>css_target_rpm := to, css_delta_rpm := f32_sub to rpm\<rparr>))"

text \<open>The speed at a junction: from the angle between the directions of two lines.\<close>

fun junction_cos :: "f32 list \<Rightarrow> f32 list \<Rightarrow> nat \<Rightarrow> f32 \<Rightarrow> f32" where
  "junction_cos prev vec 0 v = v"
| "junction_cos prev vec (Suc idx) v = junction_cos prev vec idx (f32_sub v (f32_mul (prev ! idx) (vec ! idx)))"

definition junction_speed_sqr :: "plan_env \<Rightarrow> f32 list \<Rightarrow> f32 list \<Rightarrow> f32" where
  "junction_speed_sqr e prev vec =
     (let c = junction_cos prev vec N_AXIS f32_0; m = f32_mul MINIMUM_JUNCTION_SPEED MINIMUM_JUNCTION_SPEED
      in if f32_less 0x3F7FFFEF c then m
         else if f32_less c 0xBF7FFFEF then SOME_LARGE_VALUE
         else
           let (_, jvec) = convert_delta_vector_to_unit_vector e (map2 f32_sub vec prev);
               a = limit_acceleration_by_axis_maximum e jvec;
               h = pe_sqrtf e (f32_mul 0x3F000000 (f32_sub f32_1 c))
           in fmax m (f32_div (f32_mul (f32_mul a (pe_junction_deviation e)) h) (f32_sub f32_1 h)))"

text \<open>The block that is written at the head of the ring, first without its speeds, then with them.\<close>

definition new_block :: "plan_env \<Rightarrow> f32 list \<Rightarrow> plan_line_data \<Rightarrow> i32 list \<Rightarrow> u8 \<Rightarrow> f32 option \<Rightarrow> plan_block" where
  "new_block e target pd pos dir rpm =
     (let steps = map (\<lambda>i. labs (axis_delta e target pos i)) [0..<N_AXIS]
      in \<lparr>pb_steps = steps, pb_step_event_count = foldr max steps 0, pb_direction = dir, pb_offset_id = pd_offset_id pd,
          pb_overrides = pd_overrides pd, pb_condition = pd_condition pd, pb_line_number = pd_line_number pd,
          pb_target_mm = target, entry_speed_sqr = 0, max_entry_speed_sqr = 0, acceleration = 0, millimeters = 0,
          max_junction_speed_sqr = 0, rapid_rate = 0, programmed_rate = 0,
          pb_spindle = (case rpm of None \<Rightarrow> pd_spindle pd | Some r \<Rightarrow> (pd_spindle pd)\<lparr>ps_rpm := r\<rparr>),
          pb_message = pd_message pd, pb_output_commands = pd_output_commands pd\<rparr>)"

definition unit_numerators :: "plan_env \<Rightarrow> f32 list \<Rightarrow> i32 list \<Rightarrow> f32 list" where
  "unit_numerators e target pos =
     map (\<lambda>i. if axis_delta e target pos i = 0 then f32_0
              else f32_div (f32_of_i32 (axis_delta e target pos i)) (pe_steps_per_mm e ! i)) [0..<N_AXIS]"

definition block_speeds :: "plan_env \<Rightarrow> plan_line_data \<Rightarrow> bool \<Rightarrow> f32 list \<Rightarrow> f32 \<Rightarrow> f32 list \<Rightarrow> plan_block \<Rightarrow> plan_block" where
  "block_speeds e pd from_rest prev mm vec k =
     (let c = pb_condition k; rapid = limit_max_rate_by_axis_maximum e vec;
          rate = (if rapid_motion c then rapid
                  else if inverse_time c then f32_mul (pd_feed_rate pd) mm else pd_feed_rate pd)
      in k\<lparr>millimeters := mm, acceleration := limit_acceleration_by_axis_maximum e vec, rapid_rate := rapid,
           programmed_rate := rate, max_junction_speed_sqr := if from_rest then f32_0 else junction_speed_sqr e prev vec\<rparr>)"

definition plan_buffer_line :: "plan_env \<Rightarrow> f32 list \<Rightarrow> plan_line_data \<Rightarrow> planner \<Rightarrow> (bool \<times> plan_line_data \<times> planner) option" where
  "plan_buffer_line e target pd s =
     (let b = bb_head s; sys_motion = system_motion (pd_condition pd);
          pos = (if sys_motion then position (stm s) else pl_position s);
          dir = direction_bits (axis_delta e target pos) (pl_direction s);
          use_css = ps_css (pd_spindle pd);
          (rpm, c) = css_plan e target pos (css s);
          k = new_block e target pd pos dir (if use_css then Some rpm else None);
          s1 = upd_blk b (\<lambda>_. k) (s\<lparr>pl_direction := dir, css := if use_css then c else css s\<rparr>)
      in if pb_step_event_count k = 0 then Some (False, pd, s1)
         else
           let pd1 = pd\<lparr>pd_message := None, pd_output_commands := None\<rparr>;
               (mm, vec) = convert_delta_vector_to_unit_vector e (unit_numerators e target pos);
               s2 = upd_blk b (block_speeds e pd (bb_head s1 = bb_tail s1 \<or> sys_motion) (previous_unit_vec s1) mm vec) s1
           in if sys_motion then Some (True, pd1, s2)
              else
                let (nominal, s3) = plan_compute_profile_nominal_speed e b s2;
                    (nominal, s4) = plan_compute_profile_parameters b nominal (previous_nominal_speed s3) s3;
                    s5 = s4\<lparr>previous_nominal_speed := nominal\<rparr>;
                    s6 = (if backlash_motion (pd_condition pd) then s5
                          else s5\<lparr>previous_unit_vec := vec, pl_position := map (axis_target e target) [0..<N_AXIS]\<rparr>);
                    s7 = s6\<lparr>bb_head := bb_next_head s6\<rparr>;
                    s8 = s7\<lparr>bb_next_head := next_block s7 (bb_head s7)\<rparr>
                in case planner_recalculate s8 of None \<Rightarrow> None | Some s9 \<Rightarrow> Some (True, pd1, s9))"

definition plan_get_position :: "plan_env \<Rightarrow> planner \<Rightarrow> f32 list" where
  "plan_get_position e s = map (\<lambda>i. f32_div (f32_of_i32 (pl_position s ! i)) (pe_steps_per_mm e ! i)) [0..<N_AXIS]"

definition plan_sync_position :: "planner \<Rightarrow> planner" where
  "plan_sync_position s = s\<lparr>pl_position := position (stm s)\<rparr>"

section \<open>The plan is made anew\<close>

definition plan_cycle_reinitialize :: "planner \<Rightarrow> planner option" where
  "plan_cycle_reinitialize s =
     (let s1 = update_plan_block s; s2 = s1\<lparr>bb_planned := bb_tail s1\<rparr>
      in if bb_planned s2 \<noteq> bb_head s2 then planner_recalculate s2 else Some s2)"

fun update_profiles :: "nat \<Rightarrow> plan_env \<Rightarrow> nat \<Rightarrow> f32 \<Rightarrow> planner \<Rightarrow> (f32 \<times> planner) option" where
  "update_profiles 0 e block prev s = None"
| "update_profiles (Suc n) e block prev s =
     (if block = bb_head s then Some (prev, s)
      else
        let (nominal, s1) = plan_compute_profile_nominal_speed e block s;
            (prev, s2) = plan_compute_profile_parameters block nominal prev s1
        in update_profiles n e (next_block s2 block) prev s2)"

definition plan_update_velocity_profile_parameters :: "plan_env \<Rightarrow> planner \<Rightarrow> (bool \<times> planner) option" where
  "plan_update_velocity_profile_parameters e s =
     (if bb_tail s = bb_head s then Some (False, s)
      else case update_profiles (length (bb_blocks s)) e (bb_tail s) SOME_LARGE_VALUE s of
             None \<Rightarrow> None
           | Some (prev, s1) \<Rightarrow> Some (True, s1\<lparr>previous_nominal_speed := prev\<rparr>))"

definition update_and_reinitialize :: "plan_env \<Rightarrow> planner \<Rightarrow> planner option" where
  "update_and_reinitialize e s =
     (case plan_update_velocity_profile_parameters e s of
        None \<Rightarrow> None
      | Some (moving, s1) \<Rightarrow> if moving then plan_cycle_reinitialize s1 else Some s1)"

definition plan_sync_velocity :: "plan_env \<Rightarrow> nat \<Rightarrow> planner \<Rightarrow> planner option" where
  "plan_sync_velocity e block s =
     (let rpm = pe_rpm e (ps_hal (pb_spindle (bb_blocks s ! block)))
      in if \<not> f32_eq (actual_rpm s) rpm then update_and_reinitialize e (s\<lparr>actual_rpm := rpm\<rparr>)
         else Some (pl_emit [Sync_velocity_delayed block] s))"

text \<open>The static \<^verbatim>\<open>_plan_feed_override\<close>.\<close>

definition set_feed_override :: "plan_env \<Rightarrow> u32 \<Rightarrow> u32 \<Rightarrow> planner \<Rightarrow> planner option" where
  "set_feed_override e feed rapid s =
     (let feed_changed = (feed \<noteq> pl_feed_rate s); rapid_changed = (\<not> feed_changed \<and> rapid \<noteq> pl_rapid_rate s)
      in if feed_changed \<or> rapid_changed
         then
           case update_and_reinitialize e (s\<lparr>pl_feed_rate := feed, pl_rapid_rate := rapid\<rparr>) of
             None \<Rightarrow> None
           | Some s1 \<Rightarrow>
               Some (pl_emit ((if feed_changed then [Feed_override_changed] else []) @
                              (if rapid_changed then [Rapid_override_changed] else [])) s1)
         else Some s)"

definition constrain :: "u32 \<Rightarrow> u32 \<Rightarrow> u32 \<Rightarrow> u32" where
  "constrain v lo hi = (if v < lo then lo else if hi < v then hi else v)"

definition plan_feed_override :: "plan_env \<Rightarrow> u32 \<Rightarrow> u32 \<Rightarrow> planner \<Rightarrow> planner option" where
  "plan_feed_override e feed rapid s =
     (let feed = (if feed = 0 then sys_feed_rate s else constrain feed MIN_FEED_RATE_OVERRIDE MAX_FEED_RATE_OVERRIDE);
          rapid = (if rapid = 0 then sys_rapid_rate s else constrain rapid 5 100);
          s1 = (if feed \<noteq> sys_feed_rate s \<or> rapid \<noteq> sys_rapid_rate s
                then pl_emit [Report_overrides] (s\<lparr>sys_feed_rate := feed, sys_rapid_rate := rapid\<rparr>) else s)
      in if feed_rates_disable s1 then set_feed_override e DEFAULT_FEED_OVERRIDE DEFAULT_RAPID_OVERRIDE s1
         else set_feed_override e (sys_feed_rate s1) (sys_rapid_rate s1) s1)"

text \<open>Data for a line: empty but for the state it is given.\<close>

definition plan_data_init :: "u8 \<Rightarrow> ptr \<Rightarrow> planner \<Rightarrow> plan_line_data" where
  "plan_data_init offset hal s =
     \<lparr>pd_feed_rate = 0, pd_spindle = \<lparr>ps_state = 0, ps_css = False, ps_rpm = 0, ps_hal = hal\<rparr>,
      pd_condition = \<lparr>rapid_motion = False, system_motion = False, jog_motion = False, backlash_motion = False,
        no_feed_override = feed_rates_disable s, inverse_time = False, units_per_rev = False,
        is_rpm_rate_adjusted = False, is_laser_ppi_mode = False, cond_coolant = 0\<rparr>,
      pd_overrides = 0, pd_offset_id = offset, pd_line_number = 0, pd_message = None, pd_output_commands = None\<rparr>"

end
