(* ===== verification/Plan_spec.thy ===== *)
theory Plan_spec
  imports Float_order
begin

text \<open>
  What the look-ahead of the planner promises, over an order of speeds. A queued block is a pair: the largest speed at
  which it may be entered and what its length allows to gain; \<open>reach v d\<close> is the speed that can be reached from \<open>v\<close>
  with the gain \<open>d\<close>. Speeds are squared in the code, so that \<open>reach\<close> is addition. The reference is the
  planning of all blocks in two passes.
\<close>

section \<open>Two passes\<close>

text \<open>Behind the last block the machine rests.\<close>

fun exit_of :: "'v \<Rightarrow> 'v list \<Rightarrow> 'v" where
  "exit_of rest [] = rest"
| "exit_of rest (v # vs) = v"

text \<open>The speeds from which the machine can still slow down.\<close>

fun backward :: "('v::linorder \<Rightarrow> 'v \<Rightarrow> 'v) \<Rightarrow> 'v \<Rightarrow> ('v \<times> 'v) list \<Rightarrow> 'v list" where
  "backward reach rest [] = []"
| "backward reach rest ((m, d) # bs) =
     (let rs = backward reach rest bs in min m (reach (exit_of rest rs) d) # rs)"

text \<open>Of these, what can be reached from the speed \<open>v\<close> at the start of a block with the gain \<open>d\<close>.\<close>

fun forward :: "('v::linorder \<Rightarrow> 'v \<Rightarrow> 'v) \<Rightarrow> 'v \<Rightarrow> 'v \<Rightarrow> ('v \<times> 'v) list \<Rightarrow> 'v list \<Rightarrow> 'v list" where
  "forward reach v d ((m, d1) # bs) (r # rs) =
     (let w = min r (reach v d) in w # forward reach w d1 bs rs)"
| "forward reach v d bs rs = []"

definition two_pass :: "('v::linorder \<Rightarrow> 'v \<Rightarrow> 'v) \<Rightarrow> 'v \<Rightarrow> 'v \<Rightarrow> 'v \<Rightarrow> ('v \<times> 'v) list \<Rightarrow> 'v list" where
  "two_pass reach rest v d bs = forward reach v d bs (backward reach rest bs)"

text \<open>Entry speeds that the machine can follow: no junction is entered too fast, each speed can be reached from the one
  before, and from each the next one can be reached by slowing down.\<close>

fun feasible :: "('v::linorder \<Rightarrow> 'v \<Rightarrow> 'v) \<Rightarrow> 'v \<Rightarrow> 'v \<Rightarrow> 'v \<Rightarrow> ('v \<times> 'v) list \<Rightarrow> 'v list \<Rightarrow> bool" where
  "feasible reach rest v d [] [] \<longleftrightarrow> True"
| "feasible reach rest v d ((m, d1) # bs) (w # ws) \<longleftrightarrow>
     w \<le> m \<and> w \<le> reach v d \<and> w \<le> reach (exit_of rest ws) d1 \<and> feasible reach rest w d1 bs ws"
| "feasible reach rest v d bs ws \<longleftrightarrow> False"

section \<open>The planner's passes\<close>

text \<open>The reverse pass of the code, which does not compute the speed of a block that is at its maximum, and its forward
  pass, which moves the index of the last block that is planned for good. A block is its speed and its two limits.\<close>

fun reverse_speeds :: "('v::linorder \<Rightarrow> 'v \<Rightarrow> 'v) \<Rightarrow> ('v \<times> 'v \<times> 'v) list \<Rightarrow> 'v list" where
  "reverse_speeds reach [] = []"
| "reverse_speeds reach [(e, m, d)] = [min m d]"
| "reverse_speeds reach ((e, m, d) # x # xs) =
     (let rs = reverse_speeds reach (x # xs) in (if e = m then e else min m (reach (hd rs) d)) # rs)"

fun forward_planned :: "('v::linorder \<Rightarrow> 'v \<Rightarrow> 'v) \<Rightarrow> 'v \<Rightarrow> 'v \<Rightarrow> ('v \<times> 'v) list \<Rightarrow> 'v list \<Rightarrow> nat \<Rightarrow> nat \<Rightarrow> nat" where
  "forward_planned reach v d ((m, d1) # bs) (r # rs) i p =
     (let short = (v < r \<and> reach v d < r); w = (if short then reach v d else r)
      in forward_planned reach w d1 bs rs (Suc i) (if w = m \<or> short then i else p))"
| "forward_planned reach v d bs rs i p = p"

text \<open>The speed and the gain before the block with an index.\<close>

definition before :: "'v \<Rightarrow> 'v list \<Rightarrow> nat \<Rightarrow> 'v" where
  "before v ws k = (v # ws) ! k"

lemma before_simps [simp]: "before v ws 0 = v" "before v ws (Suc k) = ws ! k" "before v (w # ws) (Suc k) = before w ws k"
  by (simp_all add: before_def)

text \<open>The first \<open>n\<close> speeds stay the same, whatever blocks are added.\<close>

definition settled :: "('v \<Rightarrow> bool) \<Rightarrow> ('v::linorder \<Rightarrow> 'v \<Rightarrow> 'v) \<Rightarrow> 'v \<Rightarrow> 'v \<Rightarrow> 'v \<Rightarrow> ('v \<times> 'v) list \<Rightarrow> nat \<Rightarrow> bool" where
  "settled speed reach rest v d bs n \<longleftrightarrow>
     (\<forall>cs. (\<forall>(m, g)\<in>set cs. speed m \<and> speed g) \<longrightarrow>
        take n (two_pass reach rest v d (bs @ cs)) = take n (two_pass reach rest v d bs))"

lemma length_backward [simp]: "length (backward reach rest bs) = length bs"
  by (induction bs) (auto simp: Let_def)

lemma length_forward: "length rs = length bs \<Longrightarrow> length (forward reach v d bs rs) = length bs"
proof (induction bs arbitrary: v d rs)
  case (Cons b bs)
  then show ?case by (cases b; cases rs) (simp_all add: Let_def)
qed simp

lemma length_two_pass [simp]: "length (two_pass reach rest v d bs) = length bs"
  by (simp add: two_pass_def length_forward)

lemma backward_drop: "backward reach rest (drop k bs) = drop k (backward reach rest bs)"
proof (induction bs arbitrary: k)
  case (Cons b bs)
  then show ?case by (cases b; cases k) (simp_all add: Let_def)
qed simp

lemma backward_nth:
  assumes "k < length bs"
  shows "backward reach rest bs ! k =
    min (fst (bs ! k)) (reach (exit_of rest (drop (Suc k) (backward reach rest bs))) (snd (bs ! k)))"
  using assms
proof (induction bs arbitrary: k)
  case (Cons b bs)
  then show ?case by (cases b; cases k) (simp_all add: Let_def)
qed simp

lemma forward_nth:
  assumes "k < length bs" "length rs = length bs"
  shows "forward reach v d bs rs ! k =
    min (rs ! k) (reach (before v (forward reach v d bs rs) k) (before d (map snd bs) k))"
  using assms
proof (induction bs arbitrary: k v d rs)
  case (Cons b bs)
  then show ?case by (cases b; cases rs; cases k) (simp_all add: Let_def before_def)
qed simp

lemma two_pass_nth:
  "k < length bs \<Longrightarrow> two_pass reach rest v d bs ! k =
    min (backward reach rest bs ! k) (reach (before v (two_pass reach rest v d bs) k) (before d (map snd bs) k))"
  unfolding two_pass_def by (rule forward_nth) simp_all

lemma forward_drop:
  assumes "k < length bs" "length rs = length bs"
  shows "drop (Suc k) (forward reach v d bs rs) =
    forward reach (forward reach v d bs rs ! k) (snd (bs ! k)) (drop (Suc k) bs) (drop (Suc k) rs)"
  using assms
proof (induction bs arbitrary: k v d rs)
  case (Cons b bs)
  then show ?case by (cases b; cases rs; cases k) (simp_all add: Let_def before_def)
qed simp

lemma two_pass_drop:
  assumes "k < length bs"
  shows "drop (Suc k) (two_pass reach rest v d bs) =
    two_pass reach rest (two_pass reach rest v d bs ! k) (snd (bs ! k)) (drop (Suc k) bs)"
  using assms unfolding two_pass_def by (simp add: forward_drop backward_drop)

lemma exit_of_nth: "exit_of rest vs = (if vs = [] then rest else vs ! 0)"
  by (cases vs) simp_all

lemma settled_0 [simp]: "settled speed reach rest v d bs 0"
  by (simp add: settled_def)

section \<open>The interface of speeds\<close>

locale speeds =
  fixes speed :: "'v::linorder \<Rightarrow> bool" and rest :: 'v and reach :: "'v \<Rightarrow> 'v \<Rightarrow> 'v"
  assumes speed_rest: "speed rest"
    and rest_le: "speed v \<Longrightarrow> rest \<le> v"
    and speed_reach: "speed v \<Longrightarrow> speed d \<Longrightarrow> speed (reach v d)"
    and reach_ge: "speed v \<Longrightarrow> speed d \<Longrightarrow> v \<le> reach v d"
    and reach_mono: "speed v \<Longrightarrow> speed w \<Longrightarrow> speed d \<Longrightarrow> v \<le> w \<Longrightarrow> reach v d \<le> reach w d"
    and reach_rest: "speed d \<Longrightarrow> reach rest d = d"
begin

abbreviation backs :: "('v \<times> 'v) list \<Rightarrow> 'v list" where
  "backs \<equiv> backward reach rest"

abbreviation plan :: "'v \<Rightarrow> 'v \<Rightarrow> ('v \<times> 'v) list \<Rightarrow> 'v list" where
  "plan \<equiv> two_pass reach rest"

definition good :: "('v \<times> 'v) list \<Rightarrow> bool" where
  "good bs \<longleftrightarrow> (\<forall>(m, g)\<in>set bs. speed m \<and> speed g)"

lemma good_simps [simp]: "good []" "good ((m, g) # bs) \<longleftrightarrow> speed m \<and> speed g \<and> good bs" "good (bs @ cs) \<longleftrightarrow> good bs \<and> good cs"
  by (auto simp: good_def)

lemma good_nth: "good bs \<Longrightarrow> k < length bs \<Longrightarrow> speed (fst (bs ! k)) \<and> speed (snd (bs ! k))"
  unfolding good_def using nth_mem by fastforce

lemma good_drop: "good bs \<Longrightarrow> good (drop k bs)"
  unfolding good_def by (auto dest: in_set_dropD)

lemma speed_min: "speed a \<Longrightarrow> speed b \<Longrightarrow> speed (min a b)"
  by (simp add: min_def)

lemma back_speed: "good bs \<Longrightarrow> \<forall>r\<in>set (backs bs). speed r"
proof (induction bs)
  case (Cons b bs)
  moreover have "speed (exit_of rest (backs bs))" using Cons speed_rest by (cases "backs bs"; cases b) auto
  ultimately show ?case by (cases b) (auto simp: Let_def speed_min speed_reach)
qed simp

lemma back_nth_speed: "good bs \<Longrightarrow> k < length bs \<Longrightarrow> speed (backs bs ! k)"
  using back_speed [of bs] nth_mem [of k "backs bs"] by simp

lemma forward_speed:
  assumes "good bs" "length rs = length bs" "\<forall>r\<in>set rs. speed r" "speed v" "speed d"
  shows "\<forall>w\<in>set (forward reach v d bs rs). speed w"
  using assms
proof (induction bs arbitrary: v d rs)
  case (Cons b bs)
  obtain m g where b: "b = (m, g)" by (cases b)
  obtain r rs' where rs: "rs = r # rs'" using Cons.prems(2) by (cases rs) simp_all
  have w: "speed (min r (reach v d))" using Cons.prems by (intro speed_min speed_reach) (simp_all add: rs)
  have "\<forall>w\<in>set (forward reach (min r (reach v d)) g bs rs'). speed w"
    by (rule Cons.IH [OF _ _ _ w]) (use Cons.prems in \<open>simp_all add: b rs\<close>)
  with w show ?case unfolding b rs by (simp add: Let_def del: min_less_iff_conj)
qed simp

lemma plan_speeds: "good bs \<Longrightarrow> speed v \<Longrightarrow> speed d \<Longrightarrow> \<forall>w\<in>set (plan v d bs). speed w"
  unfolding two_pass_def by (rule forward_speed [OF _ length_backward back_speed])

lemma plan_speed: "good bs \<Longrightarrow> speed v \<Longrightarrow> speed d \<Longrightarrow> k < length bs \<Longrightarrow> speed (plan v d bs ! k)"
  using plan_speeds [of bs v d] nth_mem [of k "plan v d bs"] by (simp only: length_two_pass)

lemma before_plan_speed:
  assumes "good bs" "speed v" "speed d" "k < length bs"
  shows "speed (before v (plan v d bs) k)" "speed (before d (map snd bs) k)"
proof -
  show "speed (before v (plan v d bs) k)"
  proof (cases k)
    case (Suc j)
    then show ?thesis using assms(4) plan_speed [OF assms(1-3), of j] by simp
  qed (simp add: assms(2))
  show "speed (before d (map snd bs) k)"
  proof (cases k)
    case (Suc j)
    then show ?thesis using assms(4) good_nth [OF assms(1), of j] by simp
  qed (simp add: assms(3))
qed

lemma le_reach_min: "x \<le> reach a d \<Longrightarrow> x \<le> reach b d \<Longrightarrow> x \<le> reach (min a b) d"
  by (simp add: min_def)

section \<open>The plan is feasible, and the fastest\<close>

lemma feasible_forward:
  "good bs \<Longrightarrow> speed v \<Longrightarrow> speed d \<Longrightarrow> feasible reach rest v d bs (forward reach v d bs (backs bs))"
proof (induction bs arbitrary: v d)
  case (Cons b bs)
  obtain m g where b: "b = (m, g)" by (cases b)
  let ?rs = "backs bs"
  let ?r = "min m (reach (exit_of rest ?rs) g)"
  let ?w = "min ?r (reach v d)"
  let ?ws = "forward reach ?w g bs ?rs"
  have s: "speed m" "speed g" "good bs" using Cons.prems(1) by (simp_all add: b)
  have ex: "speed (exit_of rest ?rs)" using back_speed [OF s(3)] speed_rest by (cases ?rs) simp_all
  have w: "speed ?w" using s ex Cons.prems by (simp add: speed_min speed_reach)
  have "feasible reach rest ?w g bs ?ws" using Cons.IH s w by simp
  moreover have "?w \<le> reach (exit_of rest ?ws) g"
  proof (cases bs)
    case Nil
    then show ?thesis by (simp add: min_le_iff_disj)
  next
    case (Cons c cs)
    obtain m1 g1 where c: "c = (m1, g1)" by (cases c)
    define r where "r = min m1 (reach (exit_of rest (backs cs)) g1)"
    have r: "?rs = r # backs cs" by (simp add: Cons c r_def Let_def)
    have e: "exit_of rest ?ws = min r (reach ?w g)" unfolding r by (simp add: Cons c Let_def)
    have "?w \<le> reach r g" unfolding r by (simp add: min_le_iff_disj)
    moreover have "?w \<le> reach (reach ?w g) g"
      using reach_ge [OF w s(2)] reach_ge [OF speed_reach [OF w s(2)] s(2)] by (rule order_trans)
    ultimately show ?thesis unfolding e by (rule le_reach_min)
  qed
  ultimately show ?case by (simp add: b Let_def min_le_iff_disj)
qed simp

lemma plan_feasible: "good bs \<Longrightarrow> speed v \<Longrightarrow> speed d \<Longrightarrow> feasible reach rest v d bs (plan v d bs)"
  unfolding two_pass_def by (rule feasible_forward)

lemma feasible_length: "feasible reach rest v d bs ws \<Longrightarrow> length ws = length bs"
proof (induction bs arbitrary: v d ws)
  case Nil
  then show ?case by (cases ws) simp_all
next
  case (Cons b bs)
  then show ?case by (cases b; cases ws) auto
qed

lemma feasible_back:
  assumes "good bs" "\<forall>w\<in>set ws. speed w" "feasible reach rest v d bs ws"
  shows "list_all2 (\<le>) ws (backs bs)"
  using assms
proof (induction bs arbitrary: v d ws)
  case Nil
  then show ?case by (cases ws) simp_all
next
  case (Cons b bs)
  obtain m g where b: "b = (m, g)" by (cases b)
  obtain w us where ws: "ws = w # us" using Cons.prems(3) by (cases ws) (simp_all add: b)
  note f = Cons.prems(3) [unfolded b ws, simplified]
  have le: "list_all2 (\<le>) us (backs bs)" using Cons.IH [of us w g] Cons.prems f by (simp add: b ws)
  have "exit_of rest us \<le> exit_of rest (backs bs)" using le speed_rest by (cases us; cases "backs bs") simp_all
  moreover have "speed (exit_of rest us)" "speed (exit_of rest (backs bs))"
    using Cons.prems(2) speed_rest back_speed [of bs] Cons.prems(1) by (cases us; cases "backs bs"; simp add: ws b)+
  ultimately have "reach (exit_of rest us) g \<le> reach (exit_of rest (backs bs)) g"
    using Cons.prems(1) by (intro reach_mono) (simp_all add: b)
  then show ?case using f le by (auto simp: b ws Let_def)
qed

lemma feasible_le_forward:
  assumes "good bs" "speed v" "speed v'" "speed d" "v \<le> v'" "\<forall>w\<in>set ws. speed w" "feasible reach rest v d bs ws"
    "length rs = length bs" "\<forall>r\<in>set rs. speed r" "list_all2 (\<le>) ws rs"
  shows "list_all2 (\<le>) ws (forward reach v' d bs rs)"
  using assms
proof (induction bs arbitrary: v v' d ws rs)
  case Nil
  then show ?case by (cases ws) simp_all
next
  case (Cons b bs)
  obtain m g where b: "b = (m, g)" by (cases b)
  obtain w us where ws: "ws = w # us" using Cons.prems(7) by (cases ws) (simp_all add: b)
  obtain r rs' where rs: "rs = r # rs'" using Cons.prems(8) by (cases rs) simp_all
  note f = Cons.prems(7) [unfolded b ws, simplified]
  let ?w = "min r (reach v' d)"
  have "w \<le> r" using Cons.prems(10) by (simp add: ws rs)
  moreover have "reach v d \<le> reach v' d" using Cons.prems by (intro reach_mono)
  ultimately have le: "w \<le> ?w" using f by (auto intro: order_trans)
  have "list_all2 (\<le>) us (forward reach ?w g bs rs')"
    by (rule Cons.IH [of w]) (use Cons.prems f le in \<open>auto simp: b ws rs speed_min speed_reach\<close>)
  then show ?case using le by (simp add: b ws rs Let_def)
qed

lemma plan_fastest:
  assumes "good bs" "speed v" "speed d" "\<forall>w\<in>set ws. speed w" "feasible reach rest v d bs ws"
  shows "list_all2 (\<le>) ws (plan v d bs)"
  unfolding two_pass_def
  by (rule feasible_le_forward [OF assms(1,2,2,3) order_refl assms(4,5)])
    (use feasible_back [OF assms(1,4,5)] back_speed [OF assms(1)] in simp_all)

section \<open>What added blocks leave as it is\<close>

lemma back_append:
  assumes "good bs" "good cs"
  shows "k < length bs \<Longrightarrow> backs bs ! k \<le> backs (bs @ cs) ! k"
  using assms(1)
proof (induction bs arbitrary: k)
  case (Cons b bs)
  obtain m g where b: "b = (m, g)" by (cases b)
  have "exit_of rest (backs bs) \<le> exit_of rest (backs (bs @ cs))"
  proof (cases bs)
    case Nil
    have "speed (exit_of rest (backs cs))" using back_speed [OF assms(2)] speed_rest by (cases "backs cs") simp_all
    then show ?thesis by (simp add: Nil rest_le)
  next
    case (Cons c ds)
    then show ?thesis using Cons.IH [of 0] Cons.prems by (simp add: exit_of_nth b flip: length_0_conv)
  qed
  moreover have "speed (exit_of rest (backs bs))" "speed (exit_of rest (backs (bs @ cs)))"
    using back_speed [of bs] back_speed [of "bs @ cs"] Cons.prems assms(2) speed_rest
    by (cases "backs bs"; cases "backs (bs @ cs)"; simp add: b)+
  ultimately have "reach (exit_of rest (backs bs)) g \<le> reach (exit_of rest (backs (bs @ cs))) g"
    using Cons.prems by (intro reach_mono) (simp_all add: b)
  then show ?case using Cons.IH Cons.prems by (cases k) (simp_all add: b Let_def min_le_iff_disj)
qed simp

lemma back_le: "k < length bs \<Longrightarrow> backs bs ! k \<le> fst (bs ! k)"
  by (simp add: backward_nth)

lemma plan_le_back: "k < length bs \<Longrightarrow> plan v d bs ! k \<le> backs bs ! k"
  by (simp add: two_pass_nth)

lemma map_snd_before: "k < length bs \<Longrightarrow> before d (map snd (bs @ cs)) k = before d (map snd bs) k"
  by (cases k) (simp_all add: nth_append)

lemma same_plan:
  assumes "j < length bs" "\<And>k. k \<le> j \<Longrightarrow> backs (bs @ cs) ! k = backs bs ! k"
  shows "k \<le> j \<Longrightarrow> plan v d (bs @ cs) ! k = plan v d bs ! k"
proof (induction k)
  case 0
  have "0 < length bs" using assms(1) by (cases bs) simp_all
  then show ?case using assms(2) [of 0] two_pass_nth [of 0 bs] two_pass_nth [of 0 "bs @ cs"] by simp
next
  case (Suc k)
  then show ?case using assms(1) assms(2) [of "Suc k"] by (simp add: two_pass_nth nth_append)
qed

lemma settled_nth:
  assumes "n \<le> length bs" "\<And>cs k. good cs \<Longrightarrow> k < n \<Longrightarrow> plan v d (bs @ cs) ! k = plan v d bs ! k"
  shows "settled speed reach rest v d bs n"
  unfolding settled_def
proof (intro allI impI nth_equalityI)
  fix cs k
  assume "\<forall>(m, g)\<in>set cs. speed m \<and> speed g"
  then have g: "good cs" by (simp add: good_def)
  assume "k < length (take n (plan v d (bs @ cs)))"
  then have "k < n" by simp
  then show "take n (plan v d (bs @ cs)) ! k = take n (plan v d bs) ! k" using assms(2) [OF g] by simp
qed (use assms(1) in simp)

lemma settledD:
  assumes "settled speed reach rest v d bs n" "good cs" "k < n"
  shows "plan v d (bs @ cs) ! k = plan v d bs ! k"
  using assms unfolding settled_def good_def by (metis nth_take)

text \<open>Up to a block that is entered at its maximum.\<close>

lemma settled_max:
  assumes "good bs" "j < length bs" "plan v d bs ! j = fst (bs ! j)"
  shows "settled speed reach rest v d bs (Suc j)"
proof (rule settled_nth)
  fix cs k
  assume cs: "good cs" and "k < Suc j"
  have "backs bs ! j = fst (bs ! j)"
    using plan_le_back [OF assms(2), of v d] back_le [OF assms(2)] assms(3) by simp
  moreover have "backs (bs @ cs) ! j \<le> fst (bs ! j)" using back_le [of j "bs @ cs"] assms(2) by (simp add: nth_append)
  ultimately have j: "backs (bs @ cs) ! j = backs bs ! j" using back_append [OF assms(1) cs assms(2)] by simp
  have "backs (bs @ cs) ! i = backs bs ! i" if "i \<le> j" for i
    using that
  proof (induction rule: inc_induct)
    case (step i)
    have e: "exit_of rest (drop (Suc i) (backs b)) = backs b ! Suc i" if "Suc i < length b" for b
      using that by (simp add: exit_of_nth)
    have l: "i < length bs" "Suc i < length bs" "i < length (bs @ cs)" "Suc i < length (bs @ cs)" using step assms(2) by simp_all
    show ?case unfolding backward_nth [OF l(1)] backward_nth [OF l(3)] e [OF l(2)] e [OF l(4)] step.IH
      using l(1) by (simp add: nth_append)
  qed (fact j)
  then show "plan v d (bs @ cs) ! k = plan v d bs ! k" using same_plan [OF assms(2)] \<open>k < Suc j\<close> by simp
qed (use assms(2) in simp)

text \<open>Up to a block whose speed is as much as can be reached from the one before.\<close>

lemma settled_reach:
  assumes "good bs" "speed v" "speed d"
  shows "j < length bs \<Longrightarrow> reach (before v (plan v d bs) j) (before d (map snd bs) j) < backs bs ! j \<Longrightarrow>
    settled speed reach rest v d bs (Suc j)"
proof (induction j)
  case 0
  have r: "plan v d bs ! 0 = reach v d" using 0 two_pass_nth [of 0 bs reach rest v d] by simp
  show ?case
  proof (rule settled_nth)
    fix cs k
    assume cs: "good cs" and "k < Suc 0"
    have "reach v d < backs (bs @ cs) ! 0" using 0 back_append [OF assms(1) cs, of 0] by simp
    then show "plan v d (bs @ cs) ! k = plan v d bs ! k" 
      using r \<open>k < Suc 0\<close> 0 two_pass_nth [of 0 "bs @ cs" reach rest v d] by simp
  qed (use 0 in \<open>simp add: Suc_le_eq\<close>)
next
  case (Suc j)
  let ?x = "plan v d bs ! j" and ?g = "snd (bs ! j)"
  have j: "j < length bs" using Suc.prems(1) by simp
  have lt: "reach ?x ?g < backs bs ! Suc j" using Suc.prems by simp
  have sx: "speed ?x" "speed ?g" using plan_speed [OF assms j] good_nth [OF assms(1) j] by simp_all
  have "settled speed reach rest v d bs (Suc j)"
  proof (cases "?x = fst (bs ! j)")
    case True
    then show ?thesis by (rule settled_max [OF assms(1) j])
  next
    case False
    have b: "backs bs ! j = min (fst (bs ! j)) (reach (backs bs ! Suc j) ?g)"
      using Suc.prems(1) by (simp add: backward_nth [OF j] exit_of_nth)
    have "?x \<noteq> backs bs ! j"
    proof
      assume "?x = backs bs ! j"
      then have "?x = reach (backs bs ! Suc j) ?g" using b False by (simp add: min_def split: if_splits)
      moreover have "backs bs ! Suc j \<le> reach (backs bs ! Suc j) ?g"
        using back_nth_speed [OF assms(1) Suc.prems(1)] sx(2) by (rule reach_ge)
      moreover have "?x \<le> reach ?x ?g" using sx by (rule reach_ge)
      ultimately show False using lt by simp
    qed
    moreover have "?x = min (backs bs ! j) (reach (before v (plan v d bs) j) (before d (map snd bs) j))"
      by (rule two_pass_nth [OF j])
    ultimately have "reach (before v (plan v d bs) j) (before d (map snd bs) j) < backs bs ! j"
      by (auto simp: min_def split: if_splits)
    then show ?thesis by (rule Suc.IH [OF j])
  qed
  note st = this
  show ?case
  proof (rule settled_nth)
    fix cs k
    assume cs: "good cs" and k: "k < Suc (Suc j)"
    have x: "plan v d (bs @ cs) ! i = plan v d bs ! i" if "i \<le> j" for i
      using settledD [OF st cs, of i] that by simp
    have "backs bs ! Suc j \<le> backs (bs @ cs) ! Suc j" by (rule back_append [OF assms(1) cs Suc.prems(1)])
    then have "reach ?x ?g < backs (bs @ cs) ! Suc j" using lt by simp
    moreover have "Suc j < length (bs @ cs)" using Suc.prems(1) by simp
    ultimately have "plan v d (bs @ cs) ! Suc j = plan v d bs ! Suc j"
      using j lt x [of j] two_pass_nth [OF Suc.prems(1), of reach rest v d]
        two_pass_nth [of "Suc j" "bs @ cs" reach rest v d] by (simp add: nth_append min_absorb2)
    then show "plan v d (bs @ cs) ! k = plan v d bs ! k" using x k less_Suc_eq_le by (cases "k = Suc j") auto
  qed (use Suc.prems(1) in simp)
qed

section \<open>The passes of the planner\<close>

lemma reverse_speeds_back:
  assumes "length es = length bs" "good bs"
    "\<And>k. Suc k < length bs \<Longrightarrow> es ! k = fst (bs ! k) \<Longrightarrow> fst (bs ! k) \<le> backs bs ! k"
  shows "reverse_speeds reach (zip es bs) = backs bs"
  using assms
proof (induction bs arbitrary: es)
  case (Cons b bs)
  obtain m g where b: "b = (m, g)" by (cases b)
  obtain e es' where es: "es = e # es'" using Cons.prems(1) by (cases es) simp_all
  have IH: "reverse_speeds reach (zip es' bs) = backs bs"
    by (rule Cons.IH) (use Cons.prems(1,2) Cons.prems(3) [of "Suc k" for k] in \<open>auto simp: b es Let_def\<close>)
  show ?case
  proof (cases bs)
    case Nil
    then show ?thesis using Cons.prems(1,2) by (simp add: b es reach_rest)
  next
    case (Cons c cs)
    have skip: "e = m \<Longrightarrow> m \<le> reach (exit_of rest (backs bs)) g" using Cons.prems(3) [of 0] by (simp add: b es Cons Let_def)
    obtain f es'' where es': "es' = f # es''" using Cons.prems(1) by (cases es') (simp_all add: Cons es)
    have "length (backs bs) \<noteq> 0" by (simp add: Cons)
    then have h: "hd (backs bs) = exit_of rest (backs bs)" by (cases "backs bs") simp_all
    have "reverse_speeds reach (zip es (b # bs)) =
        (if e = m then e else min m (reach (hd (reverse_speeds reach (zip es' bs))) g)) # reverse_speeds reach (zip es' bs)"
      by (simp add: b es es' Cons Let_def)
    also have "\<dots> = backs (b # bs)" unfolding IH h using skip by (auto simp: b Let_def min_def)
    finally show ?thesis .
  qed
qed simp

lemma forward_planned_at:
  assumes "good bs" "speed v" "speed d" "length rs = length bs" "\<forall>r\<in>set rs. speed r"
  shows "forward_planned reach v d bs rs i p = p \<or>
    (\<exists>j<length bs. forward_planned reach v d bs rs i p = i + j \<and>
       (forward reach v d bs rs ! j = fst (bs ! j) \<or>
        reach (before v (forward reach v d bs rs) j) (before d (map snd bs) j) < rs ! j))"
  using assms
proof (induction bs arbitrary: v d rs i p)
  case (Cons b bs)
  obtain m g where b: "b = (m, g)" by (cases b)
  obtain r rs' where rs: "rs = r # rs'" using Cons.prems(4) by (cases rs) simp_all
  let ?short = "v < r \<and> reach v d < r"
  let ?w = "min r (reach v d)" and ?p = "if min r (reach v d) = m \<or> ?short then i else p"
  have w: "(if ?short then reach v d else r) = ?w"
    using reach_ge [OF Cons.prems(2,3)] by (auto simp: min_def)
  have sw: "speed ?w" using Cons.prems by (intro speed_min speed_reach) (simp_all add: rs)
  have fp: "forward_planned reach v d (b # bs) rs i p = forward_planned reach ?w g bs rs' (Suc i) ?p"
    unfolding b rs forward_planned.simps Let_def w ..
  have fw: "forward reach v d (b # bs) rs = ?w # forward reach ?w g bs rs'" by (simp add: b rs Let_def)
  have "forward_planned reach ?w g bs rs' (Suc i) ?p = ?p \<or>
    (\<exists>j<length bs. forward_planned reach ?w g bs rs' (Suc i) ?p = Suc i + j \<and>
       (forward reach ?w g bs rs' ! j = fst (bs ! j) \<or>
        reach (before ?w (forward reach ?w g bs rs') j) (before g (map snd bs) j) < rs' ! j))"
    by (rule Cons.IH [OF _ sw]) (use Cons.prems in \<open>simp_all add: b rs\<close>)
  then show ?case
  proof
    assume e: "forward_planned reach ?w g bs rs' (Suc i) ?p = ?p"
    show ?thesis
    proof (cases "?w = m \<or> ?short")
      case True
      then show ?thesis unfolding fp fw e by (intro disjI2 exI [of _ 0]) (auto simp: b rs)
    next
      case False
      then have "?p = p" by (simp only: if_False)
      then show ?thesis unfolding fp e by blast
    qed
  next
    assume "\<exists>j<length bs. forward_planned reach ?w g bs rs' (Suc i) ?p = Suc i + j \<and>
       (forward reach ?w g bs rs' ! j = fst (bs ! j) \<or>
        reach (before ?w (forward reach ?w g bs rs') j) (before g (map snd bs) j) < rs' ! j)"
    then obtain j where j: "j < length bs" "forward_planned reach ?w g bs rs' (Suc i) ?p = Suc i + j"
      "forward reach ?w g bs rs' ! j = fst (bs ! j) \<or>
        reach (before ?w (forward reach ?w g bs rs') j) (before g (map snd bs) j) < rs' ! j" by blast
    then show ?thesis unfolding fp fw by (intro disjI2 exI [of _ "Suc j"]) (simp add: b rs before_def)
  qed
qed simp

text \<open>
  The speeds of the blocks behind the first one are a plan, for some speed and gain that the first block had when it was
  planned last, and those up to the index \<open>n\<close> are settled.
\<close>

definition planned_to :: "('v \<times> 'v) list \<Rightarrow> 'v list \<Rightarrow> nat \<Rightarrow> bool" where
  "planned_to bs es n \<longleftrightarrow>
     (\<exists>v d. speed v \<and> speed d \<and> es = plan v d bs \<and> settled speed reach rest v d bs n \<and> n \<le> length bs)"

lemma planned_to_Nil [simp]: "planned_to [] es n \<longleftrightarrow> es = [] \<and> n = 0"
  using speed_rest by (auto simp: planned_to_def two_pass_def)

lemma settled_append:
  "settled speed reach rest v d bs n \<Longrightarrow> good cs \<Longrightarrow> settled speed reach rest v d (bs @ cs) n"
  unfolding settled_def append_assoc by (metis (no_types, lifting) good_def good_simps(3))

text \<open>The first block is discarded.\<close>

lemma planned_to_discard:
  assumes "good (b # bs)" "planned_to (b # bs) (e # es) n"
  shows "planned_to bs es (n - 1)"
proof -
  obtain m g where b: "b = (m, g)" by (cases b)
  obtain v d where v: "speed v" "speed d" "e # es = plan v d (b # bs)" "settled speed reach rest v d (b # bs) n"
    "n \<le> length (b # bs)" using assms(2) unfolding planned_to_def by blast
  have e: "speed e" "speed g" using plan_speeds [OF assms(1) v(1,2), folded v(3)] assms(1) by (simp_all add: b)
  have es: "es = plan e g bs" using two_pass_drop [of 0 "b # bs" reach rest v d] v(3) [symmetric] by (simp add: b)
  have "settled speed reach rest e g bs (n - 1)"
  proof (cases n)
    case (Suc k)
    show ?thesis
    proof (rule settled_nth)
      fix cs i
      assume cs: "good cs" and i: "i < n - 1"
      have nth: "plan v d (b # bs @ cs) ! j = plan v d (b # bs) ! j" if "j < n" for j
        using settledD [OF v(4) cs that] by simp
      have "plan v d (b # bs @ cs) ! 0 = e" using nth [of 0] v(3) [symmetric] by (simp add: Suc)
      then have "drop (Suc 0) (plan v d (b # bs @ cs)) = plan e g (bs @ cs)"
        using two_pass_drop [of 0 "b # bs @ cs" reach rest v d] by (simp add: b)
      then have "plan e g (bs @ cs) ! i = plan v d (b # bs @ cs) ! Suc i" using i v(5)
        by (metis Cons_nth_drop_Suc drop_Suc_Cons length_Cons length_two_pass nth_Cons_Suc nth_drop plus_1_eq_Suc zero_less_Suc drop0 list.sel(3) Suc_eq_plus1 less_or_eq_imp_le)
      also have "\<dots> = plan v d (b # bs) ! Suc i" using i by (intro nth) simp
      finally show "plan e g (bs @ cs) ! i = plan e g bs ! i" by (simp add: v(3) [symmetric] es)
    qed (use v(5) in simp)
  qed simp
  moreover have "n - 1 \<le> length bs" using v(5) by simp
  ultimately show ?thesis unfolding planned_to_def using e es by blast
qed

text \<open>The planner's passes from the block \<open>n\<close> on, after at most one block has been added, make the plan of all blocks.\<close>

lemma replan:
  assumes "planned_to bs es n" "good (bs @ cs)" "length cs \<le> 1"
    "if n = 0 then speed v0 \<and> speed d0 else v0 = es ! (n - 1) \<and> d0 = snd (bs ! (n - 1))"
    "ds = drop n (bs @ cs)" "length us = length ds" "\<And>k. n + k < length bs \<Longrightarrow> us ! k = es ! (n + k)"
  shows "reverse_speeds reach (zip us ds) = backs ds"
    "planned_to (bs @ cs) (take n es @ plan v0 d0 ds) (forward_planned reach v0 d0 ds (backs ds) (Suc n) n)"
proof -
  obtain v d where v: "speed v" "speed d" "es = plan v d bs" "settled speed reach rest v d bs n" "n \<le> length bs"
    using assms(1) unfolding planned_to_def by blast
  have g: "good bs" "good cs" "good ds" using assms(2) good_drop [of "bs @ cs" n] by (simp_all add: assms(5))
  show "reverse_speeds reach (zip us ds) = backs ds"
  proof (rule reverse_speeds_back [OF assms(6) g(3)])
    fix k
    assume k: "Suc k < length ds" "us ! k = fst (ds ! k)"
    have l: "n + k < length bs" using k(1) assms(3,5) by simp
    have "fst (ds ! k) = es ! (n + k)" using assms(7) [OF l] k(2) by simp
    also have "\<dots> \<le> backs bs ! (n + k)" unfolding v(3) by (rule plan_le_back [OF l])
    also have "\<dots> \<le> backs (bs @ cs) ! (n + k)" by (rule back_append [OF g(1,2) l])
    also have "\<dots> = backs ds ! k" using l by (simp add: assms(5) backward_drop del: drop_append)
    finally show "fst (ds ! k) \<le> backs ds ! k" .
  qed
  define u x where "u = (if n = 0 then v0 else v)" and "x = (if n = 0 then d0 else d)"
  have ux: "speed u" "speed x" using v(1,2) assms(4) by (simp_all add: u_def x_def split: if_splits)
  have st: "settled speed reach rest u x (bs @ cs) n"
    by (cases "n = 0") (simp_all add: u_def x_def settled_append [OF v(4) g(2)])
  have dr: "drop n (plan u x (bs @ cs)) = plan v0 d0 ds"
  proof (cases n)
    case (Suc k)
    have k: "k < length (bs @ cs)" "k < length bs" "k < n" using v(5) Suc by simp_all
    have "plan v d (bs @ cs) ! k = v0" "snd ((bs @ cs) ! k) = d0"
      using settledD [OF v(4) g(2) k(3)] assms(4) k by (simp_all add: Suc v(3) nth_append)
    then show ?thesis using two_pass_drop [OF k(1), of reach rest v d] by (simp add: Suc u_def x_def assms(5))
  qed (simp add: u_def x_def assms(5))
  have tk: "take n (plan u x (bs @ cs)) = take n es"
  proof (cases "n = 0")
    case False
    then show ?thesis using v(4) g(2) unfolding settled_def good_def by (simp add: u_def x_def v(3))
  qed simp
  have es: "take n es @ plan v0 d0 ds = plan u x (bs @ cs)" unfolding dr [symmetric] tk [symmetric] by simp
  have v0: "speed v0" "speed d0"
  proof -
    have "speed v0 \<and> speed d0"
    proof (cases n)
      case (Suc k)
      then show ?thesis using assms(4) plan_speed [OF g(1) v(1,2), of k] good_nth [OF g(1), of k] v(3,5) by simp
    qed (use assms(4) in simp)
    then show "speed v0" "speed d0" by blast+
  qed
  let ?q = "forward_planned reach v0 d0 ds (backs ds) (Suc n) n"
  consider (same) "?q = n" | (max) j where "j < length ds" "?q = Suc n + j" "plan v0 d0 ds ! j = fst (ds ! j)"
    | (reach) j where "j < length ds" "?q = Suc n + j"
      "reach (before v0 (plan v0 d0 ds) j) (before d0 (map snd ds) j) < backs ds ! j"
    using forward_planned_at [OF g(3) v0 length_backward [of reach rest ds] back_speed [OF g(3)], of "Suc n" n]
    unfolding two_pass_def [symmetric] by blast
  then have "settled speed reach rest u x (bs @ cs) ?q \<and> ?q \<le> length (bs @ cs)"
  proof cases
    case same
    then show ?thesis using st v(5) by simp
  next
    case (max j)
    have j: "n + j < length (bs @ cs)" using max(1) by (simp add: assms(5))
    have "plan u x (bs @ cs) ! (n + j) = plan v0 d0 ds ! j" unfolding dr [symmetric] using j by simp
    moreover have "ds ! j = (bs @ cs) ! (n + j)" unfolding assms(5) using j by (intro nth_drop) simp
    ultimately have "plan u x (bs @ cs) ! (n + j) = fst ((bs @ cs) ! (n + j))" using max(3) by simp
    then show ?thesis using settled_max [OF assms(2) j] max(2) j by simp
  next
    case (reach j)
    have j: "n + j < length (bs @ cs)" using reach(1) by (simp add: assms(5))
    have "before u (plan u x (bs @ cs)) (n + j) = before v0 (plan v0 d0 ds) j \<and>
        before x (map snd (bs @ cs)) (n + j) = before d0 (map snd ds) j"
    proof (cases j)
      case 0
      show ?thesis
      proof (cases n)
        case (Suc k)
        then have "k < length bs" "k < n" using v(5) by simp_all
        then show ?thesis using settledD [OF v(4) g(2), of k] assms(4)
          by (simp add: 0 Suc u_def x_def v(3) nth_append)
      qed (simp add: 0 u_def x_def)
    next
      case (Suc i)
      have "plan u x (bs @ cs) ! (n + i) = plan v0 d0 ds ! i" unfolding dr [symmetric] using j Suc by simp
      moreover have "ds ! i = (bs @ cs) ! (n + i)" unfolding assms(5) using j Suc by (intro nth_drop) simp
      ultimately show ?thesis using j Suc reach(1) by (simp del: map_append)
    qed
    moreover have "backs (bs @ cs) ! (n + j) = backs ds ! j" using j by (simp add: assms(5) backward_drop del: drop_append)
    ultimately show ?thesis using settled_reach [OF assms(2) ux j] reach(2,3) j by simp
  qed
  then show "planned_to (bs @ cs) (take n es @ plan v0 d0 ds) ?q"
    unfolding planned_to_def es using ux by blast
qed

end

section \<open>Floating-point speeds\<close>

text \<open>Squared speeds are non-negative floats, and the rounded sum has the laws of the interface.\<close>

interpretation f32_speeds: speeds f32_nonneg 0 f32_add
proof unfold_locales
  show "f32_nonneg 0" by (simp add: f32_nonneg_def)
qed (simp_all add: f32_add_nonneg f32_add_ge f32_add_mono)

end
