(* ===== verification/Spec2Isabelle.thy ===== *)
theory Spec2Isabelle
  imports Override Crc Utf8 Ngc_flowctrl State_machine Modbus Nuts_bolts Ngc_message Ngc_program Stepper_motion Planner Plan_spec
begin

text \<open>
  A verification library for the grblHAL firmware of a GD32F4xx motion controller.

  \<^bold>\<open>The program.\<close> G-code lines arrive on a stream, or from a file (\<^verbatim>\<open>grbl/stream_file.c\<close>). Lines with O-words go
  to the flow control interpreter (\<^verbatim>\<open>grbl/ngc_flowctrl.c\<close>), which repositions the file for loops and calls and has
  conditions evaluated by the expression evaluator (\<^verbatim>\<open>grbl/ngc_expr.c\<close>) over the parameters
  (\<^verbatim>\<open>grbl/ngc_params.c\<close>). The parser passes straight lines to the planner (\<^verbatim>\<open>grbl/planner.c\<close>), a ring of blocks whose
  speeds are planned ahead; the stepper module (\<^verbatim>\<open>grbl/stepper.c\<close>) cuts the first block into segments of equal
  speed in a second ring, from which the timer interrupt generates the step pulses. Real-time commands go past
  the line queue, through the override queues (\<^verbatim>\<open>grbl/override.c\<close>) and the executor flags, to the state machine
  (\<^verbatim>\<open>grbl/state_machine.c\<close>), which holds, resumes, parks and locks the machine. Spindles on a serial line are driven by
  Modbus (\<^verbatim>\<open>grbl/modbus.c\<close>, \<^verbatim>\<open>grbl/modbus_rtu.c\<close>), with the checksums of \<^verbatim>\<open>grbl/crc.c\<close>.

  \<^bold>\<open>Conventions.\<close> The static variables of a C file are a record, each function is a definition of the same name on it,
  and composite functions are split where the code has its own steps. Integers are words of their width; pointers
  are indices or cell numbers; a read or write outside memory the code owns, through a null pointer or after
  \<^verbatim>\<open>free\<close> is the value \<open>None\<close>. Floats are binary32 words with exactly rounded arithmetic. Calls that act on
  hardware or on modules outside the model are recorded in order in a list. What such modules return
  is in an environment argument.

  \<^bold>\<open>Theories.\<close>

  \<^item> \<open>Prelude\<close>: machine types, rule collections, facts on words and lists. \<open>Status\<close>, \<open>System_states\<close>: the codes of
    \<^verbatim>\<open>grbl/errors.h\<close> and the states and flags of \<^verbatim>\<open>grbl/system.h\<close>.
  \<^item> \<open>Ring\<close>: index arithmetic of circular buffers and the interface \<open>bounded_fifo\<close>, proved once: whatever the
    interleaving, what is read is what was accepted, in order. It is interpreted on the override queues and on the
    message queue of the Modbus link.
  \<^item> \<open>Float32\<close>, \<open>Float_arith\<close>, \<open>Float_order\<close>: binary32 as words; rounding, arithmetic and conversions; that
    rounding is monotone and the words of non-negative values are ordered as the values.
  \<^item> \<open>Override\<close>: the three queues of \<^verbatim>\<open>grbl/override.c\<close>. They refine bounded queues, and a get that is
    interrupted at any of its memory accesses is linearizable.
  \<^item> \<open>Crc\<close>: \<^verbatim>\<open>grbl/crc.c\<close>, against polynomial division, and what the checksums detect. \<open>Utf8\<close>:
    \<^verbatim>\<open>grbl/utf8.c\<close>, round trip with a decoder.
  \<^item> \<open>Nuts_bolts\<close>: printing and reading of numbers, \<^verbatim>\<open>grbl/nuts_bolts.c\<close>: round trip and buffer bounds.
  \<^item> \<open>Stream_file\<close>: redirected program input; what a reader gets is the non-blank lines of the file, also nested.
  \<^item> \<open>Ngc_params\<close>: numbered, named and string parameters and call levels; round trips, isolation of calls.
  \<^item> \<open>Ngc_expr\<close>, \<open>Ngc_expr_spec\<close>: the evaluator with its two stacks and mutually recursive readers; it ends, stays in
    bounds, does not depend on uninitialised variables, and computes the value of an expression tree. \<open>Ngc_message\<close>:
    parameters in messages, against a reference, with the inputs that overflow the allocation.
  \<^item> \<open>Ngc_flowctrl\<close>: the interpreter of O-words: invariant of the stack and call levels, branches, loops, calls
    with arguments, errors. \<open>Ngc_program\<close> composes it with the evaluator through a locale.
  \<^item> \<open>State_machine\<close>: states, event handlers, hold, safety door, parking. The handler always belongs to the
    state, locked states ignore events, the door stops spindle and coolant.
  \<^item> \<open>Modbus_rtu\<close>, \<open>Modbus\<close>: the polled link with its blocking send, run concurrently with the interrupt: no
    null pointer, bounded time, order of messages, checked replies; request frames and replies.
  \<^item> \<open>Stepper\<close>, \<open>Stepper_motion\<close>: the step interrupt over the ring of segments: every axis makes exactly its
    steps, is never more than half a step off the line, and what a feed hold loses.
  \<^item> \<open>Planner\<close>: the ring of blocks, the look-ahead, axis and junction limits, overrides.

  \<^bold>\<open>Bounds and fuel.\<close> The depth of recursion of \<open>real_value\<close> is the length of the line plus one, and so are the passes of
  the loop over an expression: every level reads at least one character. The stacks of the evaluator have seven entries, of
  which at most five are used, one per level of precedence above the closing bracket. The substitution of parameters
  makes at most one pass per character. Loops around the ring of blocks have as many passes as it has blocks. The
  stepper theorems ask for blocks of less than \<open>2 ^ 28\<close> steps, as the interrupt multiplies them by eight, and
  segments of less than \<open>2 ^ 29\<close>.

  \<^bold>\<open>Configuration.\<close> \<^verbatim>\<open>Inc/my_machine.h\<close> and the defaults of \<^verbatim>\<open>grbl/config.h\<close>: four axes, step smoothing on, one spindle,
  no spindle synchronisation, backlash compensation, jerk limits, acceleration profiles or kinematics.

  \<^bold>\<open>Not modelled.\<close> The parser of blocks (\<^verbatim>\<open>grbl/gcode.c\<close>), settings, reports, homing, motion control and the protocol loop, which
  dispatch to nearly every module or wait on inputs; the generation of segments in \<^verbatim>\<open>st_prep_buffer\<close> but for its
  start and end, so that the stepper theorems take the segments as given; file systems, FatFs and the USB library, which are
  third-party; the drivers under \<^verbatim>\<open>Src\<close>, spindle and laser plugins, which access hardware registers or are not enabled. Timing is not
  modelled, nor is contraction of multiplication and addition by the compiler.
\<close>

end
